(* ===== verification/Datom_Prelude.thy ===== *)
theory Datom_Prelude
  imports Main "HOL-Library.Word" "HOL-Library.AList" "HOL-Library.Char_ord"
    "HOL-Library.List_Lexorder" "HOL-Library.Multiset"
begin

section \<open>Prelude: statuses, outcomes, C++ containers and transition systems\<close>

text \<open>
  What every other theory of the development shares.

  \<^item> \<open>status\<close> is the thrift enum \<open>Status\<close> of \<open>src/idls/status.thrift\<close>; \<open>exn\<close> separates the
    exceptions the code catches by type (\<open>StatusException\<close>, of which \<open>MessageException\<close> is a
    subclass) from every other \<open>std::exception\<close>.
  \<^item> \<open>'a outcome\<close> is the result of a piece of code that may return, throw, or end the process
    (a failed glog \<open>CHECK\<close>, or undefined behaviour such as a null dereference).
  \<^item> signed 64-bit and 32-bit integers are \<open>int\<close>: their overflow is undefined behaviour in C++
    and no operation modelled here comes near the bounds; the places where the code converts
    between widths or signedness use \<open>narrow32\<close> and \<open>as_u64\<close>. Unsigned 32-bit values are
    \<open>32 word\<close>, so that their wrap-around is the code's.
  \<^item> \<open>std::map\<close> is a sorted association list (\<open>smap_put\<close> is \<open>operator[]=\<close>), because the code
    reads its first entry and iterates it in key order; \<open>std::unordered_map\<close> is an association
    list updated by \<open>AList.update\<close>. Both are instances of the interface locale \<open>table\<close>.
  \<^item> \<open>inv_system\<close> is the interface of every state machine of the development: an invariant
    that holds at the start and is kept by a step holds in every reachable state.
\<close>

named_theorems outcome_simps \<open>evaluation of outcomes and their sequencing\<close>
named_theorems table_simps \<open>lookups in tables after updates\<close>

subsection \<open>Statuses, exceptions and outcomes\<close>

datatype status =
    STATUS_OK
  | STATUS_DUPLICATE | STATUS_DUPLICATE_KEY | STATUS_DUPLICATE_DATASPHERE
  | STATUS_DUPLICATE_NODE | STATUS_DUPLICATE_SERVICE | STATUS_DUPLICATE_VOLUME
  | STATUS_INVALID | STATUS_INVALID_KEY | STATUS_INVALID_VALUE | STATUS_INVALID_NAME
  | STATUS_INVALID_VOLUME | STATUS_INVALID_DATASPHERE | STATUS_INVALID_NODE
  | STATUS_INVALID_SERVICE | STATUS_INVALID_CREDENTIALS | STATUS_INVALID_TERM
  | STATUS_INVALID_RESOURCE | STATUS_INVALID_STATE | STATUS_INVALID_COMMIT
  | STATUS_IN_PROGRESS | STATUS_NOT_READY | STATUS_OFFLINE | STATUS_TRY_AGAIN
  | STATUS_PUBLISH_FAILED | STATUS_SUBSCRIBE_FAILED | STATUS_RESOURCE_LOAD_FAILED
  | STATUS_DB_WRITE_FAILURE | STATUS_DB_READ_FAILURE | STATUS_NO_QUORUM | STATUS_NOT_LEADER

datatype exn =
    StatusException status  \<comment> \<open>\<open>StatusException\<close> and its subclass \<open>MessageException\<close>\<close>
  | OtherException          \<comment> \<open>any other \<open>std::exception\<close>\<close>

datatype 'a outcome =
    Ok 'a
  | Throw exn
  | Abort                   \<comment> \<open>a failed \<open>CHECK\<close> or undefined behaviour: the process ends\<close>

fun obind :: "'a outcome \<Rightarrow> ('a \<Rightarrow> 'b outcome) \<Rightarrow> 'b outcome" where
  "obind (Ok x) f = f x"
| "obind (Throw e) f = Throw e"
| "obind Abort f = Abort"

declare obind.simps [outcome_simps]

lemma obind_Ok_iff [outcome_simps]:
  "obind r f = Ok y \<longleftrightarrow> (\<exists>x. r = Ok x \<and> f x = Ok y)"
  by (cases r) auto

lemma obind_assoc: "obind (obind r f) g = obind r (\<lambda>x. obind (f x) g)"
  by (cases r) auto

text \<open>A \<open>Status\<close> other than \<open>STATUS_OK\<close> turned into an exception, as the handlers do.\<close>

definition throwUnlessOk :: "status \<Rightarrow> 'a \<Rightarrow> 'a outcome" where
  "throwUnlessOk s x = (if s \<noteq> STATUS_OK then Throw (StatusException s) else Ok x)"

subsection \<open>Integer conversions\<close>

definition narrow32 :: "int \<Rightarrow> int" where
  "narrow32 i = signed_take_bit 31 i"

definition as_u64 :: "int \<Rightarrow> int" where
  "as_u64 i = take_bit 64 i"

lemma narrow32_id: "- (2 ^ 31) \<le> i \<Longrightarrow> i < 2 ^ 31 \<Longrightarrow> narrow32 i = i"
  by (simp add: narrow32_def signed_take_bit_int_eq_self)

lemma as_u64_id: "0 \<le> i \<Longrightarrow> i < 2 ^ 64 \<Longrightarrow> as_u64 i = i"
  by (simp add: as_u64_def take_bit_int_eq_self)

subsection \<open>\<open>std::map\<close>: association lists sorted by key\<close>

type_synonym ('k, 'v) smap = "('k \<times> 'v) list"

fun smap_put :: "'k::linorder \<Rightarrow> 'v \<Rightarrow> ('k, 'v) smap \<Rightarrow> ('k, 'v) smap" where
  "smap_put k v [] = [(k, v)]"
| "smap_put k v ((k', v') # m) =
     (if k < k' then (k, v) # (k', v') # m
      else if k = k' then (k, v) # m
      else (k', v') # smap_put k v m)"

definition smap_ok :: "('k::linorder, 'v) smap \<Rightarrow> bool" where
  "smap_ok m \<longleftrightarrow> sorted_wrt (<) (map fst m)"

lemma fst_smap_put: "fst ` set (smap_put k v m) = insert k (fst ` set m)"
  by (induction k v m rule: smap_put.induct) auto

lemma smap_put_ok: "smap_ok m \<Longrightarrow> smap_ok (smap_put k v m)"
proof (induction k v m rule: smap_put.induct)
  case (1 k v)
  show ?case by (simp add: smap_ok_def)
next
  case (2 k v k' v' m)
  have keys: "\<forall>x \<in> fst ` set (smap_put k v m). x = k \<or> x \<in> fst ` set m"
    by (simp add: fst_smap_put)
  with 2 show ?case by (fastforce simp: smap_ok_def)
qed

lemma smap_ok_not_less: "smap_ok ((k', v') # m) \<Longrightarrow> k \<in> fst ` set m \<Longrightarrow> k' < k"
  by (auto simp: smap_ok_def)

lemma map_of_smap_put:
  "smap_ok m \<Longrightarrow> map_of (smap_put k v m) = (map_of m)(k \<mapsto> v)"
  by (induction k v m rule: smap_put.induct) (auto simp: smap_ok_def fun_eq_iff)

lemma smap_ok_Nil [simp]: "smap_ok []"
  by (simp add: smap_ok_def)

lemma smap_ok_distinct: "smap_ok m \<Longrightarrow> distinct (map fst m)"
  by (simp add: smap_ok_def strict_sorted_iff)

lemma smap_ok_filter: "smap_ok m \<Longrightarrow> sorted_wrt (<) (map fst (filter P m))"
  unfolding smap_ok_def by (induction m) auto

text \<open>\<open>m.begin()\<close> of a non-empty \<open>std::map\<close> is the entry with the least key.\<close>

lemma smap_hd_least:
  assumes "smap_ok m" and "m \<noteq> []" and "k \<in> fst ` set m"
  shows "fst (hd m) \<le> k"
  using assms by (cases m) (auto simp: smap_ok_def)

lemma hd_smap_eqI:
  assumes "smap_ok m" and "(k, v) \<in> set m" and "\<And>k'. k' \<in> fst ` set m \<Longrightarrow> k \<le> k'"
  shows "hd m = (k, v)"
proof (cases m)
  case Nil
  with assms(2) show ?thesis by simp
next
  case (Cons p m')
  from Cons assms(3) have "k \<le> fst p" by auto
  with Cons assms(1,2) show ?thesis by (fastforce simp: smap_ok_def)
qed

subsection \<open>The table interface and its two instances\<close>

locale table =
  fixes empty :: "'m"
    and put :: "'k \<Rightarrow> 'v \<Rightarrow> 'm \<Rightarrow> 'm"
    and look :: "'m \<Rightarrow> 'k \<rightharpoonup> 'v"
    and ok :: "'m \<Rightarrow> bool"
  assumes ok_empty: "ok empty"
    and ok_put: "ok m \<Longrightarrow> ok (put k v m)"
    and look_empty: "look empty = Map.empty"
    and look_put: "ok m \<Longrightarrow> look (put k v m) = (look m)(k \<mapsto> v)"
begin

text \<open>A loop that stores one entry after another, from any table.\<close>

lemma ok_fold: "ok m \<Longrightarrow> ok (fold (\<lambda>(k, v). put k v) kvs m)"
  by (induction kvs arbitrary: m) (auto simp: ok_put)

lemma look_fold:
  "ok m \<Longrightarrow> look (fold (\<lambda>(k, v). put k v) kvs m) = look m ++ map_of (rev kvs)"
proof (induction kvs arbitrary: m)
  case Nil
  show ?case by simp
next
  case (Cons p kvs)
  obtain k v where p: "p = (k, v)" by (cases p)
  from Cons show ?case
    by (auto simp: p ok_put look_put map_add_def fun_eq_iff split: option.splits)
qed

lemma look_fold_empty:
  "look (fold (\<lambda>(k, v). put k v) kvs empty) = map_of (rev kvs)"
  by (simp add: look_fold ok_empty look_empty)

lemma look_put_same: "ok m \<Longrightarrow> look (put k v m) k = Some v"
  by (simp add: look_put)

lemma look_put_other: "ok m \<Longrightarrow> k' \<noteq> k \<Longrightarrow> look (put k v m) k' = look m k'"
  by (simp add: look_put)

end

interpretation smapT: table "[]" smap_put map_of smap_ok
  by unfold_locales (simp_all add: smap_put_ok map_of_smap_put)

interpretation umapT: table "[]" AList.update map_of "\<lambda>m. distinct (map fst m)"
  by unfold_locales (simp_all add: distinct_update update_conv')

declare update_conv' [table_simps] map_of_smap_put [table_simps]

subsection \<open>Reachable states\<close>

locale inv_system =
  fixes init :: "'s \<Rightarrow> bool"
    and step :: "'s \<Rightarrow> 's \<Rightarrow> bool"
    and inv :: "'s \<Rightarrow> bool"
  assumes init_inv: "init s \<Longrightarrow> inv s"
    and step_inv: "inv s \<Longrightarrow> step s t \<Longrightarrow> inv t"
begin

lemma steps_inv: "step\<^sup>*\<^sup>* s t \<Longrightarrow> inv s \<Longrightarrow> inv t"
  by (induction rule: rtranclp_induct) (auto intro: step_inv)

lemma reachable_inv: "init s \<Longrightarrow> step\<^sup>*\<^sup>* s t \<Longrightarrow> inv t"
  by (blast intro: steps_inv init_inv)

end

subsection \<open>Generic list lemmas\<close>

lemma successively_append_last:
  "successively P (xs @ [y]) \<longleftrightarrow> successively P xs \<and> (xs = [] \<or> P (last xs) y)"
  by (auto simp: successively_append_iff)

lemma length_filter_split:
  "length (filter P xs) + length (filter (\<lambda>x. \<not> P x) xs) = length xs"
  by (rule sum_length_filter_compl)

lemma takeWhile_eq_filter_down:
  assumes "sorted_wrt R xs"
    and "\<And>x y. x \<in> set xs \<Longrightarrow> y \<in> set xs \<Longrightarrow> R x y \<Longrightarrow> P y \<Longrightarrow> P x"
  shows "takeWhile P xs = filter P xs"
  using assms
proof (induction xs)
  case (Cons x xs)
  show ?case
  proof (cases "P x")
    case True
    have "takeWhile P xs = filter P xs"
      using Cons.prems by (intro Cons.IH) auto
    with True show ?thesis by simp
  next
    case False
    with Cons.prems have "\<forall>y \<in> set xs. \<not> P y" by auto
    with False show ?thesis by simp
  qed
qed simp

lemma append_less_append_iff:
  fixes xs ys as bs :: "'a::linorder list"
  assumes "length xs = length ys"
  shows "xs @ as < ys @ bs \<longleftrightarrow> xs < ys \<or> xs = ys \<and> as < bs"
  using assms by (induction xs ys rule: list_induct2) auto

lemma append_between_prefix:
  fixes xs ys as bs cs :: "'a::linorder list"
  assumes "length xs = length ys" and "xs @ as \<le> ys @ bs" and "ys @ bs \<le> xs @ cs"
  shows "ys = xs"
  using assms by (auto simp: append_less_append_iff le_less)

lemma map_of_functional:
  assumes "\<And>k v v'. (k, v) \<in> set xs \<Longrightarrow> (k, v') \<in> set xs \<Longrightarrow> v = v'"
  shows "map_of xs k = Some v \<longleftrightarrow> (k, v) \<in> set xs"
  using assms by (metis map_of_SomeD map_of_eq_None_iff option.exhaust fst_conv image_eqI)

lemma fold_map_upd_apply:
  "fold (\<lambda>(k, v) m. m(k \<mapsto> v)) kvs m = m ++ map_of (rev kvs)"
  by (induction kvs arbitrary: m) (auto simp: map_add_def fun_eq_iff split: option.splits)

lemma of_nat_word32_less_iff:
  "n < 2 ^ 32 \<Longrightarrow> (of_nat n :: 32 word) < w \<longleftrightarrow> n < unat w"
  by (simp add: word_less_nat_alt unat_of_nat take_bit_nat_eq_self)

lemma unat_word32_minus_1: "0 < (w :: 32 word) \<Longrightarrow> unat (w - 1) = unat w - 1"
  by (simp add: unat_minus_one word_greater_zero_iff)

end
