(* ===== verification/Datom_Types.thy ===== *)
theory Datom_Types
  imports Datom_Prelude
begin

section \<open>Thrift data types, message buffers and library conversions\<close>

text \<open>
  The structs the generated thrift code gives the C++ sources (\<open>src/idls/*.thrift\<close>), the
  property accessors of \<open>src/infra/gen-ext/KVBuffer_ext.tcc\<close>, and the helpers of
  \<open>src/infra/gen-ext/commontypes_ext.cpp\<close>. Field names carry a prefix per struct because
  record selectors share one name space. \<open>folly_ops\<close> holds the conversions of the folly
  library the code relies on: they are not part of the repository, so every definition that
  uses them takes the record as an argument, and \<open>folly_ok\<close> states the documented behaviour
  the properties need.
\<close>

type_synonym bytes = "8 word list"

subsection \<open>Library conversions (folly)\<close>

record folly_ops =
  split_colon :: "string \<Rightarrow> string list"     \<comment> \<open>\<open>folly::split(":", s, v)\<close>\<close>
  to_uint64 :: "string \<Rightarrow> nat option"       \<comment> \<open>\<open>folly::to<uint64_t>\<close>, None when it throws\<close>
  to_int64 :: "string \<Rightarrow> int option"        \<comment> \<open>\<open>folly::to<int64_t>\<close>, None when it throws\<close>
  of_int64 :: "int \<Rightarrow> string"               \<comment> \<open>\<open>folly::to<std::string>(int64_t)\<close>\<close>

text \<open>
  Documented behaviour: splitting at a separator that occurs nowhere gives the whole string,
  splitting \<open>a:b\<close> with no other separator gives the two parts, and reading back a printed
  64-bit number gives the number.
\<close>

definition folly_ok :: "folly_ops \<Rightarrow> bool" where
  "folly_ok f \<longleftrightarrow>
     (\<forall>a. CHR '':'' \<notin> set a \<longrightarrow> split_colon f a = [a]) \<and>
     (\<forall>a b. CHR '':'' \<notin> set a \<longrightarrow> CHR '':'' \<notin> set b \<longrightarrow>
        split_colon f (a @ '':'' @ b) = [a, b]) \<and>
     (\<forall>i. - (2 ^ 63) \<le> i \<longrightarrow> i < 2 ^ 63 \<longrightarrow> to_int64 f (of_int64 f i) = Some i)"

lemma folly_int64:
  "folly_ok f \<Longrightarrow> - (2 ^ 63) \<le> i \<Longrightarrow> i < 2 ^ 63 \<Longrightarrow> to_int64 f (of_int64 f i) = Some i"
  by (simp add: folly_ok_def)

text \<open>An instance of these conversions on decimal numerals, for evaluation.\<close>

fun split_at_colon :: "string \<Rightarrow> string list" where
  "split_at_colon [] = [[]]"
| "split_at_colon (c # s) =
     (if c = CHR '':'' then [] # split_at_colon s
      else (c # hd (split_at_colon s)) # tl (split_at_colon s))"

definition digit_char :: "nat \<Rightarrow> char" where
  "digit_char n = ''0123456789'' ! n"

fun dec_of_nat :: "nat \<Rightarrow> string" where
  "dec_of_nat n =
     (if n < 10 then [digit_char n] else dec_of_nat (n div 10) @ [digit_char (n mod 10)])"

declare dec_of_nat.simps [simp del]

definition is_digit :: "char \<Rightarrow> bool" where
  "is_digit c \<longleftrightarrow> 48 \<le> (of_char c :: nat) \<and> (of_char c :: nat) < 58"

definition dec_value :: "string \<Rightarrow> nat" where
  "dec_value s = foldl (\<lambda>n c. 10 * n + (of_char c - 48)) 0 s"

definition nat_of_dec :: "string \<Rightarrow> nat option" where
  "nat_of_dec s = (if s \<noteq> [] \<and> list_all is_digit s then Some (dec_value s) else None)"

definition dec_of_int :: "int \<Rightarrow> string" where
  "dec_of_int i = (if i < 0 then CHR ''-'' # dec_of_nat (nat (- i)) else dec_of_nat (nat i))"

definition int_of_dec :: "string \<Rightarrow> int option" where
  "int_of_dec s =
     (if s \<noteq> [] \<and> hd s = CHR ''-'' then map_option (\<lambda>n. - int n) (nat_of_dec (tl s))
      else map_option int (nat_of_dec s))"

definition folly_dec :: folly_ops where
  "folly_dec =
     \<lparr>split_colon = split_at_colon,
      to_uint64 = (\<lambda>s. case nat_of_dec s of
         Some n \<Rightarrow> if n < 2 ^ 64 then Some n else None | None \<Rightarrow> None),
      to_int64 = (\<lambda>s. case int_of_dec s of
         Some i \<Rightarrow> if - (2 ^ 63) \<le> i \<and> i < 2 ^ 63 then Some i else None | None \<Rightarrow> None),
      of_int64 = dec_of_int\<rparr>"

lemma split_at_colon_plain: "CHR '':'' \<notin> set a \<Longrightarrow> split_at_colon a = [a]"
  by (induction a) auto

lemma split_at_colon_pair:
  "CHR '':'' \<notin> set a \<Longrightarrow> CHR '':'' \<notin> set b \<Longrightarrow> split_at_colon (a @ '':'' @ b) = [a, b]"
  by (induction a) (auto simp: split_at_colon_plain)

lemma digit_char_value:
  assumes "n < 10"
  shows "(of_char (digit_char n) :: nat) = 48 + n"
proof -
  from assms have "n \<in> {0, 1, 2, 3, 4, 5, 6, 7, 8, 9}" by auto
  then show ?thesis by (auto simp: digit_char_def)
qed

lemma is_digit_digit_char: "n < 10 \<Longrightarrow> is_digit (digit_char n)"
  by (simp add: is_digit_def digit_char_value)

lemma dec_of_nat_digits: "dec_of_nat n \<noteq> [] \<and> list_all is_digit (dec_of_nat n)"
proof (induction n rule: dec_of_nat.induct)
  case (1 n)
  then show ?case
    by (cases "n < 10") (simp_all add: dec_of_nat.simps [of n] is_digit_digit_char)
qed

lemma dec_value_dec_of_nat: "dec_value (dec_of_nat n) = n"
proof (induction n rule: dec_of_nat.induct)
  case (1 n)
  show ?case
  proof (cases "n < 10")
    case True
    then show ?thesis by (simp add: dec_of_nat.simps [of n] dec_value_def digit_char_value)
  next
    case False
    then have "dec_value (dec_of_nat n) = 10 * dec_value (dec_of_nat (n div 10)) + n mod 10"
      by (simp add: dec_of_nat.simps [of n] dec_value_def digit_char_value)
    with 1 False show ?thesis by simp
  qed
qed

lemma nat_of_dec_of_nat [simp]: "nat_of_dec (dec_of_nat n) = Some n"
  using dec_of_nat_digits [of n] by (simp add: nat_of_dec_def dec_value_dec_of_nat)

lemma hd_dec_of_nat: "hd (dec_of_nat n) \<noteq> CHR ''-''"
  using dec_of_nat_digits [of n] by (cases "dec_of_nat n") (auto simp: is_digit_def)

lemma int_of_dec_of_int [simp]: "int_of_dec (dec_of_int i) = Some i"
  using dec_of_nat_digits [of "nat i"] hd_dec_of_nat [of "nat i"]
  by (auto simp: int_of_dec_def dec_of_int_def)

lemma folly_dec_ok: "folly_ok folly_dec"
  by (simp add: folly_ok_def folly_dec_def split_at_colon_plain split_at_colon_pair
      del: append_Cons)

subsection \<open>Common structs: \<open>commontypes.thrift\<close>\<close>

datatype ServiceType = VOLUME_SERVER | CLI | TEST

record DataSphereInfo =
  ds_id :: string

record ServiceInfo =
  si_id :: string
  si_dataSphereId :: string
  si_nodeId :: string
  si_type :: ServiceType
  si_ip :: string
  si_port :: int
  si_rootPath :: string

record VolumeInfo =
  vi_id :: int
  vi_name :: string
  vi_datasphereId :: string
  vi_ringId :: int

record RingInfo =
  ri_id :: int
  ri_memberIds :: "string list"

definition INVALID_VERSION :: int where "INVALID_VERSION = -1"
definition INVALID_VALUE :: int where "INVALID_VALUE = -1"
definition MAX_PAYLOAD_BYTES :: int where "MAX_PAYLOAD_BYTES = 2097152"

text \<open>\<open>RingInfo{}\<close>, what \<open>operator[]\<close> of an unordered map inserts for a missing key.\<close>

definition RingInfo_default :: RingInfo where
  "RingInfo_default = \<lparr>ri_id = 0, ri_memberIds = []\<rparr>"

definition isRingMember :: "RingInfo \<Rightarrow> string \<Rightarrow> bool" where
  "isRingMember info serviceId \<longleftrightarrow> List.member (ri_memberIds info) serviceId"

definition getId :: "VolumeInfo \<Rightarrow> int" where
  "getId info = vi_id info"

subsection \<open>\<open>KVBuffer\<close> and its properties\<close>

record KVBuffer =
  kv_props :: "(string, string) smap"
  kv_payload :: "bytes option"          \<comment> \<open>\<open>std::unique_ptr<folly::IOBuf>\<close>, None when null\<close>

definition KVBuffer_new :: KVBuffer where
  "KVBuffer_new = \<lparr>kv_props = [], kv_payload = None\<rparr>"

definition KEY_VERSION :: string where "KEY_VERSION = ''version''"
definition KEY_TYPE :: string where "KEY_TYPE = ''type''"
definition KEY_ID :: string where "KEY_ID = ''id''"

definition setProp :: "KVBuffer \<Rightarrow> string \<Rightarrow> string \<Rightarrow> KVBuffer" where
  "setProp kvb key val = kvb\<lparr>kv_props := smap_put key val (kv_props kvb)\<rparr>"

text \<open>\<open>props.at(key)\<close> throws \<open>std::out_of_range\<close> when the key is missing.\<close>

definition getProp :: "KVBuffer \<Rightarrow> string \<Rightarrow> string outcome" where
  "getProp kvb key =
     (case map_of (kv_props kvb) key of None \<Rightarrow> Throw OtherException | Some v \<Rightarrow> Ok v)"

definition setVersion :: "folly_ops \<Rightarrow> KVBuffer \<Rightarrow> int \<Rightarrow> KVBuffer" where
  "setVersion f kvb version = setProp kvb KEY_VERSION (of_int64 f version)"

definition getVersion :: "folly_ops \<Rightarrow> KVBuffer \<Rightarrow> int outcome" where
  "getVersion f kvb =
     obind (getProp kvb KEY_VERSION)
       (\<lambda>s. case to_int64 f s of None \<Rightarrow> Throw OtherException | Some v \<Rightarrow> Ok v)"

definition setType :: "KVBuffer \<Rightarrow> string \<Rightarrow> KVBuffer" where
  "setType kvb type = setProp kvb KEY_TYPE type"

definition getType :: "KVBuffer \<Rightarrow> string outcome" where
  "getType kvb = getProp kvb KEY_TYPE"

definition setId :: "KVBuffer \<Rightarrow> string \<Rightarrow> KVBuffer" where
  "setId kvb id' = setProp kvb KEY_ID id'"

definition getIdProp :: "KVBuffer \<Rightarrow> string outcome" where
  "getIdProp kvb = getProp kvb KEY_ID"

text \<open>
  A payload is written and read by a thrift serializer, which is generated code: the
  serializer and the parser are arguments. Reading a null buffer dereferences it.
\<close>

definition setPayload :: "('t \<Rightarrow> bytes) \<Rightarrow> KVBuffer \<Rightarrow> 't \<Rightarrow> KVBuffer" where
  "setPayload ser kvb payload = kvb\<lparr>kv_payload := Some (ser payload)\<rparr>"

definition getPayload :: "(bytes \<Rightarrow> 't option) \<Rightarrow> KVBuffer \<Rightarrow> 't outcome" where
  "getPayload parse kvb =
     (case kv_payload kvb of
        None \<Rightarrow> Abort
      | Some b \<Rightarrow> (case parse b of None \<Rightarrow> Throw OtherException | Some t \<Rightarrow> Ok t))"

definition kvb_ok :: "KVBuffer \<Rightarrow> bool" where
  "kvb_ok kvb \<longleftrightarrow> smap_ok (kv_props kvb)"

lemma kvb_ok_new [simp]: "kvb_ok KVBuffer_new"
  by (simp add: kvb_ok_def KVBuffer_new_def)

lemma kvb_ok_setProp [simp]: "kvb_ok kvb \<Longrightarrow> kvb_ok (setProp kvb k v)"
  by (simp add: kvb_ok_def setProp_def smap_put_ok)

lemma kvb_ok_setters [simp]:
  "kvb_ok kvb \<Longrightarrow> kvb_ok (setType kvb t)"
  "kvb_ok kvb \<Longrightarrow> kvb_ok (setId kvb i)"
  "kvb_ok kvb \<Longrightarrow> kvb_ok (setVersion f kvb v)"
  "kvb_ok kvb \<Longrightarrow> kvb_ok (setPayload ser kvb p)"
  by (simp_all add: setType_def setId_def setVersion_def)
    (simp add: kvb_ok_def setPayload_def)

lemma getProp_setProp:
  "kvb_ok kvb \<Longrightarrow> getProp (setProp kvb k v) k' = (if k' = k then Ok v else getProp kvb k')"
  by (simp add: getProp_def setProp_def kvb_ok_def map_of_smap_put)

lemma getProp_setPayload [simp]: "getProp (setPayload ser kvb p) k = getProp kvb k"
  by (simp add: getProp_def setPayload_def)

lemma kv_payload_setters [simp]:
  "kv_payload (setProp kvb k v) = kv_payload kvb"
  "kv_payload (setType kvb t) = kv_payload kvb"
  "kv_payload (setId kvb i) = kv_payload kvb"
  "kv_payload (setVersion f kvb n) = kv_payload kvb"
  by (simp_all add: setProp_def setType_def setId_def setVersion_def)

lemmas kvb_keys = KEY_VERSION_def KEY_TYPE_def KEY_ID_def

lemma getType_setters:
  "kvb_ok kvb \<Longrightarrow> getType (setType kvb t) = Ok t"
  "kvb_ok kvb \<Longrightarrow> getType (setVersion f kvb v) = getType kvb"
  "kvb_ok kvb \<Longrightarrow> getType (setId kvb i) = getType kvb"
  "getType (setPayload ser kvb p) = getType kvb"
  by (simp_all add: getType_def setType_def setVersion_def setId_def getProp_setProp kvb_keys)

lemma getVersion_setters:
  "kvb_ok kvb \<Longrightarrow> to_int64 f (of_int64 f v) = Some v \<Longrightarrow>
     getVersion f (setVersion f kvb v) = Ok v"
  "kvb_ok kvb \<Longrightarrow> getVersion f (setType kvb t) = getVersion f kvb"
  "kvb_ok kvb \<Longrightarrow> getVersion f (setId kvb i) = getVersion f kvb"
  "getVersion f (setPayload ser kvb p) = getVersion f kvb"
  by (simp_all add: getVersion_def setType_def setVersion_def setId_def getProp_setProp kvb_keys)

lemma getPayload_setPayload:
  "parse (ser p) = Some p \<Longrightarrow> getPayload parse (setPayload ser kvb p) = Ok p"
  by (simp add: getPayload_def setPayload_def)

lemmas kvb_simps = getType_setters getVersion_setters getPayload_setPayload

subsection \<open>Primary/backup group messages: \<open>pbapi.thrift\<close>\<close>

text \<open>
  The code compares states by the order of the enum (\<open>isFollowerState\<close> and its kin), so the
  datatype is given the linear order of the enum values.
\<close>

datatype PBMemberState =
    UNINITIALIZED
  | FOLLOWER_BEGIN | FOLLOWER_WAIT_TO_JOIN_GROUP | FOLLOWER_SYNCING | FOLLOWER_FUNCTIONAL
  | FOLLOWER_END
  | EC_BEGIN | EC_ACQUIRE_LOCK | EC_WAITING_FOR_QUORUM | EC_ELECTION_IN_PROGRESS | EC_END
  | LEADER_BEGIN | LEADER_WAITING_FOR_QUORUM | LEADER_FUNCTIONAL | LEADER_END

fun state_code :: "PBMemberState \<Rightarrow> nat" where
  "state_code UNINITIALIZED = 0"
| "state_code FOLLOWER_BEGIN = 1"
| "state_code FOLLOWER_WAIT_TO_JOIN_GROUP = 2"
| "state_code FOLLOWER_SYNCING = 3"
| "state_code FOLLOWER_FUNCTIONAL = 4"
| "state_code FOLLOWER_END = 5"
| "state_code EC_BEGIN = 6"
| "state_code EC_ACQUIRE_LOCK = 7"
| "state_code EC_WAITING_FOR_QUORUM = 8"
| "state_code EC_ELECTION_IN_PROGRESS = 9"
| "state_code EC_END = 10"
| "state_code LEADER_BEGIN = 11"
| "state_code LEADER_WAITING_FOR_QUORUM = 12"
| "state_code LEADER_FUNCTIONAL = 13"
| "state_code LEADER_END = 14"

lemma state_code_inject: "state_code s = state_code t \<Longrightarrow> s = t"
  by (cases s; cases t; simp)

instantiation PBMemberState :: linorder
begin

definition less_eq_PBMemberState :: "PBMemberState \<Rightarrow> PBMemberState \<Rightarrow> bool" where
  "s \<le> t \<longleftrightarrow> state_code s \<le> state_code t"

definition less_PBMemberState :: "PBMemberState \<Rightarrow> PBMemberState \<Rightarrow> bool" where
  "s < t \<longleftrightarrow> state_code s < state_code t"

instance
  by standard (auto simp: less_eq_PBMemberState_def less_PBMemberState_def state_code_inject)

end

record GetMemberStateMsg =
  gm_groupType :: string
  gm_resourceId :: int
  gm_termId :: int

record GetMemberStateRespMsg =
  gr_id :: string
  gr_commitId :: int
  gr_version :: int
  gr_state :: PBMemberState

record BecomeLeaderMsg =
  bl_resourceId :: int
  bl_termId :: int
  bl_functionalMembers :: "GetMemberStateRespMsg list"

record GroupInfoUpdateMsg =
  gi_resourceId :: int
  gi_termId :: int
  gi_leaderId :: string
  gi_functionalMembers :: "GetMemberStateRespMsg list"

record AddToGroupMsg =
  ag_resourceId :: int
  ag_termId :: int
  ag_memberId :: string
  ag_memberVersion :: int
  ag_memberState :: PBMemberState

record AddToGroupRespMsg =
  ar_syncCommitId :: int

subsection \<open>Volume messages: \<open>volumeapi.thrift\<close>, and journal messages\<close>

record BlobKVPair =
  bp_offset :: "64 word"
  bp_chunkId :: bytes

record UpdateBlobMetaMsg =
  ub_resourceId :: int
  ub_blobId :: "64 word"
  ub_opId :: int
  ub_commitId :: int
  ub_chunkList :: "BlobKVPair list"

record GetBlobMetaMsg =
  gb_resourceId :: int
  gb_blobId :: "64 word"
  gb_startOffset :: "64 word"
  gb_endOffset :: "64 word"

record GetBlobMetaRespMsg =
  gbr_resourceId :: int
  gbr_blobId :: "64 word"
  gbr_chunkList :: "BlobKVPair list"

record JournalEntry =
  je_msgId :: string
  je_entryId :: int
  je_buffer :: bytes

record PullJournalEntriesMsg =
  pj_resourceId :: int
  pj_termId :: int
  pj_fromId :: int
  pj_toId :: int
  pj_maxBytesInResp :: int

record PullJournalEntriesRespMsg =
  pjr_journalEntries :: "JournalEntry list"

end
