(* ===== verification/Config_Tree.thy ===== *)
theory Config_Tree
  imports Datom_Types
begin

section \<open>Paths of the configuration tree: \<open>src/idls/configtree.thrift\<close>\<close>

text \<open>
  The path formats of the configuration database, with their arguments filled in as
  \<open>folly::sformat\<close> does. Resource and ring ids are printed by \<open>of_int64\<close>.
\<close>

definition DATOM_ROOT :: string where "DATOM_ROOT = ''/datom''"
definition CONFIGSERVICE_ROOT :: string where "CONFIGSERVICE_ROOT = ''/configservice''"
definition PB_VOLUMES_TYPE :: string where "PB_VOLUMES_TYPE = ''volumes''"
definition TOPIC_SERVICES :: string where "TOPIC_SERVICES = ''services''"

definition DATASPHERE_ROOT_PATH :: "string \<Rightarrow> string" where
  "DATASPHERE_ROOT_PATH ds = ''/dataspheres/'' @ ds"

definition SERVICES_ROOT_PATH :: "string \<Rightarrow> string" where
  "SERVICES_ROOT_PATH ds = DATASPHERE_ROOT_PATH ds @ ''/services''"

definition SERVICE_ROOT_PATH :: "string \<Rightarrow> string \<Rightarrow> string" where
  "SERVICE_ROOT_PATH ds service = SERVICES_ROOT_PATH ds @ ''/'' @ service"

definition PB_SPHERE_ROOT_PATH :: "string \<Rightarrow> string \<Rightarrow> string" where
  "PB_SPHERE_ROOT_PATH ds type = DATASPHERE_ROOT_PATH ds @ ''/pbsphere/'' @ type"

definition PB_SPHERE_RINGS_ROOT_PATH :: "string \<Rightarrow> string \<Rightarrow> string" where
  "PB_SPHERE_RINGS_ROOT_PATH ds type = PB_SPHERE_ROOT_PATH ds type @ ''/rings''"

definition PB_SPHERE_RING_ROOT_PATH :: "folly_ops \<Rightarrow> string \<Rightarrow> string \<Rightarrow> int \<Rightarrow> string" where
  "PB_SPHERE_RING_ROOT_PATH f ds type ring =
     PB_SPHERE_RINGS_ROOT_PATH ds type @ ''/'' @ of_int64 f ring"

definition PB_SPHERE_RESOURCES_ROOT_PATH :: "string \<Rightarrow> string \<Rightarrow> string" where
  "PB_SPHERE_RESOURCES_ROOT_PATH ds type = PB_SPHERE_ROOT_PATH ds type @ ''/resources''"

definition PB_SPHERE_RESOURCE_ROOT_PATH :: "folly_ops \<Rightarrow> string \<Rightarrow> string \<Rightarrow> int \<Rightarrow> string" where
  "PB_SPHERE_RESOURCE_ROOT_PATH f ds type resource =
     PB_SPHERE_RESOURCES_ROOT_PATH ds type @ ''/'' @ of_int64 f resource"

definition TOPIC_PB_SPHERE_RESOURCES :: "string \<Rightarrow> string" where
  "TOPIC_PB_SPHERE_RESOURCES type = ''pbsphere.'' @ type"

end
