(* ===== verification/Journal.thy ===== *)
theory Journal
  imports Datom_Types
begin

section \<open>The in-memory journal: \<open>src/infra/Journal.h\<close>, \<open>src/infra/Journal.cpp\<close>\<close>

text \<open>
  \<open>Journal\<close> is the list of records a replica keeps of the writes it has applied. The
  well-formedness invariant \<open>journal_wf\<close> (consecutive ids) is what \<open>addEntry\<close> checks for;
  \<open>removeLastEntry\<close> is the roll-back of a write whose database update failed, and
  \<open>retrieveEntries\<close> answers a syncing peer.
\<close>

record JournalRecord =
  jr_id :: int
  jr_type :: string
  jr_buf :: bytes

type_synonym Journal = "JournalRecord list"

definition addEntry :: "int \<Rightarrow> string \<Rightarrow> bytes \<Rightarrow> Journal \<Rightarrow> status \<times> Journal" where
  "addEntry i type buffer entries =
     (if length entries > 0 \<and> jr_id (last entries) + 1 \<noteq> i then (STATUS_INVALID_COMMIT, entries)
      else (STATUS_OK, entries @ [\<lparr>jr_id = i, jr_type = type, jr_buf = buffer\<rparr>]))"

text \<open>\<open>std::list::pop_back\<close> on an empty list is undefined behaviour.\<close>

definition removeLastEntry :: "Journal \<Rightarrow> Journal outcome" where
  "removeLastEntry entries = (if entries = [] then Abort else Ok (butlast entries))"

text \<open>
  The loop runs over the reverse iterators, appending each record in range to the result;
  \<open>maxBytesInResp\<close> is never read.
\<close>

definition toJournalEntry :: "JournalRecord \<Rightarrow> JournalEntry" where
  "toJournalEntry r = \<lparr>je_msgId = jr_type r, je_entryId = jr_id r, je_buffer = jr_buf r\<rparr>"

fun retrieveLoop :: "int \<Rightarrow> int \<Rightarrow> JournalRecord list \<Rightarrow> JournalEntry list \<Rightarrow> JournalEntry list" where
  "retrieveLoop fromId toId [] ret = ret"
| "retrieveLoop fromId toId (r # rs) ret =
     retrieveLoop fromId toId rs
       (if jr_id r \<ge> fromId \<and> jr_id r \<le> toId then ret @ [toJournalEntry r] else ret)"

definition retrieveEntries ::
  "int \<Rightarrow> int \<Rightarrow> int \<Rightarrow> Journal \<Rightarrow> JournalEntry list \<Rightarrow> status \<times> JournalEntry list" where
  "retrieveEntries fromId toId maxBytesInResp entries ret =
     (STATUS_OK, retrieveLoop fromId toId (rev entries) ret)"

subsection \<open>Well-formed journals\<close>

definition journal_wf :: "Journal \<Rightarrow> bool" where
  "journal_wf entries \<longleftrightarrow> successively (\<lambda>r s. jr_id s = jr_id r + 1) entries"

lemma journal_wf_Nil [simp]: "journal_wf []"
  by (simp add: journal_wf_def)

lemma journal_wf_butlast: "journal_wf js \<Longrightarrow> journal_wf (butlast js)"
  by (cases js rule: rev_cases) (auto simp: journal_wf_def successively_append_last)

lemma addEntry_wf: "journal_wf js \<Longrightarrow> journal_wf (snd (addEntry i t b js))"
  by (auto simp: addEntry_def journal_wf_def successively_append_last)

lemma addEntry_reject: "fst (addEntry i t b js) \<noteq> STATUS_OK \<Longrightarrow> snd (addEntry i t b js) = js"
  by (simp add: addEntry_def split: if_splits)

lemma addEntry_accept_iff:
  "fst (addEntry i t b js) = STATUS_OK \<longleftrightarrow> js = [] \<or> i = jr_id (last js) + 1"
  by (auto simp: addEntry_def)

lemma addEntry_status: "fst (addEntry i t b js) \<in> {STATUS_OK, STATUS_INVALID_COMMIT}"
  by (simp add: addEntry_def)

lemma addEntry_OkD:
  "addEntry i t b js = (STATUS_OK, js') \<Longrightarrow>
     js' = js @ [\<lparr>jr_id = i, jr_type = t, jr_buf = b\<rparr>]"
  by (simp add: addEntry_def split: if_splits)

lemma removeLastEntry_addEntry:
  "addEntry i t b js = (STATUS_OK, js') \<Longrightarrow> removeLastEntry js' = Ok js"
  by (auto dest!: addEntry_OkD simp: removeLastEntry_def)

text \<open>In a well-formed journal an id is determined by its distance from the front.\<close>

lemma journal_wf_nth:
  "journal_wf js \<Longrightarrow> k < length js \<Longrightarrow> jr_id (js ! k) = jr_id (hd js) + int k"
proof (induction k)
  case 0
  then show ?case by (simp add: hd_conv_nth)
next
  case (Suc k)
  then have "jr_id (js ! Suc k) = jr_id (js ! k) + 1"
    by (auto simp: journal_wf_def dest: successively_nth)
  with Suc show ?case by simp
qed

lemma journal_wf_last:
  "journal_wf js \<Longrightarrow> js \<noteq> [] \<Longrightarrow> jr_id (last js) = jr_id (hd js) + int (length js) - 1"
  using journal_wf_nth [of js "length js - 1"]
  by (simp add: last_conv_nth of_nat_diff Suc_leI)

lemma journal_wf_sorted: "journal_wf js \<Longrightarrow> sorted_wrt (<) (map jr_id js)"
  by (auto simp: sorted_wrt_iff_nth_less journal_wf_nth)

lemma journal_wf_distinct: "journal_wf js \<Longrightarrow> distinct (map jr_id js)"
  by (drule journal_wf_sorted) (simp add: strict_sorted_iff)

subsection \<open>What retrieval returns\<close>

lemma retrieveLoop_eq:
  "retrieveLoop a b rs ret =
     ret @ map toJournalEntry (filter (\<lambda>r. a \<le> jr_id r \<and> jr_id r \<le> b) rs)"
  by (induction rs arbitrary: ret) auto

lemma retrieveEntries_eq:
  "retrieveEntries a b n js ret =
     (STATUS_OK, ret @ rev (map toJournalEntry (filter (\<lambda>r. a \<le> jr_id r \<and> jr_id r \<le> b) js)))"
  by (simp add: retrieveEntries_def retrieveLoop_eq rev_filter rev_map)

lemma je_entryId_toJournalEntry [simp]: "je_entryId (toJournalEntry r) = jr_id r"
  by (simp add: toJournalEntry_def)

lemma retrieveEntries_descending:
  assumes "journal_wf js"
  shows "sorted_wrt (>) (map je_entryId (snd (retrieveEntries a b n js [])))"
proof -
  have "sorted_wrt (<) (map jr_id (filter (\<lambda>r. a \<le> jr_id r \<and> jr_id r \<le> b) js))"
    using journal_wf_sorted [OF assms] by (simp add: sorted_wrt_map sorted_wrt_filter)
  then show ?thesis
    by (simp add: retrieveEntries_eq rev_map [symmetric] sorted_wrt_rev comp_def)
qed

subsection \<open>Properties\<close>

text \<open>
  A history of the journal: attempts to append and roll-backs of the last record.
\<close>

datatype journal_op = JAdd int string bytes | JRemove

fun journal_run :: "journal_op list \<Rightarrow> Journal \<Rightarrow> Journal outcome" where
  "journal_run [] js = Ok js"
| "journal_run (JAdd i t b # ops) js = journal_run ops (snd (addEntry i t b js))"
| "journal_run (JRemove # ops) js = obind (removeLastEntry js) (journal_run ops)"

lemma journal_run_wf: "journal_wf js \<Longrightarrow> journal_run ops js = Ok js' \<Longrightarrow> journal_wf js'"
proof (induction ops js rule: journal_run.induct)
  case (3 ops js)
  show ?case
  proof (cases "js = []")
    case False
    with "3.prems" have "journal_run ops (butlast js) = Ok js'"
      by (simp add: removeLastEntry_def outcome_simps)
    with "3.IH" journal_wf_butlast [OF "3.prems"(1)] show ?thesis by blast
  qed (use "3.prems" in \<open>simp add: removeLastEntry_def outcome_simps\<close>)
qed (simp_all add: addEntry_wf)

text \<open>
  The journal never has a gap: after any history of append attempts and roll-backs that
  starts from the empty journal and removes no record of an empty journal, the k-th record
  has the id of the first one plus k.
\<close>

theorem journal_history_consecutive:
  assumes "journal_run ops [] = Ok js" and "k < length js"
  shows "jr_id (js ! k) = jr_id (hd js) + int k"
  using journal_run_wf [OF journal_wf_Nil assms(1)] assms(2) by (rule journal_wf_nth)

theorem journal_history_consecutive_witness:
  "\<exists>js. journal_run [JAdd 4 ''U'' [], JAdd 9 ''U'' [], JAdd 5 ''U'' [1], JRemove, JAdd 5 ''U'' [2]] []
      = Ok js \<and> length js = 2 \<and> jr_id (js ! 1) = jr_id (hd js) + int 1"
proof -
  have run: "journal_run [JAdd 4 ''U'' [], JAdd 9 ''U'' [], JAdd 5 ''U'' [1], JRemove, JAdd 5 ''U'' [2]] []
     = Ok [\<lparr>jr_id = 4, jr_type = ''U'', jr_buf = []\<rparr>, \<lparr>jr_id = 5, jr_type = ''U'', jr_buf = [2]\<rparr>]"
    by (simp add: addEntry_def removeLastEntry_def)
  show ?thesis
    by (rule exI, rule conjI, rule run, rule conjI)
      (simp, rule journal_history_consecutive [OF run], simp)
qed

text \<open>
  Retrieval of a range returns exactly the records whose id lies in the range, each once,
  newest first (strictly descending ids), whatever byte limit is asked for and whatever the
  range.
\<close>

theorem retrieveEntries_newest_first:
  assumes "journal_wf js" and "retrieveEntries fromId toId maxBytes js [] = (s, es)"
  shows "s = STATUS_OK \<and> sorted_wrt (>) (map je_entryId es) \<and>
    set es = toJournalEntry ` {r \<in> set js. fromId \<le> jr_id r \<and> jr_id r \<le> toId} \<and>
    length es = card {i. fromId \<le> i \<and> i \<le> toId \<and> i \<in> jr_id ` set js}"
proof -
  let ?f = "filter (\<lambda>r. fromId \<le> jr_id r \<and> jr_id r \<le> toId) js"
  from assms(2) have es: "s = STATUS_OK" "es = rev (map toJournalEntry ?f)"
    by (simp_all add: retrieveEntries_eq)
  have "distinct (map jr_id ?f)"
    using journal_wf_distinct [OF assms(1)] by (simp add: distinct_map_filter)
  then have "length es = card (set (map jr_id ?f))"
    using es distinct_card by (metis length_map length_rev)
  moreover have "set (map jr_id ?f) = {i. fromId \<le> i \<and> i \<le> toId \<and> i \<in> jr_id ` set js}"
    by auto
  moreover have "sorted_wrt (>) (map je_entryId es)"
    using retrieveEntries_descending [OF assms(1), of fromId toId maxBytes] assms(2) by simp
  moreover have "set es = toJournalEntry ` {r \<in> set js. fromId \<le> jr_id r \<and> jr_id r \<le> toId}"
    using es by simp
  ultimately show ?thesis using es by simp
qed

theorem retrieveEntries_newest_first_witness:
  "let js = [\<lparr>jr_id = 7, jr_type = ''U'', jr_buf = [1]\<rparr>, \<lparr>jr_id = 8, jr_type = ''U'', jr_buf = [2]\<rparr>] in
   journal_wf js \<and> sorted_wrt (>) (map je_entryId (snd (retrieveEntries 7 9 0 js []))) \<and>
   map je_entryId (snd (retrieveEntries 7 9 0 js [])) = [8, 7]"
proof -
  let ?js = "[\<lparr>jr_id = 7, jr_type = ''U'', jr_buf = [1 :: 8 word]\<rparr>,
              \<lparr>jr_id = 8, jr_type = ''U'', jr_buf = [2]\<rparr>]"
  have wf: "journal_wf ?js" by (simp add: journal_wf_def)
  have "sorted_wrt (>) (map je_entryId (snd (retrieveEntries 7 9 0 ?js [])))"
    using retrieveEntries_newest_first [OF wf surjective_pairing] by blast
  with wf show ?thesis by (simp add: retrieveEntries_eq)
qed

end
