(* ===== verification/Volume_Meta_Db.thy ===== *)
theory Volume_Meta_Db
  imports Datom_Types
begin

section \<open>The volume metadata database: \<open>src/volumeserver/VolumeMetaDb.cpp\<close>\<close>

text \<open>
  A blob's metadata maps offsets to chunk ids. \<open>VolumeMetaDb\<close> stores it in a RocksDB
  database under 16-byte keys, the raw memory of two \<open>int64_t\<close> (\<open>BlobMetaOffsetKey\<close>), which on
  the little-endian machines the code is built for puts the least significant byte first.

  RocksDB is not part of the repository: its operations are the fields of the record
  \<open>rocksdb\<close>, an argument of every definition here. \<open>rdb_write\<close> is an atomic \<open>DB::Write\<close> of a
  batch (None when its status is not ok), \<open>rdb_seek\<close> the entries an iterator visits from
  \<open>Seek(key)\<close> until it is no longer valid, \<open>rdb_view\<close> what \<open>Get\<close> would return. \<open>rocksdb_ok\<close> is
  their documented behaviour under the default options: a batch applies its puts in order,
  and an iterator visits the live keys in ascending order of their bytes.
\<close>

subsection \<open>RocksDB\<close>

record 'db rocksdb =
  rdb_open :: "string \<Rightarrow> 'db option"
  rdb_write :: "'db \<Rightarrow> (bytes \<times> bytes) list \<Rightarrow> 'db option"
  rdb_seek :: "'db \<Rightarrow> bytes \<Rightarrow> (bytes \<times> bytes) list"
  rdb_view :: "'db \<Rightarrow> bytes \<Rightarrow> bytes option"
  rdb_inv :: "'db \<Rightarrow> bool"

definition rocksdb_ok :: "'db rocksdb \<Rightarrow> bool" where
  "rocksdb_ok R \<longleftrightarrow>
     (\<forall>db batch db'. rdb_inv R db \<longrightarrow> rdb_write R db batch = Some db' \<longrightarrow>
        rdb_inv R db' \<and> rdb_view R db' = fold (\<lambda>(k, v) m. m(k \<mapsto> v)) batch (rdb_view R db)) \<and>
     (\<forall>db key. rdb_inv R db \<longrightarrow>
        sorted_wrt (<) (map fst (rdb_seek R db key)) \<and>
        (\<forall>k v. (k, v) \<in> set (rdb_seek R db key) \<longleftrightarrow> key \<le> k \<and> rdb_view R db k = Some v))"

lemma rocksdb_write:
  "rocksdb_ok R \<Longrightarrow> rdb_inv R db \<Longrightarrow> rdb_write R db batch = Some db' \<Longrightarrow>
     rdb_inv R db' \<and> rdb_view R db' = rdb_view R db ++ map_of (rev batch)"
  by (simp add: rocksdb_ok_def fold_map_upd_apply)

lemma rocksdb_seek:
  assumes "rocksdb_ok R" and "rdb_inv R db"
  shows "sorted_wrt (<) (map fst (rdb_seek R db key))"
    and "(k, v) \<in> set (rdb_seek R db key) \<longleftrightarrow> key \<le> k \<and> rdb_view R db k = Some v"
  using assms by (auto simp: rocksdb_ok_def)

text \<open>
  A concrete database, used by the witnesses: a map kept in key order, whose writes always
  succeed.
\<close>

definition mem_db :: "(bytes, bytes) smap rocksdb" where
  "mem_db = \<lparr>rdb_open = (\<lambda>_. Some []),
     rdb_write = (\<lambda>db batch. Some (fold (\<lambda>(k, v). smap_put k v) batch db)),
     rdb_seek = (\<lambda>db key. filter (\<lambda>kv. key \<le> fst kv) db),
     rdb_view = map_of, rdb_inv = smap_ok\<rparr>"

lemma mem_db_ok: "rocksdb_ok mem_db"
proof -
  have "(k, v) \<in> set (filter (\<lambda>kv. key \<le> fst kv) db) \<longleftrightarrow> key \<le> k \<and> map_of db k = Some v"
    if "smap_ok db" for key k v and db :: "(bytes, bytes) smap"
    using smap_ok_distinct [OF that] by (auto simp: map_of_eq_Some_iff)
  then show ?thesis
    by (auto simp: rocksdb_ok_def mem_db_def smapT.ok_fold smapT.look_fold fold_map_upd_apply
        smap_ok_filter simp del: set_filter)
qed

subsection \<open>Keys\<close>

definition le_bytes :: "64 word \<Rightarrow> bytes" where
  "le_bytes w = map (\<lambda>i. ucast (drop_bit (8 * i) w)) [0..<8]"

fun le_word :: "bytes \<Rightarrow> 64 word" where
  "le_word [] = 0"
| "le_word (b # bs) = or (ucast b) (push_bit 8 (le_word bs))"

text \<open>\<open>BlobMetaOffsetKey::toSlice\<close> and the constructor from a slice.\<close>

definition toSlice :: "64 word \<Rightarrow> 64 word \<Rightarrow> bytes" where
  "toSlice blobId offset = le_bytes blobId @ le_bytes offset"

definition fromSlice :: "bytes \<Rightarrow> 64 word \<times> 64 word" where
  "fromSlice s = (le_word (take 8 s), le_word (take 8 (drop 8 s)))"

lemma length_le_bytes [simp]: "length (le_bytes w) = 8"
  by (simp add: le_bytes_def)

lemma le_bytes_list:
  "le_bytes w = [ucast w, ucast (drop_bit 8 w), ucast (drop_bit 16 w), ucast (drop_bit 24 w),
     ucast (drop_bit 32 w), ucast (drop_bit 40 w), ucast (drop_bit 48 w), ucast (drop_bit 56 w)]"
  by (simp add: le_bytes_def upt_rec numeral_eq_Suc)

lemma low_byte_or_rest: "or (ucast (ucast w :: 8 word)) (push_bit 8 (drop_bit 8 w)) = (w :: 64 word)"
proof (rule bit_word_eqI)
  fix n
  assume "n < LENGTH(64)"
  then show "bit (or (ucast (ucast w :: 8 word)) (push_bit 8 (drop_bit 8 w))) n = bit w n"
    by (cases "n < 8") (auto simp: bit_simps)
qed

lemma drop_bit_64_zero: "drop_bit 64 (w :: 64 word) = 0"
  by (rule bit_word_eqI) (auto simp: bit_simps dest: bit_imp_le_length)

lemma le_word_le_bytes [simp]: "le_word (le_bytes w) = w"
proof -
  have step: "or (ucast (ucast (drop_bit n w) :: 8 word)) (push_bit 8 (drop_bit (n + 8) w))
      = (drop_bit n w :: 64 word)" for n
    using low_byte_or_rest [of "drop_bit n w"] by (simp add: drop_bit_drop_bit add.commute)
  show ?thesis
    using low_byte_or_rest [of w] step [of 8] step [of 16] step [of 24] step [of 32] step [of 40]
      step [of 48] step [of 56] drop_bit_64_zero [of w]
    by (simp add: le_bytes_list)
qed

lemma fromSlice_toSlice [simp]: "fromSlice (toSlice b off) = (b, off)"
  by (simp add: fromSlice_def toSlice_def)

lemma toSlice_inject [simp]: "toSlice b off = toSlice b' off' \<longleftrightarrow> b = b' \<and> off = off'"
  by (metis fromSlice_toSlice prod.inject)

text \<open>On offsets of one byte the order of the keys is the order of the offsets.\<close>

lemma drop_bit_small:
  assumes "unat w < 256" and "8 \<le> n"
  shows "drop_bit n (w :: 64 word) = 0"
proof -
  have "(2::nat) ^ 8 \<le> 2 ^ n" using assms(2) by (rule power_increasing) simp
  with assms(1) have "unat (drop_bit n w) = 0"
    unfolding unat_drop_bit_eq by (simp add: drop_bit_eq_div)
  then show ?thesis by (simp only: unat_eq_zero)
qed

lemma le_bytes_small: "unat w < 256 \<Longrightarrow> le_bytes w = ucast w # replicate 7 0"
  by (simp add: le_bytes_list drop_bit_small eval_nat_numeral)

lemma le_bytes_less_small:
  "unat v < 256 \<Longrightarrow> unat w < 256 \<Longrightarrow> le_bytes v < le_bytes w \<longleftrightarrow> v < w"
  by (simp add: le_bytes_small word_less_nat_alt unsigned_ucast_eq take_bit_nat_eq_self)

lemma toSlice_less_same: "toSlice b v < toSlice b w \<longleftrightarrow> le_bytes v < le_bytes w"
  by (simp add: toSlice_def append_less_append_iff)

lemma toSlice_between:
  "toSlice b v \<le> toSlice b' u \<Longrightarrow> toSlice b' u \<le> toSlice b w \<Longrightarrow> b' = b"
  unfolding toSlice_def
  by (drule append_between_prefix [rotated]) (auto dest: arg_cong [of _ _ le_word])

subsection \<open>Operations\<close>

definition VolumeMetaDb_init :: "'db rocksdb \<Rightarrow> string \<Rightarrow> 'db outcome" where
  "VolumeMetaDb_init R dbPath =
     (case rdb_open R dbPath of
        None \<Rightarrow> Throw (StatusException STATUS_RESOURCE_LOAD_FAILED)
      | Some db \<Rightarrow> Ok db)"

definition updateBatch :: "UpdateBlobMetaMsg \<Rightarrow> (bytes \<times> bytes) list" where
  "updateBatch msg =
     map (\<lambda>kv. (toSlice (ub_blobId msg) (bp_offset kv), bp_chunkId kv)) (ub_chunkList msg)"

definition applyUpdate :: "'db rocksdb \<Rightarrow> UpdateBlobMetaMsg \<Rightarrow> 'db \<Rightarrow> status \<times> 'db" where
  "applyUpdate R msg db =
     (case rdb_write R db (updateBatch msg) of
        None \<Rightarrow> (STATUS_DB_WRITE_FAILURE, db)
      | Some db' \<Rightarrow> (STATUS_OK, db'))"

text \<open>The body of the loop over the iterator; \<open>int64_t\<close> values compare as signed.\<close>

definition beyondRange :: "GetBlobMetaMsg \<Rightarrow> bytes \<Rightarrow> bool" where
  "beyondRange msg key =
     (let (blob, off) = fromSlice key
      in blob \<noteq> gb_blobId msg \<or> (gb_endOffset msg \<noteq> - 1 \<and> sint off > sint (gb_endOffset msg)))"

fun getBlobLoop ::
  "GetBlobMetaMsg \<Rightarrow> (bytes \<times> bytes) list \<Rightarrow> BlobKVPair list \<Rightarrow> BlobKVPair list" where
  "getBlobLoop msg [] chunks = chunks"
| "getBlobLoop msg ((key, val) # es) chunks =
     (if beyondRange msg key then chunks
      else getBlobLoop msg es
             (chunks @ [\<lparr>bp_offset = snd (fromSlice key), bp_chunkId = val\<rparr>]))"

definition getBlobMeta :: "'db rocksdb \<Rightarrow> GetBlobMetaMsg \<Rightarrow> 'db \<Rightarrow> GetBlobMetaRespMsg" where
  "getBlobMeta R msg db =
     \<lparr>gbr_resourceId = gb_resourceId msg, gbr_blobId = gb_blobId msg,
      gbr_chunkList =
        getBlobLoop msg (rdb_seek R db (toSlice (gb_blobId msg) (gb_startOffset msg))) []\<rparr>"

subsection \<open>The stored metadata, abstractly\<close>

text \<open>What the database says of a blob: its chunk at each offset.\<close>

definition blob_view :: "'db rocksdb \<Rightarrow> 'db \<Rightarrow> 64 word \<Rightarrow> 64 word \<Rightarrow> bytes option" where
  "blob_view R db blob off = rdb_view R db (toSlice blob off)"

text \<open>The abstract effect of an update message: the later of two pairs with one offset wins.\<close>

definition upd_view ::
  "UpdateBlobMetaMsg \<Rightarrow> (64 word \<Rightarrow> 64 word \<Rightarrow> bytes option) \<Rightarrow> 64 word \<Rightarrow> 64 word \<Rightarrow> bytes option" where
  "upd_view msg f blob off =
     (if blob = ub_blobId msg
      then (f blob ++ map_of (rev (map (\<lambda>kv. (bp_offset kv, bp_chunkId kv)) (ub_chunkList msg)))) off
      else f blob off)"

text \<open>Every key was written by \<open>applyUpdate\<close>.\<close>

definition db_keys_ok :: "'db rocksdb \<Rightarrow> 'db \<Rightarrow> bool" where
  "db_keys_ok R db \<longleftrightarrow> rdb_inv R db \<and> (\<forall>k \<in> dom (rdb_view R db). \<exists>b off. k = toSlice b off)"

lemma map_of_updateBatch:
  "map_of (rev (map (\<lambda>kv. (toSlice c (bp_offset kv), bp_chunkId kv)) kvs)) (toSlice b off) =
     (if b = c then map_of (rev (map (\<lambda>kv. (bp_offset kv, bp_chunkId kv)) kvs)) off else None)"
  by (induction kvs) (auto simp: map_add_def split: option.splits)

lemma applyUpdate_view:
  assumes "rocksdb_ok R" and "rdb_inv R db" and "applyUpdate R msg db = (STATUS_OK, db')"
  shows "rdb_inv R db'" and "rdb_view R db' = rdb_view R db ++ map_of (rev (updateBatch msg))"
proof -
  have "rdb_write R db (updateBatch msg) = Some db'"
    using assms(3) by (auto simp: applyUpdate_def split: option.splits)
  from rocksdb_write [OF assms(1,2) this] show "rdb_inv R db'"
    and "rdb_view R db' = rdb_view R db ++ map_of (rev (updateBatch msg))" by auto
qed

lemma applyUpdate_keys_ok:
  assumes "rocksdb_ok R" and "db_keys_ok R db" and "applyUpdate R msg db = (s, db')"
  shows "db_keys_ok R db'"
proof (cases "s = STATUS_OK")
  case True
  with assms have inv: "rdb_inv R db'"
    and view: "rdb_view R db' = rdb_view R db ++ map_of (rev (updateBatch msg))"
    using applyUpdate_view by (auto simp: db_keys_ok_def)
  have "\<exists>b off. k = toSlice b off" if "k \<in> dom (rdb_view R db')" for k
    using that assms(2) unfolding view db_keys_ok_def
    by (auto simp: updateBatch_def dom_map_of_conv_image_fst)
  with inv show ?thesis by (simp add: db_keys_ok_def)
next
  case False
  with assms show ?thesis by (auto simp: applyUpdate_def split: option.splits)
qed

lemma applyUpdate_blob_view:
  assumes "rocksdb_ok R" and "rdb_inv R db" and "applyUpdate R msg db = (STATUS_OK, db')"
  shows "blob_view R db' = upd_view msg (blob_view R db)"
  using applyUpdate_view [OF assms]
  by (auto simp: fun_eq_iff blob_view_def upd_view_def updateBatch_def map_add_def
      map_of_updateBatch split: option.splits)

lemma applyUpdate_fail: "applyUpdate R msg db = (s, db') \<Longrightarrow> s \<noteq> STATUS_OK \<Longrightarrow> db' = db"
  by (auto simp: applyUpdate_def split: option.splits)

lemma getBlobLoop_eq:
  "getBlobLoop msg es chunks = chunks @
     map (\<lambda>(key, val). \<lparr>bp_offset = snd (fromSlice key), bp_chunkId = val\<rparr>)
       (takeWhile (\<lambda>kv. \<not> beyondRange msg (fst kv)) es)"
  by (induction msg es chunks rule: getBlobLoop.induct) auto

lemma beyondRange_toSlice [simp]:
  "beyondRange msg (toSlice b off) \<longleftrightarrow>
     b \<noteq> gb_blobId msg \<or> (gb_endOffset msg \<noteq> - 1 \<and> sint off > sint (gb_endOffset msg))"
  by (simp add: beyondRange_def)

lemma sint_small:
  assumes "unat (w :: 64 word) < 256"
  shows "sint w = int (unat w)"
proof -
  have b: "int (unat w) < 256" using assms by linarith
  have "sint w = signed_take_bit 63 (uint w)" by (simp add: sint_uint)
  also have "uint w = int (unat w)" by (rule uint_nat)
  also have "signed_take_bit 63 (int (unat w)) = int (unat w)"
  proof (rule signed_take_bit_int_eq_self)
    show "- (2 ^ 63) \<le> int (unat w)" by (rule order.trans [of _ 0]) simp_all
    show "int (unat w) < 2 ^ 63" using b by (rule less_trans) simp
  qed
  finally show ?thesis .
qed

text \<open>
  On a blob whose offsets fit one byte the entries in range form a prefix of the scan, so
  stopping at the first entry out of range loses nothing.
\<close>

lemma scan_prefix_is_range:
  assumes ok: "rocksdb_ok R" and keys: "db_keys_ok R db"
    and small: "\<forall>off \<in> dom (blob_view R db (gb_blobId msg)). unat off < 256"
  defines "es \<equiv> rdb_seek R db (toSlice (gb_blobId msg) (gb_startOffset msg))"
  shows "takeWhile (\<lambda>kv. \<not> beyondRange msg (fst kv)) es
       = filter (\<lambda>kv. \<not> beyondRange msg (fst kv)) es"
proof (rule takeWhile_eq_filter_down [where R = "\<lambda>x y. fst x < fst y"])
  from keys have inv: "rdb_inv R db" by (simp add: db_keys_ok_def)
  show "sorted_wrt (\<lambda>x y. fst x < fst y) es"
    using rocksdb_seek(1) [OF ok inv] by (simp add: es_def sorted_wrt_map)
  fix x y
  assume x: "x \<in> set es" and y: "y \<in> set es" and less: "fst x < fst y"
    and yin: "\<not> beyondRange msg (fst y)"
  let ?blob = "gb_blobId msg"
  have mem: "toSlice ?blob (gb_startOffset msg) \<le> fst z \<and> rdb_view R db (fst z) = Some (snd z)"
    if "z \<in> set es" for z
    using rocksdb_seek(2) [OF ok inv] that by (cases z) (auto simp: es_def)
  have ex: "\<exists>b off. fst z = toSlice b off" if "z \<in> set es" for z
    using mem [OF that] keys unfolding db_keys_ok_def by blast
  from ex [OF x] obtain bx ox where kx: "fst x = toSlice bx ox" by blast
  from ex [OF y] obtain by' oy where ky: "fst y = toSlice by' oy" by blast
  from ky yin have by': "by' = ?blob" by simp
  have bx: "bx = ?blob"
    using mem [OF x] less kx ky by' by (intro toSlice_between [of ?blob _ bx ox oy]) auto
  have "unat ox < 256" and "unat oy < 256"
    using mem [OF x] mem [OF y] kx ky bx by' by (auto intro!: small [rule_format] simp: blob_view_def dom_def)
  moreover from this less kx ky bx by' have "ox < oy"
    by (simp add: toSlice_less_same le_bytes_less_small)
  ultimately have "sint ox < sint oy" by (simp add: sint_small word_less_def)
  with yin ky kx bx show "\<not> beyondRange msg (fst x)" by auto
qed

subsection \<open>Properties\<close>

text \<open>
  C17. Update of the metadata is atomic: either the status is \<open>STATUS_OK\<close> and the database
  now maps every offset of the blob as the message says (the last pair of an offset wins), all
  other blobs unchanged, or it is \<open>STATUS_DB_WRITE_FAILURE\<close> and nothing changed.
\<close>

theorem applyUpdate_atomic:
  assumes "rocksdb_ok R" and "rdb_inv R db" and "applyUpdate R msg db = (s, db')"
  shows "s = STATUS_OK \<and> rdb_inv R db' \<and> blob_view R db' = upd_view msg (blob_view R db) \<or>
         s = STATUS_DB_WRITE_FAILURE \<and> db' = db"
proof (cases "rdb_write R db (updateBatch msg)")
  case None
  with assms(3) show ?thesis by (simp add: applyUpdate_def)
next
  case (Some d)
  with assms(3) have upd: "applyUpdate R msg db = (STATUS_OK, db')" and "s = STATUS_OK"
    by (auto simp: applyUpdate_def)
  with applyUpdate_view(1) [OF assms(1,2) upd] applyUpdate_blob_view [OF assms(1,2) upd]
  show ?thesis by simp
qed

definition sample_update :: UpdateBlobMetaMsg where
  "sample_update = \<lparr>ub_resourceId = 0, ub_blobId = 3, ub_opId = 0, ub_commitId = 0,
     ub_chunkList = [\<lparr>bp_offset = 5, bp_chunkId = [1]\<rparr>, \<lparr>bp_offset = 256, bp_chunkId = [2]\<rparr>]\<rparr>"

definition sample_db :: "(bytes, bytes) smap" where
  "sample_db = [(toSlice 3 256, [2]), (toSlice 3 5, [1])]"

lemma sample_applyUpdate: "applyUpdate mem_db sample_update [] = (STATUS_OK, sample_db)"
  by (simp add: applyUpdate_def mem_db_def sample_update_def updateBatch_def sample_db_def
      toSlice_less_same le_bytes_list)

lemma mem_db_inv_Nil: "rdb_inv mem_db []"
  by (simp add: mem_db_def)

theorem applyUpdate_atomic_witness:
  "blob_view mem_db sample_db = upd_view sample_update (blob_view mem_db [])"
  using applyUpdate_atomic [OF mem_db_ok mem_db_inv_Nil sample_applyUpdate] by simp

text \<open>The entries a range read collects, and the pairs it makes of them.\<close>

definition rangeEntries :: "'db rocksdb \<Rightarrow> GetBlobMetaMsg \<Rightarrow> 'db \<Rightarrow> (bytes \<times> bytes) list" where
  "rangeEntries R msg db =
     filter (\<lambda>kv. \<not> beyondRange msg (fst kv)) (rdb_seek R db (toSlice (gb_blobId msg) (gb_startOffset msg)))"

definition chunkPair :: "bytes \<times> bytes \<Rightarrow> BlobKVPair" where
  "chunkPair kv = \<lparr>bp_offset = snd (fromSlice (fst kv)), bp_chunkId = snd kv\<rparr>"

lemma mem_rangeEntries:
  assumes ok: "rocksdb_ok R" and keys: "db_keys_ok R db"
    and small: "\<forall>off \<in> dom (blob_view R db (gb_blobId msg)). unat off < 256"
    and start: "unat (gb_startOffset msg) < 256"
  shows "(k, v) \<in> set (rangeEntries R msg db) \<longleftrightarrow> (\<exists>off. k = toSlice (gb_blobId msg) off \<and>
      blob_view R db (gb_blobId msg) off = Some v \<and> gb_startOffset msg \<le> off \<and>
      (gb_endOffset msg = - 1 \<or> sint off \<le> sint (gb_endOffset msg)))"
proof -
  let ?blob = "gb_blobId msg"
  from keys have inv: "rdb_inv R db" by (simp add: db_keys_ok_def)
  have "\<exists>b off. k = toSlice b off" if "rdb_view R db k = Some v"
    using that keys by (auto simp: db_keys_ok_def dom_def)
  moreover have "toSlice ?blob (gb_startOffset msg) \<le> toSlice ?blob off \<longleftrightarrow> gb_startOffset msg \<le> off"
    if "unat off < 256" for off
    using that start by (simp add: not_less [symmetric] toSlice_less_same le_bytes_less_small)
  ultimately show ?thesis
    using small rocksdb_seek(2) [OF ok inv]
    by (fastforce simp: rangeEntries_def blob_view_def not_less dom_def)
qed

lemma sorted_rangeEntries:
  assumes ok: "rocksdb_ok R" and keys: "db_keys_ok R db"
    and small: "\<forall>off \<in> dom (blob_view R db (gb_blobId msg)). unat off < 256"
    and start: "unat (gb_startOffset msg) < 256"
  shows "sorted_wrt (\<lambda>x y. bp_offset (chunkPair x) < bp_offset (chunkPair y)) (rangeEntries R msg db)"
proof (rule sorted_wrt_mono_rel [rotated])
  have "rdb_inv R db" using keys by (simp add: db_keys_ok_def)
  from rocksdb_seek(1) [OF ok this]
  show "sorted_wrt (\<lambda>x y. fst x < fst y) (rangeEntries R msg db)"
    by (simp add: rangeEntries_def sorted_wrt_map sorted_wrt_filter)
  fix x y assume xy: "x \<in> set (rangeEntries R msg db)" "y \<in> set (rangeEntries R msg db)" "fst x < fst y"
  have "\<exists>off v. z = (toSlice (gb_blobId msg) off, v) \<and> unat off < 256" if "z \<in> set (rangeEntries R msg db)" for z
  proof -
    obtain k v where z: "z = (k, v)" by (cases z)
    from that mem_rangeEntries [OF assms] small show ?thesis by (auto simp: z dom_def)
  qed
  then obtain ox vx oy vy where "x = (toSlice (gb_blobId msg) ox, vx)" "unat ox < 256"
      "y = (toSlice (gb_blobId msg) oy, vy)" "unat oy < 256"
    using xy by blast
  with xy(3) show "bp_offset (chunkPair x) < bp_offset (chunkPair y)"
    by (simp add: chunkPair_def toSlice_less_same le_bytes_less_small)
qed

text \<open>
  Range reads are right for small blobs: when every offset stored for the blob fits one
  byte, \<open>getBlobMeta\<close> returns exactly the pairs stored at offsets from \<open>startOffset\<close> to
  \<open>endOffset\<close> inclusive (to the end of the blob when \<open>endOffset\<close> is -1), each once, in
  ascending order of offset.
\<close>

theorem getBlobMeta_small_blob:
  assumes ok: "rocksdb_ok R" and keys: "db_keys_ok R db"
    and small: "\<forall>off \<in> dom (blob_view R db (gb_blobId msg)). unat off < 256"
    and start: "unat (gb_startOffset msg) < 256"
  shows "sorted_wrt (<) (map bp_offset (gbr_chunkList (getBlobMeta R msg db))) \<and>
    (\<forall>off c. \<lparr>bp_offset = off, bp_chunkId = c\<rparr> \<in> set (gbr_chunkList (getBlobMeta R msg db)) \<longleftrightarrow>
       blob_view R db (gb_blobId msg) off = Some c \<and> gb_startOffset msg \<le> off \<and>
       (gb_endOffset msg = - 1 \<or> sint off \<le> sint (gb_endOffset msg)))"
proof -
  let ?blob = "gb_blobId msg" and ?fs = "rangeEntries R msg db"
  have chunks: "gbr_chunkList (getBlobMeta R msg db) = map chunkPair ?fs"
    unfolding getBlobMeta_def rangeEntries_def chunkPair_def
    by (simp add: getBlobLoop_eq scan_prefix_is_range [OF ok keys small] case_prod_beta)
  note mem = mem_rangeEntries [OF assms]
  have "\<lparr>bp_offset = off, bp_chunkId = c\<rparr> \<in> set (map chunkPair ?fs) \<longleftrightarrow> (toSlice ?blob off, c) \<in> set ?fs"
    for off c
  proof
    assume "\<lparr>bp_offset = off, bp_chunkId = c\<rparr> \<in> set (map chunkPair ?fs)"
    then obtain k where "(k, c) \<in> set ?fs" "snd (fromSlice k) = off"
      by (auto simp: chunkPair_def)
    with mem show "(toSlice ?blob off, c) \<in> set ?fs" by auto
  next
    assume "(toSlice ?blob off, c) \<in> set ?fs"
    then show "\<lparr>bp_offset = off, bp_chunkId = c\<rparr> \<in> set (map chunkPair ?fs)"
      by (force simp: chunkPair_def)
  qed
  then show ?thesis
    using sorted_rangeEntries [OF assms] unfolding chunks by (simp add: sorted_wrt_map mem)
qed

text \<open>
  C29. Range reads lose data on larger blobs: the database orders keys by their bytes, least
  significant byte first, so the entry of offset 256 comes before that of offset 5. Whatever
  the database (as long as it behaves as documented), a blob written with exactly these two
  offsets reads as empty on the range from 0 to 10, although offset 5 is stored.
\<close>

theorem getBlobMeta_misses_stored_chunk:
  assumes ok: "rocksdb_ok R" and inv: "rdb_inv R db" and new: "rdb_view R db = Map.empty"
    and chunks: "ub_chunkList msg = [\<lparr>bp_offset = 5, bp_chunkId = c\<rparr>, \<lparr>bp_offset = 256, bp_chunkId = d\<rparr>]"
    and upd: "applyUpdate R msg db = (STATUS_OK, db')"
    and req: "gb_blobId req = ub_blobId msg" "gb_startOffset req = 0" "gb_endOffset req = 10"
  shows "blob_view R db' (ub_blobId msg) 5 = Some c \<and> gbr_chunkList (getBlobMeta R req db') = []"
proof -
  let ?blob = "ub_blobId msg"
  from applyUpdate_view [OF ok inv upd] have inv': "rdb_inv R db'"
    and view: "rdb_view R db' = [toSlice ?blob 5 \<mapsto> c, toSlice ?blob 256 \<mapsto> d]"
    by (simp_all add: new chunks updateBatch_def fun_eq_iff)
  define es where "es = rdb_seek R db' (toSlice ?blob 0)"
  have ge: "toSlice ?blob 0 \<le> toSlice ?blob 5" "toSlice ?blob 0 \<le> toSlice ?blob 256"
    and lt: "toSlice ?blob 256 < toSlice ?blob 5"
    by (simp_all add: not_less [symmetric] toSlice_less_same) (simp_all add: le_bytes_list)
  have set_es: "set es = {(toSlice ?blob 5, c), (toSlice ?blob 256, d)}"
    using rocksdb_seek(2) [OF ok inv', of _ _ "toSlice ?blob 0"] ge
    by (auto simp: es_def view split: if_splits)
  have sorted_es: "sorted_wrt (<) (map fst es)"
    using rocksdb_seek(1) [OF ok inv'] by (simp add: es_def)
  then have "hd es = (toSlice ?blob 256, d)"
    using set_es lt by (intro hd_smap_eqI) (auto simp: smap_ok_def)
  with set_es obtain es' where "es = (toSlice ?blob 256, d) # es'"
    by (cases es) auto
  then have "getBlobLoop req es [] = []" by (simp add: req)
  then show ?thesis
    by (simp add: getBlobMeta_def req es_def [symmetric] blob_view_def view)
qed

theorem getBlobMeta_misses_stored_chunk_witness:
  "blob_view mem_db sample_db 3 5 = Some [1] \<and>
   gbr_chunkList (getBlobMeta mem_db
     \<lparr>gb_resourceId = 0, gb_blobId = 3, gb_startOffset = 0, gb_endOffset = 10\<rparr> sample_db) = []"
  using getBlobMeta_misses_stored_chunk
    [OF mem_db_ok mem_db_inv_Nil _ _ sample_applyUpdate, of "[1]" "[2]"
      "\<lparr>gb_resourceId = 0, gb_blobId = 3, gb_startOffset = 0, gb_endOffset = 10\<rparr>"]
  by (simp add: mem_db_def sample_update_def)

definition small_db :: "(bytes, bytes) smap" where
  "small_db = [(toSlice 3 2, [7]), (toSlice 3 4, [8]), (toSlice 3 9, [9])]"

theorem getBlobMeta_small_blob_witness:
  "\<lparr>bp_offset = 4, bp_chunkId = [8]\<rparr> \<in> set (gbr_chunkList (getBlobMeta mem_db
     \<lparr>gb_resourceId = 0, gb_blobId = 3, gb_startOffset = 3, gb_endOffset = 8\<rparr> small_db))"
proof -
  let ?req = "\<lparr>gb_resourceId = 0, gb_blobId = 3, gb_startOffset = 3, gb_endOffset = 8\<rparr>"
  have keys: "db_keys_ok mem_db small_db"
    by (auto simp: db_keys_ok_def mem_db_def small_db_def smap_ok_def toSlice_less_same
        le_bytes_list split: if_splits)
  have small: "\<forall>off \<in> dom (blob_view mem_db small_db (gb_blobId ?req)). unat off < 256"
    by (auto simp: blob_view_def mem_db_def small_db_def split: if_splits)
  have start: "unat (gb_startOffset ?req) < 256" by simp
  show ?thesis
    using getBlobMeta_small_blob [OF mem_db_ok keys small start]
    by (simp add: blob_view_def mem_db_def small_db_def)
qed

end
