(* ===== verification/PB_Member.thy ===== *)
theory PB_Member
  imports Config_Tree
begin

section \<open>A member of a primary/backup group: \<open>src/infra/PBMember.h\<close>, \<open>src/infra/PBMember.cpp\<close>\<close>

text \<open>
  \<open>PBMember\<close> is the replication state machine every replica derives from: it elects a leader
  through a lock node in the coordination service, and the leader tracks its peers. All of its
  methods run on one event base, so each is a state transformer. A call that goes out to the
  coordination service or to another member returns a future; the model returns the call as a
  value of \<open>pb_effect\<close>, and the code that runs when the future completes is a definition of its
  own (\<open>electorLockDone\<close> and the like), which receives the result as \<open>Inr\<close> a value or \<open>Inl\<close> an
  exception. \<open>handleError_\<close> is a failed \<open>CHECK\<close>: every chain that ends in it ends the process.
  The record is extensible, as the class is derived from.
\<close>

subsection \<open>Data\<close>

record PeerInfo =
  p_id :: string
  p_state :: PBMemberState
  p_version :: int

record LeaderCtx =
  lc_opId :: int
  lc_commitId :: int
  lc_peers :: "PeerInfo list"

record PBMember =
  resourceId :: int
  groupKey :: string
  memberIds :: "string list"
  myId :: string
  leaderId :: string
  quorum :: "32 word"
  mstate :: PBMemberState
  mversion :: int
  termId :: int
  lastElection :: int          \<comment> \<open>\<open>lastElectionTimepoint_\<close>, nanoseconds of the steady clock\<close>
  mopId :: int
  commitId :: int
  leaderCtx :: "LeaderCtx option"

definition PB_LOCK_KEY :: string where "PB_LOCK_KEY = ''LOCK''"
definition PB_LOCKTYPE_ELECTOR :: string where "PB_LOCKTYPE_ELECTOR = ''elector''"
definition PB_LOCKTYPE_LEADER :: string where "PB_LOCKTYPE_LEADER = ''leader''"
definition GROUPWATCH_INTERVAL_MS :: int where "GROUPWATCH_INTERVAL_MS = 10000"

definition LeaderCtx_new :: LeaderCtx where
  "LeaderCtx_new = \<lparr>lc_opId = INVALID_VALUE, lc_commitId = INVALID_VALUE, lc_peers = []\<rparr>"

text \<open>
  The constructor leaves \<open>version_\<close> and \<open>opId_\<close> indeterminate: their first values are
  arguments here.
\<close>

definition PBMember_new ::
  "int \<Rightarrow> string \<Rightarrow> string list \<Rightarrow> string \<Rightarrow> 32 word \<Rightarrow> int \<Rightarrow> int \<Rightarrow> PBMember" where
  "PBMember_new resource key members me q anyVersion anyOpId =
     \<lparr>resourceId = resource, groupKey = key, memberIds = members, myId = me, leaderId = [],
      quorum = q, mstate = UNINITIALIZED, mversion = anyVersion, termId = INVALID_VALUE,
      lastElection = 0, mopId = anyOpId, commitId = INVALID_VALUE, leaderCtx = None\<rparr>"

subsection \<open>Calls that leave the member\<close>

datatype coord_call =
    GetChildren string bool             \<comment> \<open>key, watch set?\<close>
  | CreateEphemeral string string bool  \<comment> \<open>key, value, sequential?\<close>
  | SetKey string string int            \<comment> \<open>key, value, version\<close>
  | DelKey string int                   \<comment> \<open>key, version\<close>

datatype pb_cont =
    KNone                                          \<comment> \<open>the future is dropped\<close>
  | KMemberRoot                                    \<comment> \<open>\<open>init\<close>: member node created\<close>
  | KWatch                                         \<comment> \<open>\<open>watchCb_\<close>: children fetched\<close>
  | KElectorLock                                   \<comment> \<open>elector lock created\<close>
  | KElectorTerm                                   \<comment> \<open>term increased\<close>
  | KElectorChildren                               \<comment> \<open>children fetched with the lock held\<close>
  | KRemoveLock "GetMemberStateRespMsg list"       \<comment> \<open>elector lock removed\<close>
  | KLeaderLock "GetMemberStateRespMsg list"       \<comment> \<open>leader lock created\<close>

datatype pb_effect =
    Coord coord_call pb_cont
  | ElectionRequest "string list" GetMemberStateMsg   \<comment> \<open>one message per member, \<open>collectAll\<close>\<close>
  | BecomeLeaderTo string BecomeLeaderMsg
  | AfterDelay int string                             \<comment> \<open>\<open>runAfterDelay\<close> of \<open>watchCb_(key)\<close>\<close>
  | RunSync                                           \<comment> \<open>the virtual \<open>runSyncProtocol\<close>\<close>

type_synonym 'm pb_result = "('m \<times> pb_effect list) outcome"

subsection \<open>Small helpers of the class\<close>

definition isFollowerState :: "'a PBMember_scheme \<Rightarrow> bool" where
  "isFollowerState m \<longleftrightarrow> mstate m > FOLLOWER_BEGIN \<and> mstate m < FOLLOWER_END"

definition isElectorState :: "'a PBMember_scheme \<Rightarrow> bool" where
  "isElectorState m \<longleftrightarrow> mstate m > EC_BEGIN \<and> mstate m < EC_END"

definition isLeaderState :: "'a PBMember_scheme \<Rightarrow> bool" where
  "isLeaderState m \<longleftrightarrow> mstate m > LEADER_BEGIN \<and> mstate m < LEADER_END"

definition switchState :: "PBMemberState \<Rightarrow> 'a PBMember_scheme \<Rightarrow> 'a PBMember_scheme" where
  "switchState newState m = m\<lparr>mstate := newState\<rparr>"

definition handleError :: "'b outcome" where
  "handleError = Abort"

definition throwIfInvalidTerm :: "int \<Rightarrow> 'a PBMember_scheme \<Rightarrow> unit outcome" where
  "throwIfInvalidTerm term m =
     (if term < termId m then Throw (StatusException STATUS_INVALID_TERM) else Ok ())"

definition throwIfNotLeader :: "'a PBMember_scheme \<Rightarrow> unit outcome" where
  "throwIfNotLeader m =
     (if \<not> isLeaderState m \<or> leaderCtx m = None then Throw (StatusException STATUS_NOT_LEADER)
      else Ok ())"

definition lockKey :: "'a PBMember_scheme \<Rightarrow> string" where
  "lockKey m = groupKey m @ ''/'' @ PB_LOCK_KEY"

definition acquireLock :: "string \<Rightarrow> pb_cont \<Rightarrow> 'a PBMember_scheme \<Rightarrow> pb_effect" where
  "acquireLock lockType k m = Coord (CreateEphemeral (lockKey m) lockType False) k"

definition removeLock :: "pb_cont \<Rightarrow> 'a PBMember_scheme \<Rightarrow> pb_effect" where
  "removeLock k m = Coord (DelKey (lockKey m) (- 1)) k"

definition increaseTerm :: "pb_cont \<Rightarrow> 'a PBMember_scheme \<Rightarrow> pb_effect" where
  "increaseTerm k m = Coord (SetKey (groupKey m) [] (- 1)) k"

definition scheduleGroupWatchEvent :: "'a PBMember_scheme \<Rightarrow> pb_effect" where
  "scheduleGroupWatchEvent m = AfterDelay GROUPWATCH_INTERVAL_MS (groupKey m)"

text \<open>\<open>watchCb_\<close>: set the watch again and fetch the children.\<close>

definition watchCb :: "'a PBMember_scheme \<Rightarrow> pb_effect list" where
  "watchCb m = [Coord (GetChildren (groupKey m) True) KWatch]"

definition PBMember_init :: "'a PBMember_scheme \<Rightarrow> 'a PBMember_scheme \<times> pb_effect list" where
  "PBMember_init m =
     (switchState FOLLOWER_WAIT_TO_JOIN_GROUP m,
      [Coord (GetChildren (groupKey m) True) KNone,
       Coord (CreateEphemeral (groupKey m @ ''/'' @ myId m @ '':'') (myId m) True) KMemberRoot])"

subsection \<open>Reading the group's children\<close>

definition hasLock :: "string list \<Rightarrow> bool" where
  "hasLock children \<longleftrightarrow> List.member children PB_LOCK_KEY"

text \<open>A child named \<open>a:b\<close> is stored under the number \<open>b\<close>; \<open>folly::to\<close> throws on other text.\<close>

fun parseLoop ::
  "folly_ops \<Rightarrow> string list \<Rightarrow> (nat, string) smap \<Rightarrow> (nat, string) smap outcome" where
  "parseLoop f [] ret = Ok ret"
| "parseLoop f (c # cs) ret =
     (case split_colon f c of
        [v0, v1] \<Rightarrow>
          (case to_uint64 f v1 of
             None \<Rightarrow> Throw OtherException
           | Some n \<Rightarrow> parseLoop f cs (smap_put n v0 ret))
      | _ \<Rightarrow> parseLoop f cs ret)"

definition parseMembers :: "folly_ops \<Rightarrow> string list \<Rightarrow> (nat, string) smap outcome" where
  "parseMembers f children = parseLoop f children []"

definition canIBeElector ::
  "folly_ops \<Rightarrow> int \<Rightarrow> string list \<Rightarrow> 'a PBMember_scheme \<Rightarrow> bool outcome" where
  "canIBeElector f now children m =
     (if now - lastElection m < GROUPWATCH_INTERVAL_MS * 1000000 then Ok False
      else obind (parseMembers f children)
             (\<lambda>members. Ok (length members > 0 \<and> snd (hd members) = myId m)))"

definition hasQuorumMemberCount ::
  "folly_ops \<Rightarrow> string list \<Rightarrow> 'a PBMember_scheme \<Rightarrow> bool outcome" where
  "hasQuorumMemberCount f children m =
     obind (parseMembers f children) (\<lambda>members. Ok (length members \<ge> unat (quorum m)))"

subsection \<open>Becoming elector and asking for votes\<close>

definition issueElectionRequest :: "'a PBMember_scheme \<Rightarrow> pb_effect" where
  "issueElectionRequest m =
     ElectionRequest (memberIds m)
       \<lparr>gm_groupType = PB_VOLUMES_TYPE, gm_resourceId = resourceId m, gm_termId = termId m\<rparr>"

definition startElectionIfQuorum ::
  "folly_ops \<Rightarrow> string list \<Rightarrow> 'a PBMember_scheme \<Rightarrow> 'a PBMember_scheme pb_result" where
  "startElectionIfQuorum f children m =
     obind (hasQuorumMemberCount f children m)
       (\<lambda>q. if q then (let m1 = switchState EC_ELECTION_IN_PROGRESS m
                       in Ok (m1, [issueElectionRequest m1]))
            else Ok (m, []))"

definition handleGroupWatchEvent ::
  "folly_ops \<Rightarrow> int \<Rightarrow> string list \<Rightarrow> 'a PBMember_scheme \<Rightarrow> 'a PBMember_scheme pb_result" where
  "handleGroupWatchEvent f now children m =
     (case mstate m of
        FOLLOWER_WAIT_TO_JOIN_GROUP \<Rightarrow>
          if hasLock children then Ok (m, [])
          else obind (canIBeElector f now children m)
                 (\<lambda>can. if can
                    then (let m1 = switchState EC_ACQUIRE_LOCK m
                          in Ok (m1, [acquireLock PB_LOCKTYPE_ELECTOR KElectorLock m1]))
                    else Ok (m, []))
      | EC_WAITING_FOR_QUORUM \<Rightarrow> startElectionIfQuorum f children m
      | _ \<Rightarrow> Ok (m, []))"

text \<open>
  The steps of the future chain; an exception anywhere in it, also one thrown by a step,
  reaches \<open>handleError_\<close>.
\<close>

definition orHandleError :: "'b outcome \<Rightarrow> 'b outcome" where
  "orHandleError r = (case r of Throw e \<Rightarrow> handleError | _ \<Rightarrow> r)"

definition watchDone ::
  "folly_ops \<Rightarrow> int \<Rightarrow> exn + string list \<Rightarrow> 'a PBMember_scheme \<Rightarrow> 'a PBMember_scheme pb_result" where
  "watchDone f now r m =
     (case r of Inl e \<Rightarrow> handleError
      | Inr children \<Rightarrow> orHandleError (handleGroupWatchEvent f now children m))"

definition memberRootDone ::
  "exn + string \<Rightarrow> 'a PBMember_scheme \<Rightarrow> 'a PBMember_scheme pb_result" where
  "memberRootDone r m = (case r of Inl e \<Rightarrow> handleError | Inr res \<Rightarrow> Ok (m, []))"

definition electorLockDone ::
  "exn + string \<Rightarrow> 'a PBMember_scheme \<Rightarrow> 'a PBMember_scheme pb_result" where
  "electorLockDone r m =
     (case r of Inl e \<Rightarrow> handleError | Inr res \<Rightarrow> Ok (m, [increaseTerm KElectorTerm m]))"

definition electorTermDone ::
  "exn + int \<Rightarrow> 'a PBMember_scheme \<Rightarrow> 'a PBMember_scheme pb_result" where
  "electorTermDone r m =
     (case r of Inl e \<Rightarrow> handleError
      | Inr term \<Rightarrow>
          let m1 = m\<lparr>termId := narrow32 term\<rparr>
          in Ok (m1, [Coord (GetChildren (groupKey m1) False) KElectorChildren]))"

definition electorChildrenDone ::
  "folly_ops \<Rightarrow> exn + string list \<Rightarrow> 'a PBMember_scheme \<Rightarrow> 'a PBMember_scheme pb_result" where
  "electorChildrenDone f r m =
     (case r of Inl e \<Rightarrow> handleError
      | Inr children \<Rightarrow>
          orHandleError (startElectionIfQuorum f children (switchState EC_WAITING_FOR_QUORUM m)))"

definition handleGetMemberStateMsg ::
  "GetMemberStateMsg \<Rightarrow> 'a PBMember_scheme \<Rightarrow> GetMemberStateRespMsg outcome" where
  "handleGetMemberStateMsg req m =
     obind (throwIfInvalidTerm (gm_termId req) m)
       (\<lambda>_. Ok \<lparr>gr_id = myId m, gr_commitId = commitId m, gr_version = 0, gr_state = mstate m\<rparr>)"

subsection \<open>What the children say\<close>

text \<open>
  The entry a child contributes, and the parse of a whole list whose member nodes all carry a
  number.
\<close>

definition childEntry :: "folly_ops \<Rightarrow> string \<Rightarrow> (nat \<times> string) option" where
  "childEntry f c =
     (case split_colon f c of
        [v0, v1] \<Rightarrow> map_option (\<lambda>n. (n, v0)) (to_uint64 f v1)
      | _ \<Rightarrow> None)"

definition childParses :: "folly_ops \<Rightarrow> string \<Rightarrow> bool" where
  "childParses f c \<longleftrightarrow> (case split_colon f c of [v0, v1] \<Rightarrow> to_uint64 f v1 \<noteq> None | _ \<Rightarrow> True)"

lemma parseLoop_eq:
  "\<forall>c \<in> set cs. childParses f c \<Longrightarrow>
     parseLoop f cs ret = Ok (fold (\<lambda>(k, v). smap_put k v) (List.map_filter (childEntry f) cs) ret)"
  by (induction f cs ret rule: parseLoop.induct)
    (auto simp: childEntry_def childParses_def map_filter_simps split: list.splits option.splits)

text \<open>The name of the sequential node of member \<open>i\<close> with sequence suffix \<open>seq n\<close>.\<close>

definition memberNode :: "(nat \<Rightarrow> string) \<Rightarrow> string \<times> nat \<Rightarrow> string" where
  "memberNode seq p = fst p @ '':'' @ seq (snd p)"

text \<open>
  The children of a group: nodes of the members \<open>ms\<close>, each with its own sequence number, and
  other nodes, such as the lock, whose names have no colon.
\<close>

definition group_children ::
  "folly_ops \<Rightarrow> (nat \<Rightarrow> string) \<Rightarrow> (string \<times> nat) set \<Rightarrow> string list \<Rightarrow> bool" where
  "group_children f seq ms children \<longleftrightarrow>
     (\<forall>p \<in> ms. CHR '':'' \<notin> set (fst p) \<and> CHR '':'' \<notin> set (seq (snd p)) \<and>
        to_uint64 f (seq (snd p)) = Some (snd p)) \<and>
     inj_on snd ms \<and>
     memberNode seq ` ms \<subseteq> set children \<and>
     (\<forall>c \<in> set children. CHR '':'' \<in> set c \<longrightarrow> c \<in> memberNode seq ` ms)"

lemma childEntry_memberNode:
  "folly_ok f \<Longrightarrow> group_children f seq ms cs \<Longrightarrow> p \<in> ms \<Longrightarrow>
     childEntry f (memberNode seq p) = Some (snd p, fst p)"
  by (simp add: childEntry_def memberNode_def folly_ok_def group_children_def)

lemma childEntry_plain: "folly_ok f \<Longrightarrow> CHR '':'' \<notin> set c \<Longrightarrow> childEntry f c = None"
  by (simp add: childEntry_def folly_ok_def)

lemma childParses_group:
  assumes "folly_ok f" and "group_children f seq ms cs" and "c \<in> set cs"
  shows "childParses f c"
proof (cases "CHR '':'' \<in> set c")
  case True
  with assms(2,3) obtain p where "p \<in> ms" "c = memberNode seq p"
    by (auto simp: group_children_def)
  with assms show ?thesis
    by (simp add: childParses_def memberNode_def folly_ok_def group_children_def)
next
  case False
  with assms show ?thesis by (simp add: childParses_def folly_ok_def)
qed

lemma set_map_filter_eq: "set (List.map_filter f xs) = {y. \<exists>x \<in> set xs. f x = Some y}"
  by (induction xs) (auto simp: map_filter_simps split: option.splits)

lemma set_childEntries:
  assumes "folly_ok f" and "group_children f seq ms cs"
  shows "set (List.map_filter (childEntry f) cs) = (\<lambda>(i, n). (n, i)) ` ms"
proof -
  have "childEntry f c = Some e \<longleftrightarrow> (\<exists>p \<in> ms. c = memberNode seq p \<and> e = (snd p, fst p))"
    if "c \<in> set cs" for c e
  proof (cases "CHR '':'' \<in> set c")
    case True
    with assms(2) that obtain p where p: "p \<in> ms" "c = memberNode seq p"
      by (auto simp: group_children_def)
    then show ?thesis
      using childEntry_memberNode [OF assms] by (metis option.inject)
  next
    case False
    then show ?thesis
      by (auto simp: childEntry_plain [OF assms(1)] memberNode_def)
  qed
  note entry = this
  show ?thesis
  proof
    show "set (List.map_filter (childEntry f) cs) \<subseteq> (\<lambda>(i, n). (n, i)) ` ms"
      by (auto simp: set_map_filter_eq entry intro!: image_eqI)
    show "(\<lambda>(i, n). (n, i)) ` ms \<subseteq> set (List.map_filter (childEntry f) cs)"
      using assms(2) childEntry_memberNode [OF assms]
      by (force simp: set_map_filter_eq group_children_def)
  qed
qed

lemma parseMembers_group:
  assumes "folly_ok f" and "group_children f seq ms cs"
  obtains mp where "parseMembers f cs = Ok mp" and "smap_ok mp"
    and "\<And>n i. map_of mp n = Some i \<longleftrightarrow> (i, n) \<in> ms"
proof
  let ?es = "List.map_filter (childEntry f) cs"
  let ?mp = "fold (\<lambda>(k, v). smap_put k v) ?es []"
  show "parseMembers f cs = Ok ?mp"
    unfolding parseMembers_def by (rule parseLoop_eq) (blast intro: childParses_group [OF assms])
  show "smap_ok ?mp" by (rule smapT.ok_fold) simp
  have inj: "i = i'" if "(i, n) \<in> ms" "(i', n) \<in> ms" for i i' n
    using assms(2) that by (metis group_children_def inj_onD prod.inject snd_conv)
  have "map_of ?mp n = Some i \<longleftrightarrow> (n, i) \<in> set (rev ?es)" for n i
    unfolding smapT.look_fold_empty
    by (rule map_of_functional) (auto simp: set_childEntries [OF assms] dest: inj)
  then show "map_of ?mp n = Some i \<longleftrightarrow> (i, n) \<in> ms" for n i
    by (auto simp: set_childEntries [OF assms])
qed

lemma smap_set_iff: "smap_ok mp \<Longrightarrow> (k, v) \<in> set mp \<longleftrightarrow> map_of mp k = Some v"
  by (simp add: map_of_eq_Some_iff smap_ok_distinct)

lemma card_group:
  assumes "smap_ok mp" and "\<And>n i. map_of mp n = Some i \<longleftrightarrow> (i, n) \<in> ms"
  shows "length mp = card ms"
proof -
  have "set mp = (\<lambda>(i, n). (n, i)) ` ms"
    using smap_set_iff [OF assms(1)] assms(2) by force
  moreover have "distinct mp"
    using smap_ok_distinct [OF assms(1)] by (simp add: distinct_map)
  moreover have "inj_on (\<lambda>(i, n). (n, i)) ms" by (auto simp: inj_on_def)
  ultimately show ?thesis by (metis distinct_card card_image)
qed

lemma smap_hd_iff_least:
  assumes "smap_ok mp"
  shows "(0 < length mp \<and> snd (hd mp) = i) \<longleftrightarrow>
    (\<exists>n. map_of mp n = Some i \<and> (\<forall>n' i'. map_of mp n' = Some i' \<longrightarrow> n \<le> n'))"
proof
  assume L: "0 < length mp \<and> snd (hd mp) = i"
  then have "(fst (hd mp), i) \<in> set mp" by (cases mp) auto
  moreover have "fst (hd mp) \<le> n'" if "map_of mp n' = Some i'" for n' i'
    using smap_hd_least [OF assms] L that by (force simp: smap_set_iff [OF assms, symmetric])
  ultimately show "\<exists>n. map_of mp n = Some i \<and> (\<forall>n' i'. map_of mp n' = Some i' \<longrightarrow> n \<le> n')"
    using smap_set_iff [OF assms] by blast
next
  assume "\<exists>n. map_of mp n = Some i \<and> (\<forall>n' i'. map_of mp n' = Some i' \<longrightarrow> n \<le> n')"
  then obtain n where n: "(n, i) \<in> set mp" "\<And>n'. n' \<in> fst ` set mp \<Longrightarrow> n \<le> n'"
    using smap_set_iff [OF assms] by force
  from hd_smap_eqI [OF assms this] n(1) show "0 < length mp \<and> snd (hd mp) = i" by auto
qed

text \<open>
  C16. A member may become the elector exactly when ten seconds have passed since its last
  election and, of all the members' sequential nodes under the group, its own has the least
  sequence number (so at most one member qualifies at a time); and the quorum test counts
  exactly the member nodes, whatever order the children come in and whatever other nodes, such
  as the lock, are among them.
\<close>

theorem elector_is_least_sequence:
  assumes "folly_ok f" and "group_children f seq ms cs"
  shows "canIBeElector f now cs m =
      Ok (now - lastElection m \<ge> 10000000000 \<and>
          (\<exists>n. (myId m, n) \<in> ms \<and> (\<forall>p \<in> ms. n \<le> snd p))) \<and>
    hasQuorumMemberCount f cs m = Ok (unat (quorum m) \<le> card ms)"
proof -
  obtain mp where mp: "parseMembers f cs = Ok mp" "smap_ok mp"
    "\<And>n i. map_of mp n = Some i \<longleftrightarrow> (i, n) \<in> ms"
    using parseMembers_group [OF assms] by blast
  have "(\<forall>n' i'. (i', n') \<in> ms \<longrightarrow> n \<le> n') \<longleftrightarrow> (\<forall>p \<in> ms. n \<le> snd p)" for n
    by force
  with smap_hd_iff_least [OF mp(2), of "myId m"]
  have "(0 < length mp \<and> snd (hd mp) = myId m) \<longleftrightarrow>
      (\<exists>n. (myId m, n) \<in> ms \<and> (\<forall>p \<in> ms. n \<le> snd p))"
    unfolding mp(3) by simp
  moreover have "hasQuorumMemberCount f cs m = Ok (unat (quorum m) \<le> card ms)"
    by (simp add: hasQuorumMemberCount_def mp(1) card_group [OF mp(2,3)])
  ultimately show ?thesis
    by (auto simp: canIBeElector_def mp(1) GROUPWATCH_INTERVAL_MS_def)
qed

theorem elector_is_least_sequence_witness:
  "canIBeElector folly_dec 20000000000 [''b:9'', ''LOCK'', ''a:4'']
      (PBMember_new 1 ''/r/1'' [''a'', ''b''] ''a'' 2 0 0) = Ok True \<and>
   hasQuorumMemberCount folly_dec [''b:9'', ''LOCK'', ''a:4'']
      (PBMember_new 1 ''/r/1'' [''a'', ''b''] ''a'' 2 0 0) = Ok True"
proof -
  have "group_children folly_dec dec_of_nat {(''a'', 4), (''b'', 9)} [''b:9'', ''LOCK'', ''a:4'']"
    by (auto simp: group_children_def memberNode_def folly_dec_def dec_of_nat.simps nat_of_dec_def
        is_digit_def digit_char_def dec_value_def)
  from elector_is_least_sequence [OF folly_dec_ok this, of 20000000000
      "PBMember_new 1 ''/r/1'' [''a'', ''b''] ''a'' 2 0 0"]
  show ?thesis by (auto simp: PBMember_new_def)
qed

end
