(* ===== verification/PB_Election.thy ===== *)
theory PB_Election
  imports PB_Member
begin

section \<open>Electing a leader: \<open>src/infra/PBMember.cpp\<close>\<close>

text \<open>
  The elector asks every member for its state (\<open>issueElectionRequest_\<close>), files the answers in a
  \<open>std::map\<close> by commit id (\<open>collectResponses\<close>), decides (\<open>handleElectionResponse\<close>), gives up
  the lock and tells the elected member (\<open>removeLockDone\<close>, \<open>sendBecomeLeaderMsg\<close>). That member
  takes the lock (\<open>handleBecomeLeaderMsg\<close>) and builds its leader context (\<open>leaderLockDone\<close>).
  Answers are a list of \<open>Inl\<close> an exception or \<open>Inr\<close> a response, one per member in the order of
  \<open>memberIds_\<close>, as \<open>folly::collectAll\<close> gives them. \<open>DCHECK\<close>s are not part of a release build
  and have no counterpart here.
\<close>

subsection \<open>The elector's side\<close>

definition push_response ::
  "GetMemberStateRespMsg \<Rightarrow> (int, GetMemberStateRespMsg list) smap \<Rightarrow>
    (int, GetMemberStateRespMsg list) smap" where
  "push_response r vals =
     smap_put (gr_commitId r)
       ((case map_of vals (gr_commitId r) of None \<Rightarrow> [] | Some rs \<Rightarrow> rs) @ [r]) vals"

fun collectResponses ::
  "(exn + GetMemberStateRespMsg) list \<Rightarrow> (int, GetMemberStateRespMsg list) smap \<Rightarrow>
    (int, GetMemberStateRespMsg list) smap" where
  "collectResponses [] vals = vals"
| "collectResponses (Inl e # tries) vals = collectResponses tries vals"
| "collectResponses (Inr r # tries) vals = collectResponses tries (push_response r vals)"

definition handleElectionResponse ::
  "int \<Rightarrow> (int, GetMemberStateRespMsg list) smap \<Rightarrow> 'a PBMember_scheme \<Rightarrow>
    'a PBMember_scheme \<times> pb_effect list" where
  "handleElectionResponse now vals m =
     (if length vals > 0 \<and> length (snd (hd vals)) \<ge> unat (quorum m)
      then (m\<lparr>lastElection := now\<rparr>, [removeLock (KRemoveLock (snd (hd vals))) m])
      else (switchState EC_WAITING_FOR_QUORUM m, []))"

definition electionDone ::
  "int \<Rightarrow> (exn + GetMemberStateRespMsg) list \<Rightarrow> 'a PBMember_scheme \<Rightarrow>
    'a PBMember_scheme \<times> pb_effect list" where
  "electionDone now tries m = handleElectionResponse now (collectResponses tries []) m"

text \<open>\<open>functionalMembers[0]\<close> of an empty vector is undefined behaviour.\<close>

definition sendBecomeLeaderMsg ::
  "GetMemberStateRespMsg list \<Rightarrow> 'a PBMember_scheme \<Rightarrow> pb_effect list outcome" where
  "sendBecomeLeaderMsg fms m =
     (case fms of
        [] \<Rightarrow> Abort
      | r # _ \<Rightarrow>
          Ok [BecomeLeaderTo (gr_id r)
                \<lparr>bl_resourceId = resourceId m, bl_termId = termId m, bl_functionalMembers = fms\<rparr>,
              scheduleGroupWatchEvent m])"

definition removeLockDone ::
  "GetMemberStateRespMsg list \<Rightarrow> exn + unit \<Rightarrow> 'a PBMember_scheme \<Rightarrow>
    'a PBMember_scheme pb_result" where
  "removeLockDone fms r m =
     (case r of Inl e \<Rightarrow> handleError
      | Inr _ \<Rightarrow>
          let m1 = switchState FOLLOWER_WAIT_TO_JOIN_GROUP m;
              fms1 = map (\<lambda>x. x\<lparr>gr_state := FOLLOWER_FUNCTIONAL\<rparr>) fms
          in obind (sendBecomeLeaderMsg fms1 m1) (\<lambda>effs. Ok (m1, effs)))"

subsection \<open>The new leader's side\<close>

definition handleBecomeLeaderMsg ::
  "BecomeLeaderMsg \<Rightarrow> 'a PBMember_scheme \<Rightarrow> 'a PBMember_scheme pb_result" where
  "handleBecomeLeaderMsg req m =
     obind (throwIfInvalidTerm (bl_termId req) m)
       (\<lambda>_. Ok (m, [acquireLock PB_LOCKTYPE_LEADER (KLeaderLock (bl_functionalMembers req)) m]))"

definition newPeer :: "GetMemberStateRespMsg list \<Rightarrow> string \<Rightarrow> PeerInfo" where
  "newPeer fms member =
     (case find (\<lambda>r. member = gr_id r) fms of
        Some r \<Rightarrow> \<lparr>p_id = member, p_state = gr_state r, p_version = gr_version r\<rparr>
      | None \<Rightarrow> \<lparr>p_id = member, p_state = FOLLOWER_WAIT_TO_JOIN_GROUP,
                 p_version = INVALID_VERSION\<rparr>)"

fun buildPeers ::
  "string \<Rightarrow> GetMemberStateRespMsg list \<Rightarrow> string list \<Rightarrow> PeerInfo list \<Rightarrow> PeerInfo list" where
  "buildPeers me fms [] peers = peers"
| "buildPeers me fms (member # members) peers =
     (if member = me then buildPeers me fms members peers
      else buildPeers me fms members (peers @ [newPeer fms member]))"

definition leaderLockDone ::
  "GetMemberStateRespMsg list \<Rightarrow> exn + string \<Rightarrow> 'a PBMember_scheme \<Rightarrow>
    'a PBMember_scheme pb_result" where
  "leaderLockDone fms r m =
     (case r of Inl e \<Rightarrow> handleError
      | Inr _ \<Rightarrow>
          let peers = buildPeers (myId m) fms (memberIds m) [];
              m1 = m\<lparr>leaderCtx := Some (LeaderCtx_new\<lparr>lc_peers := peers\<rparr>), leaderId := myId m\<rparr>
          in Ok (switchState (if length fms \<ge> unat (quorum m1) then LEADER_FUNCTIONAL
                              else LEADER_WAITING_FOR_QUORUM) m1, []))"

subsection \<open>What the elector decides\<close>

definition answers :: "(exn + GetMemberStateRespMsg) list \<Rightarrow> GetMemberStateRespMsg list" where
  "answers tries = List.map_filter (case_sum (\<lambda>_. None) Some) tries"

lemma answers_simps [simp]:
  "answers [] = []" "answers (Inl e # ts) = answers ts" "answers (Inr r # ts) = r # answers ts"
  by (simp_all add: answers_def map_filter_simps)

text \<open>The responses filed under a commit id, in the order they were given.\<close>

definition with_commit :: "int \<Rightarrow> GetMemberStateRespMsg list \<Rightarrow> GetMemberStateRespMsg list" where
  "with_commit c rs = filter (\<lambda>r. gr_commitId r = c) rs"

definition filed_ok ::
  "GetMemberStateRespMsg list \<Rightarrow> (int, GetMemberStateRespMsg list) smap \<Rightarrow> bool" where
  "filed_ok rs vals \<longleftrightarrow> smap_ok vals \<and>
     (\<forall>c. map_of vals c = (if with_commit c rs = [] then None else Some (with_commit c rs)))"

lemma filed_push: "filed_ok rs vals \<Longrightarrow> filed_ok (rs @ [r]) (push_response r vals)"
  by (auto simp: filed_ok_def push_response_def smap_put_ok map_of_smap_put with_commit_def)

lemma filed_collect: "filed_ok rs vals \<Longrightarrow> filed_ok (rs @ answers ts) (collectResponses ts vals)"
proof (induction ts vals arbitrary: rs rule: collectResponses.induct)
  case (3 r ts vals)
  from 3(1) [OF filed_push [OF 3(2)]] show ?case by simp
qed simp_all

lemma filed_answers: "filed_ok (answers ts) (collectResponses ts [])"
  using filed_collect [of "[]" "[]" ts] by (simp add: filed_ok_def with_commit_def)

definition least_commit :: "GetMemberStateRespMsg list \<Rightarrow> int" where
  "least_commit rs = Min (set (map gr_commitId rs))"

text \<open>The group the elector looks at: the respondents with the least commit id.\<close>

lemma first_group:
  assumes "filed_ok rs vals"
  shows "vals = [] \<longleftrightarrow> rs = []"
    and "rs \<noteq> [] \<Longrightarrow> hd vals = (least_commit rs, with_commit (least_commit rs) rs)"
proof -
  have keys: "fst ` set vals = gr_commitId ` set rs"
  proof -
    have "c \<in> fst ` set vals \<longleftrightarrow> c \<in> gr_commitId ` set rs" for c
      using assms map_of_eq_None_iff [of vals c]
      by (auto simp: filed_ok_def with_commit_def filter_empty_conv split: if_splits)
    then show ?thesis by blast
  qed
  then show "vals = [] \<longleftrightarrow> rs = []" by auto
  assume ne: "rs \<noteq> []"
  have mem: "least_commit rs \<in> gr_commitId ` set rs"
    using ne Min_in [of "gr_commitId ` set rs"] by (simp add: least_commit_def)
  then have "map_of vals (least_commit rs) = Some (with_commit (least_commit rs) rs)"
    using assms by (auto simp: filed_ok_def with_commit_def filter_empty_conv)
  with assms keys show "hd vals = (least_commit rs, with_commit (least_commit rs) rs)"
    by (intro hd_smap_eqI) (auto simp: filed_ok_def map_of_SomeD least_commit_def)
qed

lemma electionDone_eq:
  "electionDone now ts m =
     (let rs = answers ts; g = with_commit (least_commit rs) rs
      in if rs \<noteq> [] \<and> unat (quorum m) \<le> length g
         then (m\<lparr>lastElection := now\<rparr>, [removeLock (KRemoveLock g) m])
         else (switchState EC_WAITING_FOR_QUORUM m, []))"
  using first_group [OF filed_answers, of ts]
  by (auto simp: electionDone_def handleElectionResponse_def Let_def)

lemma with_commit_least:
  assumes "rs \<noteq> []"
  shows "with_commit (least_commit rs) rs \<noteq> []"
    and "r \<in> set (with_commit (least_commit rs) rs) \<Longrightarrow> r' \<in> set rs \<Longrightarrow>
           gr_commitId r \<le> gr_commitId r'"
proof -
  have "least_commit rs \<in> gr_commitId ` set rs"
    using assms Min_in [of "gr_commitId ` set rs"] by (simp add: least_commit_def)
  then show "with_commit (least_commit rs) rs \<noteq> []"
    by (auto simp: with_commit_def filter_empty_conv)
  show "gr_commitId r \<le> gr_commitId r'"
    if "r \<in> set (with_commit (least_commit rs) rs)" "r' \<in> set rs"
    using that by (auto simp: with_commit_def least_commit_def)
qed

text \<open>
  The whole exchange of an election on the elector: the responses arrive, and if somebody is
  elected, the lock is removed and the result announced.
\<close>

definition election_round ::
  "int \<Rightarrow> (exn + GetMemberStateRespMsg) list \<Rightarrow> exn + unit \<Rightarrow> 'a PBMember_scheme \<Rightarrow>
    'a PBMember_scheme pb_result" where
  "election_round now ts removed m =
     (case electionDone now ts m of
        (m1, [Coord c (KRemoveLock fms)]) \<Rightarrow> removeLockDone fms removed m1
      | (m1, effs) \<Rightarrow> Ok (m1, effs))"

text \<open>
  C13. An election succeeds exactly when the respondents with the least commit id among all
  respondents are a quorum: then the first of them (in the order of the member list) is told to
  become the leader, with exactly these respondents as the functional members, all marked
  functional, the elector falls back to waiting and watches the group again after the interval.
  Otherwise nobody is told anything and the elector waits for quorum.
\<close>

theorem election_round_result:
  "election_round now ts (Inr ()) m =
     (let rs = answers ts; g = with_commit (least_commit rs) rs
      in if rs \<noteq> [] \<and> unat (quorum m) \<le> length g
         then Ok (m\<lparr>lastElection := now, mstate := FOLLOWER_WAIT_TO_JOIN_GROUP\<rparr>,
                  [BecomeLeaderTo (gr_id (hd g))
                     \<lparr>bl_resourceId = resourceId m, bl_termId = termId m,
                      bl_functionalMembers = map (\<lambda>x. x\<lparr>gr_state := FOLLOWER_FUNCTIONAL\<rparr>) g\<rparr>,
                   AfterDelay GROUPWATCH_INTERVAL_MS (groupKey m)])
         else Ok (m\<lparr>mstate := EC_WAITING_FOR_QUORUM\<rparr>, []))"
  using with_commit_least(1) [of "answers ts"]
  by (cases "with_commit (least_commit (answers ts)) (answers ts)")
    (auto simp: election_round_def electionDone_eq Let_def removeLock_def removeLockDone_def
      sendBecomeLeaderMsg_def switchState_def scheduleGroupWatchEvent_def)

text \<open>
  The elected leader is never ahead of any respondent: its commit id is the least of all
  the answers, although the code means to elect \<open>the entity with latest state\<close>. The members
  that hold later commits are not even functional members of the new leader.
\<close>

theorem elected_leader_is_most_stale:
  assumes "election_round now ts removed m = Ok (m', BecomeLeaderTo l msg # effs)"
    and "r \<in> set (answers ts)"
  shows "(\<exists>x \<in> set (answers ts). gr_id x = l \<and> gr_commitId x \<le> gr_commitId r) \<and>
    (\<forall>x \<in> set (bl_functionalMembers msg). gr_commitId x \<le> gr_commitId r)"
proof -
  let ?g = "with_commit (least_commit (answers ts)) (answers ts)"
  from assms(2) have ne: "answers ts \<noteq> []" by auto
  obtain u where "removed = Inr u"
    using assms(1) by (cases removed)
      (auto simp: election_round_def electionDone_eq Let_def removeLock_def removeLockDone_def
        handleError_def split: if_splits)
  then have "removed = Inr ()" by simp
  with assms(1) have "l = gr_id (hd ?g)"
    "bl_functionalMembers msg = map (\<lambda>x. x\<lparr>gr_state := FOLLOWER_FUNCTIONAL\<rparr>) ?g"
    by (auto simp: election_round_result Let_def split: if_splits)
  moreover have "hd ?g \<in> set ?g" "set ?g \<subseteq> set (answers ts)"
    using with_commit_least(1) [OF ne] by (simp, auto simp: with_commit_def)
  ultimately show ?thesis
    using with_commit_least(2) [OF ne _ assms(2)] by (auto intro!: bexI [of _ "hd ?g"])
qed

definition sample_resp :: "string \<Rightarrow> int \<Rightarrow> GetMemberStateRespMsg" where
  "sample_resp i c =
     \<lparr>gr_id = i, gr_commitId = c, gr_version = 0, gr_state = FOLLOWER_WAIT_TO_JOIN_GROUP\<rparr>"

lemma elected_leader_is_most_stale_witness:
  "\<exists>m' msg effs.
     election_round 0 [Inr (sample_resp ''a'' 7), Inr (sample_resp ''b'' 3), Inr (sample_resp ''c'' 3)]
       (Inr ()) (PBMember_new 1 ''/r/1'' [''a'', ''b'', ''c''] ''a'' 2 0 0) =
         Ok (m', BecomeLeaderTo ''b'' msg # effs) \<and>
     (\<forall>x \<in> set (bl_functionalMembers msg). gr_commitId x \<le> 3)"
proof -
  let ?ts = "[Inr (sample_resp ''a'' 7), Inr (sample_resp ''b'' 3), Inr (sample_resp ''c'' 3)]"
  let ?m = "PBMember_new 1 ''/r/1'' [''a'', ''b'', ''c''] ''a'' 2 0 0"
  obtain m' msg effs where
    r: "election_round 0 ?ts (Inr ()) ?m = Ok (m', BecomeLeaderTo ''b'' msg # effs)"
    by (simp add: election_round_def electionDone_def push_response_def sample_resp_def
        handleElectionResponse_def PBMember_new_def removeLock_def removeLockDone_def
        sendBecomeLeaderMsg_def Let_def)
  from elected_leader_is_most_stale [OF r, of "sample_resp ''b'' 3"] r
  show ?thesis by (auto simp: sample_resp_def)
qed

end
