(* ===== verification/PB_Leader.thy ===== *)
theory PB_Leader
  imports PB_Election
begin

section \<open>The leader's view of its peers: \<open>src/infra/PBMember.cpp\<close>\<close>

text \<open>
  The leader keeps one \<open>PeerInfo\<close> per other member. A peer moves between waiting, syncing and
  functional as members ask to be added (\<open>handleAddToGroupMsg\<close>) and as writes to them fail;
  every move goes through \<open>changePeerState\<close>, which also moves the leader itself between
  \<open>LEADER_FUNCTIONAL\<close> and \<open>LEADER_WAITING_FOR_QUORUM\<close>. The counters are 32-bit unsigned, as in
  the code. \<open>handleGroupInfoUpdateMsg\<close> is the follower's side.
\<close>

definition getPeerRef :: "string \<Rightarrow> PeerInfo list \<Rightarrow> PeerInfo option" where
  "getPeerRef i peers = find (\<lambda>p. p_id p = i) peers"

text \<open>A write through the pointer \<open>getPeerRef_\<close> returns reaches the first peer with the id.\<close>

fun setPeer :: "string \<Rightarrow> PBMemberState \<Rightarrow> int \<Rightarrow> PeerInfo list \<Rightarrow> PeerInfo list" where
  "setPeer i s v [] = []"
| "setPeer i s v (p # ps) =
     (if p_id p = i then p\<lparr>p_state := s, p_version := v\<rparr> # ps else p # setPeer i s v ps)"

definition isWritable :: "PeerInfo \<Rightarrow> bool" where
  "isWritable p \<longleftrightarrow> p_state p = FOLLOWER_FUNCTIONAL \<or> p_state p = FOLLOWER_SYNCING"

definition getWritablePeers :: "PeerInfo list \<Rightarrow> PeerInfo list" where
  "getWritablePeers peers = filter isWritable peers"

definition peerChanges :: "PBMemberState \<Rightarrow> int \<Rightarrow> int \<Rightarrow> PBMemberState \<Rightarrow> bool" where
  "peerChanges currentState currentVersion incomingVersion targetState =
     (if targetState = FOLLOWER_WAIT_TO_JOIN_GROUP
      then (currentState = FOLLOWER_SYNCING \<or> currentState = FOLLOWER_FUNCTIONAL) \<and>
           incomingVersion \<ge> currentVersion
      else if targetState = FOLLOWER_SYNCING
      then currentVersion = incomingVersion \<and> currentState = FOLLOWER_WAIT_TO_JOIN_GROUP \<or>
           incomingVersion > currentVersion
      else if targetState = FOLLOWER_FUNCTIONAL
      then currentVersion = incomingVersion \<and>
             (currentState = FOLLOWER_WAIT_TO_JOIN_GROUP \<or> currentState = FOLLOWER_SYNCING) \<or>
           incomingVersion > currentVersion
      else False)"

fun countFunctional :: "PeerInfo list \<Rightarrow> 32 word \<Rightarrow> 32 word" where
  "countFunctional [] n = n"
| "countFunctional (p # ps) n =
     countFunctional ps (if p_state p = FOLLOWER_FUNCTIONAL then n + 1 else n)"

definition adjustLeaderState :: "32 word \<Rightarrow> 'a PBMember_scheme \<Rightarrow> 'a PBMember_scheme" where
  "adjustLeaderState nFunctional m =
     (if mstate m = LEADER_FUNCTIONAL \<and> nFunctional < quorum m - 1
      then switchState LEADER_WAITING_FOR_QUORUM m
      else if mstate m = LEADER_WAITING_FOR_QUORUM \<and> nFunctional \<ge> quorum m - 1
      then switchState LEADER_FUNCTIONAL m
      else m)"

text \<open>Without a leader context, \<open>getPeerRef_\<close> dereferences a null pointer.\<close>

definition changePeerState ::
  "string \<Rightarrow> int \<Rightarrow> PBMemberState \<Rightarrow> 'a PBMember_scheme \<Rightarrow> 'a PBMember_scheme outcome" where
  "changePeerState i incomingVersion targetState m =
     (case leaderCtx m of
        None \<Rightarrow> Abort
      | Some lc \<Rightarrow>
          (case getPeerRef i (lc_peers lc) of
             None \<Rightarrow> Ok m
           | Some p \<Rightarrow>
               let peers = (if peerChanges (p_state p) (p_version p) incomingVersion targetState
                            then setPeer i targetState incomingVersion (lc_peers lc)
                            else lc_peers lc);
                   m1 = m\<lparr>leaderCtx := Some (lc\<lparr>lc_peers := peers\<rparr>)\<rparr>
               in Ok (adjustLeaderState (countFunctional peers 0) m1)))"

definition handleAddToGroupMsg ::
  "AddToGroupMsg \<Rightarrow> 'a PBMember_scheme \<Rightarrow> ('a PBMember_scheme \<times> AddToGroupRespMsg) outcome" where
  "handleAddToGroupMsg req m =
     obind (throwIfInvalidTerm (ag_termId req) m) (\<lambda>_.
     obind (throwIfNotLeader m) (\<lambda>_.
     obind (changePeerState (ag_memberId req) (ag_memberVersion req) (ag_memberState req) m) (\<lambda>m1.
     Ok (m1, \<lparr>ar_syncCommitId = commitId m1\<rparr>))))"

definition handleGroupInfoUpdateMsg ::
  "GroupInfoUpdateMsg \<Rightarrow> 'a PBMember_scheme \<Rightarrow> 'a PBMember_scheme pb_result" where
  "handleGroupInfoUpdateMsg req m =
     obind (throwIfInvalidTerm (gi_termId req) m) (\<lambda>_.
     if mstate m = FOLLOWER_SYNCING then Ok (m, [])
     else if isFollowerState m \<and>
             find (\<lambda>x. gr_id x = myId m) (gi_functionalMembers req) = None
     then (let m1 = switchState FOLLOWER_SYNCING (m\<lparr>leaderId := gi_leaderId req\<rparr>);
               m2 = (if termId m1 < gi_termId req then m1\<lparr>termId := gi_termId req\<rparr> else m1)
           in Ok (m2, [RunSync]))
     else Ok (m, []))"

subsection \<open>Lists of peers\<close>

lemma setPeer_ids [simp]: "map p_id (setPeer i s v ps) = map p_id ps"
  by (induction i s v ps rule: setPeer.induct) auto

lemma length_setPeer [simp]: "length (setPeer i s v ps) = length ps"
  by (metis length_map setPeer_ids)

lemma getPeerRef_setPeer:
  "getPeerRef j (setPeer i s v ps) =
     (if j = i then map_option (\<lambda>p. p\<lparr>p_state := s, p_version := v\<rparr>) (getPeerRef i ps)
      else getPeerRef j ps)"
  by (induction i s v ps rule: setPeer.induct) (auto simp: getPeerRef_def)

lemma getPeerRef_SomeD: "getPeerRef i ps = Some p \<Longrightarrow> p \<in> set ps \<and> p_id p = i"
  by (auto simp: getPeerRef_def find_Some_iff)

lemma countFunctional_add:
  "countFunctional ps n =
     n + of_nat (length (filter (\<lambda>p. p_state p = FOLLOWER_FUNCTIONAL) ps))"
  by (induction ps n rule: countFunctional.induct) auto

definition nFunctional :: "PeerInfo list \<Rightarrow> nat" where
  "nFunctional ps = length (filter (\<lambda>p. p_state p = FOLLOWER_FUNCTIONAL) ps)"

text \<open>The 32-bit comparison is the comparison of the numbers, below \<open>2 ^ 32\<close> peers.\<close>

lemma quorum_test:
  assumes "length ps < 2 ^ 32" and "0 < q"
  shows "countFunctional ps 0 < q - 1 \<longleftrightarrow> nFunctional ps + 1 < unat q"
proof -
  have "nFunctional ps < 2 ^ 32"
    unfolding nFunctional_def using assms(1) length_filter_le le_less_trans by blast
  then have "countFunctional ps 0 < q - 1 \<longleftrightarrow> nFunctional ps < unat (q - 1)"
    by (simp add: countFunctional_add nFunctional_def of_nat_word32_less_iff)
  moreover have "0 < unat q" using assms(2) by (simp add: word_less_nat_alt)
  ultimately show ?thesis
    by (simp add: unat_word32_minus_1 [OF assms(2)]) linarith
qed

subsection \<open>The leader's invariant\<close>

text \<open>
  A leader knows exactly the other members, in member order, and it is functional exactly when
  it and its functional peers are a quorum.
\<close>

definition peers_known :: "'a PBMember_scheme \<Rightarrow> bool" where
  "peers_known m \<longleftrightarrow> (\<exists>lc. leaderCtx m = Some lc \<and>
     map p_id (lc_peers lc) = filter (\<lambda>i. i \<noteq> myId m) (memberIds m))"

definition quorum_consistent :: "'a PBMember_scheme \<Rightarrow> bool" where
  "quorum_consistent m \<longleftrightarrow> (\<exists>lc. leaderCtx m = Some lc \<and>
     (mstate m = LEADER_FUNCTIONAL \<and> unat (quorum m) \<le> nFunctional (lc_peers lc) + 1 \<or>
      mstate m = LEADER_WAITING_FOR_QUORUM \<and> nFunctional (lc_peers lc) + 1 < unat (quorum m)))"

definition small_group :: "'a PBMember_scheme \<Rightarrow> bool" where
  "small_group m \<longleftrightarrow> distinct (memberIds m) \<and> length (memberIds m) < 2 ^ 32 \<and> 0 < quorum m"

lemma peers_known_length:
  assumes "peers_known m" and "small_group m" and "leaderCtx m = Some lc"
  shows "length (lc_peers lc) < 2 ^ 32"
proof -
  from assms(1,3) have "map p_id (lc_peers lc) = filter (\<lambda>i. i \<noteq> myId m) (memberIds m)"
    by (simp add: peers_known_def)
  then have "length (lc_peers lc) \<le> length (memberIds m)"
    by (metis length_filter_le length_map)
  with assms(2) show ?thesis by (simp add: small_group_def)
qed

text \<open>What \<open>changePeerState\<close> does once the peer is found.\<close>

lemma changePeerState_found:
  assumes "leaderCtx m = Some lc" and "getPeerRef i (lc_peers lc) = Some p"
  obtains ps where "ps = (if peerChanges (p_state p) (p_version p) v t
                          then setPeer i t v (lc_peers lc) else lc_peers lc)"
    and "changePeerState i v t m =
      Ok (adjustLeaderState (countFunctional ps 0) (m\<lparr>leaderCtx := Some (lc\<lparr>lc_peers := ps\<rparr>)\<rparr>))"
  using assms by (simp add: changePeerState_def Let_def)

lemma adjustLeaderState_keeps [simp]:
  "leaderCtx (adjustLeaderState n m) = leaderCtx m"
  "memberIds (adjustLeaderState n m) = memberIds m" "myId (adjustLeaderState n m) = myId m"
  "quorum (adjustLeaderState n m) = quorum m" "commitId (adjustLeaderState n m) = commitId m"
  "termId (adjustLeaderState n m) = termId m"
  "PBMember.more (adjustLeaderState n m) = PBMember.more m"
  by (simp_all add: adjustLeaderState_def switchState_def)

lemma adjustLeaderState_isLeader [simp]:
  "isLeaderState (adjustLeaderState n m) = isLeaderState m"
  by (auto simp: adjustLeaderState_def switchState_def isLeaderState_def less_PBMemberState_def)

lemma isLeaderState_leaderCtx [simp]: "isLeaderState (m\<lparr>leaderCtx := c\<rparr>) = isLeaderState m"
  by (simp add: isLeaderState_def)

lemma changePeerState_keeps:
  assumes "changePeerState i v t m = Ok m'"
  shows "memberIds m' = memberIds m" "myId m' = myId m" "quorum m' = quorum m"
    "commitId m' = commitId m" "termId m' = termId m" "isLeaderState m' = isLeaderState m"
    "PBMember.more m' = PBMember.more m" "leaderCtx m' = None \<longleftrightarrow> leaderCtx m = None"
  using assms
  by (auto simp: changePeerState_def Let_def split: option.splits)

lemma changePeerState_peers_known:
  assumes "peers_known m" and "changePeerState i v t m = Ok m'"
  shows "peers_known m'"
  using assms by (auto simp: changePeerState_def peers_known_def Let_def split: option.splits)

lemma changePeerState_quorum_consistent:
  assumes "quorum_consistent m" and "peers_known m" and "small_group m"
    and "changePeerState i v t m = Ok m'"
  shows "quorum_consistent m'"
proof -
  obtain lc where lc: "leaderCtx m = Some lc" using assms(2) by (auto simp: peers_known_def)
  show ?thesis
  proof (cases "getPeerRef i (lc_peers lc)")
    case None
    with lc assms(1,4) show ?thesis by (simp add: changePeerState_def)
  next
    case (Some p)
    from changePeerState_found [OF lc Some, of v t] obtain ps
      where ps: "length ps = length (lc_peers lc)"
        and m': "m' = adjustLeaderState (countFunctional ps 0) (m\<lparr>leaderCtx := Some (lc\<lparr>lc_peers := ps\<rparr>)\<rparr>)"
      using assms(4) by (metis length_setPeer outcome.inject(1))
    have len: "length ps < 2 ^ 32" "0 < quorum m"
      using peers_known_length [OF assms(2,3) lc] ps assms(3) by (auto simp: small_group_def)
    have "countFunctional ps 0 < quorum m - 1 \<longleftrightarrow> nFunctional ps + 1 < unat (quorum m)"
      by (rule quorum_test [OF len])
    moreover from assms(1) have "mstate m = LEADER_FUNCTIONAL \<or> mstate m = LEADER_WAITING_FOR_QUORUM"
      by (auto simp: quorum_consistent_def)
    ultimately show ?thesis
      unfolding m' by (auto simp: quorum_consistent_def adjustLeaderState_def switchState_def not_less)
  qed
qed

subsection \<open>Becoming the leader establishes it\<close>

lemma buildPeers_eq:
  "buildPeers me fms ms peers = peers @ map (newPeer fms) (filter (\<lambda>i. i \<noteq> me) ms)"
  by (induction me fms ms peers rule: buildPeers.induct) auto

lemma newPeer_id [simp]: "p_id (newPeer fms i) = i"
  by (simp add: newPeer_def split: option.splits)

lemma newPeer_functional:
  assumes "\<forall>x \<in> set fms. gr_state x = FOLLOWER_FUNCTIONAL"
  shows "p_state (newPeer fms i) = FOLLOWER_FUNCTIONAL \<longleftrightarrow> i \<in> gr_id ` set fms"
proof (cases "find (\<lambda>r. i = gr_id r) fms")
  case None
  then have "i \<notin> gr_id ` set fms" by (auto simp: find_None_iff)
  with None show ?thesis by (simp add: newPeer_def)
next
  case (Some r)
  then have "r \<in> set fms" "i = gr_id r" by (auto simp: find_Some_iff)
  with Some assms show ?thesis by (simp add: newPeer_def)
qed

text \<open>The announcement an elector makes to a member of its group.\<close>

definition announced :: "GetMemberStateRespMsg list \<Rightarrow> 'a PBMember_scheme \<Rightarrow> bool" where
  "announced fms m \<longleftrightarrow> distinct (map gr_id fms) \<and> gr_id ` set fms \<subseteq> set (memberIds m) \<and>
     myId m \<in> gr_id ` set fms \<and> (\<forall>x \<in> set fms. gr_state x = FOLLOWER_FUNCTIONAL)"

lemma nFunctional_announced:
  assumes "announced fms m" and "distinct (memberIds m)"
  shows "nFunctional (buildPeers (myId m) fms (memberIds m) []) + 1 = length fms"
proof -
  let ?in = "\<lambda>i. i \<in> gr_id ` set fms"
  have "nFunctional (buildPeers (myId m) fms (memberIds m) []) =
      length (filter (\<lambda>i. i \<noteq> myId m \<and> ?in i) (memberIds m))"
    using assms(1) newPeer_functional [of fms]
    by (simp add: buildPeers_eq nFunctional_def filter_map comp_def announced_def conj_commute)
  also have "\<dots> = card ({i. i \<noteq> myId m \<and> ?in i} \<inter> set (memberIds m))"
    using assms(2) by (simp add: distinct_length_filter)
  also have "{i. i \<noteq> myId m \<and> ?in i} \<inter> set (memberIds m) = gr_id ` set fms - {myId m}"
    using assms(1) by (auto simp: announced_def)
  also have "card (gr_id ` set fms - {myId m}) + 1 = card (gr_id ` set fms)"
    using assms(1) card.remove [of "gr_id ` set fms" "myId m"] by (simp add: announced_def)
  also have "\<dots> = length fms"
    using assms(1) distinct_card [of "map gr_id fms"] by (simp add: announced_def)
  finally show ?thesis .
qed

lemma leaderLockDone_ok:
  assumes "leaderLockDone fms (Inr k) m = Ok (m', effs)" and "announced fms m" and "small_group m"
  shows "peers_known m'" and "quorum_consistent m'" and "small_group m'"
  using assms nFunctional_announced [OF assms(2)]
  by (auto simp: leaderLockDone_def peers_known_def quorum_consistent_def small_group_def Let_def
      switchState_def LeaderCtx_new_def buildPeers_eq comp_def)

subsection \<open>A leader's term of office\<close>

text \<open>
  A leader starts when it gets the lock after a well-formed announcement; then peers change, in
  any order and with any reports.
\<close>

definition leader_starts :: "'a PBMember_scheme \<Rightarrow> bool" where
  "leader_starts m \<longleftrightarrow> (\<exists>fms k m0 effs. announced fms m0 \<and> small_group m0 \<and>
     leaderLockDone fms (Inr k) m0 = Ok (m, effs))"

definition leader_changes :: "'a PBMember_scheme \<Rightarrow> 'a PBMember_scheme \<Rightarrow> bool" where
  "leader_changes m m' \<longleftrightarrow> (\<exists>i v t. changePeerState i v t m = Ok m')"

definition leader_ok :: "'a PBMember_scheme \<Rightarrow> bool" where
  "leader_ok m \<longleftrightarrow> peers_known m \<and> quorum_consistent m \<and> small_group m"

interpretation leaderI: inv_system leader_starts leader_changes leader_ok
proof unfold_locales
  show "leader_ok m" if "leader_starts m" for m :: "'a PBMember_scheme"
    using that by (auto simp: leader_starts_def leader_ok_def dest: leaderLockDone_ok)
  show "leader_ok m'" if "leader_ok m" "leader_changes m m'" for m m' :: "'a PBMember_scheme"
    using that
    by (auto simp: leader_ok_def leader_changes_def small_group_def changePeerState_keeps
        dest: changePeerState_peers_known intro: changePeerState_quorum_consistent)
qed

lemma quorum_consistentD:
  "quorum_consistent m \<Longrightarrow> leaderCtx m = Some lc \<Longrightarrow>
     (mstate m = LEADER_FUNCTIONAL \<longleftrightarrow> unat (quorum m) \<le> nFunctional (lc_peers lc) + 1) \<and>
     (mstate m = LEADER_WAITING_FOR_QUORUM \<longleftrightarrow>
        nFunctional (lc_peers lc) + 1 < unat (quorum m))"
  by (auto simp: quorum_consistent_def)

text \<open>
  From the moment a member becomes leader after a well-formed announcement, and through any
  sequence of peer changes, its peers are exactly the other members of the group in member
  order, and it accepts writes (\<open>LEADER_FUNCTIONAL\<close>) exactly while it and its functional peers
  make a quorum; otherwise it is \<open>LEADER_WAITING_FOR_QUORUM\<close>.
\<close>

theorem leader_functional_iff_quorum:
  assumes "leader_starts m0" and "leader_changes\<^sup>*\<^sup>* m0 m"
  shows "\<exists>lc. leaderCtx m = Some lc \<and>
    map p_id (lc_peers lc) = filter (\<lambda>i. i \<noteq> myId m) (memberIds m) \<and>
    (mstate m = LEADER_FUNCTIONAL \<longleftrightarrow> unat (quorum m) \<le> nFunctional (lc_peers lc) + 1) \<and>
    (mstate m = LEADER_WAITING_FOR_QUORUM \<longleftrightarrow>
       nFunctional (lc_peers lc) + 1 < unat (quorum m))"
proof -
  have ok: "peers_known m" "quorum_consistent m"
    using leaderI.reachable_inv [OF assms] by (simp_all add: leader_ok_def)
  then obtain lc where "leaderCtx m = Some lc"
    "map p_id (lc_peers lc) = filter (\<lambda>i. i \<noteq> myId m) (memberIds m)"
    by (auto simp: peers_known_def)
  with quorum_consistentD [OF ok(2)] show ?thesis by blast
qed

definition follower_resp :: "string \<Rightarrow> GetMemberStateRespMsg" where
  "follower_resp i =
     \<lparr>gr_id = i, gr_commitId = - 1, gr_version = 0, gr_state = FOLLOWER_FUNCTIONAL\<rparr>"

definition sample_leader :: PBMember where
  "sample_leader = (PBMember_new 1 ''/r/1'' [''a'', ''b'', ''c''] ''a'' 2 0 0)
     \<lparr>leaderId := ''a'', mstate := LEADER_FUNCTIONAL,
      leaderCtx := Some \<lparr>lc_opId = - 1, lc_commitId = - 1,
        lc_peers = [\<lparr>p_id = ''b'', p_state = FOLLOWER_FUNCTIONAL, p_version = 0\<rparr>,
                    \<lparr>p_id = ''c'', p_state = FOLLOWER_WAIT_TO_JOIN_GROUP, p_version = - 1\<rparr>]\<rparr>\<rparr>"

lemma sample_leader_starts: "leader_starts sample_leader"
proof -
  let ?m = "PBMember_new 1 ''/r/1'' [''a'', ''b'', ''c''] ''a'' 2 0 0"
  let ?fms = "[follower_resp ''a'', follower_resp ''b'']"
  have "announced ?fms ?m" "small_group ?m"
    by (simp_all add: announced_def small_group_def follower_resp_def PBMember_new_def)
  moreover have "leaderLockDone ?fms (Inr ''LOCK'') ?m = Ok (sample_leader, [])"
    by (simp add: leaderLockDone_def sample_leader_def buildPeers_eq newPeer_def follower_resp_def
        PBMember_new_def switchState_def LeaderCtx_new_def INVALID_VALUE_def INVALID_VERSION_def)
  ultimately show ?thesis unfolding leader_starts_def by blast
qed

theorem leader_functional_iff_quorum_witness:
  "\<exists>m. changePeerState ''b'' 0 FOLLOWER_WAIT_TO_JOIN_GROUP sample_leader = Ok m \<and>
     mstate m = LEADER_WAITING_FOR_QUORUM"
proof -
  obtain m where m: "changePeerState ''b'' 0 FOLLOWER_WAIT_TO_JOIN_GROUP sample_leader = Ok m"
    "\<exists>lc. leaderCtx m = Some lc \<and> nFunctional (lc_peers lc) = 0" "quorum m = 2"
    by (simp add: changePeerState_def sample_leader_def getPeerRef_def peerChanges_def
        adjustLeaderState_def Let_def PBMember_new_def switchState_def nFunctional_def)
  then have "leader_changes\<^sup>*\<^sup>* sample_leader m"
    unfolding leader_changes_def by blast
  from leader_functional_iff_quorum [OF sample_leader_starts this] m show ?thesis by auto
qed

text \<open>
  One report about a member: it can only change that peer; the peer then has the reported
  state and version, and never an older version than before. A report that it left takes
  effect only when the peer was writable and the report is not about an older version; a report
  that it syncs or works always takes effect from a newer version.
\<close>

theorem changePeerState_effect:
  assumes "leaderCtx m = Some lc" and "getPeerRef i (lc_peers lc) = Some p"
  shows "\<exists>m' lc'. changePeerState i v t m = Ok m' \<and> leaderCtx m' = Some lc' \<and>
    lc_commitId lc' = lc_commitId lc \<and> lc_opId lc' = lc_opId lc \<and>
    (\<forall>j. j \<noteq> i \<longrightarrow> getPeerRef j (lc_peers lc') = getPeerRef j (lc_peers lc)) \<and>
    (\<exists>p'. getPeerRef i (lc_peers lc') = Some p' \<and> p_version p \<le> p_version p' \<and>
       (p' = p \<or> p' = p\<lparr>p_state := t, p_version := v\<rparr>) \<and>
       (t = FOLLOWER_WAIT_TO_JOIN_GROUP \<longrightarrow>
          (p' \<noteq> p \<longrightarrow> isWritable p \<and> p_version p \<le> v) \<and>
          (isWritable p \<and> p_version p \<le> v \<longrightarrow> p_state p' = t)) \<and>
       (t \<in> {FOLLOWER_SYNCING, FOLLOWER_FUNCTIONAL} \<and> p_version p < v \<longrightarrow>
          p' = p\<lparr>p_state := t, p_version := v\<rparr>))"
proof -
  let ?c = "peerChanges (p_state p) (p_version p) v t"
  define ps where "ps = (if ?c then setPeer i t v (lc_peers lc) else lc_peers lc)"
  define p' where "p' = (if ?c then p\<lparr>p_state := t, p_version := v\<rparr> else p)"
  have "getPeerRef i ps = Some p'" "\<forall>j. j \<noteq> i \<longrightarrow> getPeerRef j ps = getPeerRef j (lc_peers lc)"
    using assms(2) by (auto simp: ps_def p'_def getPeerRef_setPeer)
  moreover have "changePeerState i v t m =
      Ok (adjustLeaderState (countFunctional ps 0) (m\<lparr>leaderCtx := Some (lc\<lparr>lc_peers := ps\<rparr>)\<rparr>))"
    using assms by (simp add: changePeerState_def ps_def Let_def)
  moreover have "p_version p \<le> p_version p'" "p' = p \<or> p' = p\<lparr>p_state := t, p_version := v\<rparr>"
    "t = FOLLOWER_WAIT_TO_JOIN_GROUP \<longrightarrow>
       (p' \<noteq> p \<longrightarrow> isWritable p \<and> p_version p \<le> v) \<and>
       (isWritable p \<and> p_version p \<le> v \<longrightarrow> p_state p' = t)"
    "t \<in> {FOLLOWER_SYNCING, FOLLOWER_FUNCTIONAL} \<and> p_version p < v \<longrightarrow>
       p' = p\<lparr>p_state := t, p_version := v\<rparr>"
    by (auto simp: p'_def peerChanges_def isWritable_def split: if_splits)
  ultimately show ?thesis by simp
qed

theorem changePeerState_effect_witness:
  "\<exists>m' lc' p'. changePeerState ''c'' 1 FOLLOWER_SYNCING sample_leader = Ok m' \<and>
     leaderCtx m' = Some lc' \<and> getPeerRef ''c'' (lc_peers lc') = Some p' \<and>
     p_state p' = FOLLOWER_SYNCING \<and> p_version p' = 1"
  using changePeerState_effect [of sample_leader _ "''c''"
      "\<lparr>p_id = ''c'', p_state = FOLLOWER_WAIT_TO_JOIN_GROUP, p_version = - 1\<rparr>" 1 FOLLOWER_SYNCING]
  by (fastforce simp: sample_leader_def getPeerRef_def)

text \<open>
  A group update is rejected if its term is older. Otherwise it makes the member sync
  exactly when it is a follower that is not syncing already and the leader does not list it as
  functional: it then follows that leader at the newer of the two terms and starts the sync
  protocol. In every other case nothing changes; in particular a waiting member that the leader
  does list stays waiting and keeps its old term.
\<close>

theorem handleGroupInfoUpdateMsg_cases:
  "handleGroupInfoUpdateMsg req m =
     (if gi_termId req < termId m then Throw (StatusException STATUS_INVALID_TERM)
      else if mstate m \<in> {FOLLOWER_WAIT_TO_JOIN_GROUP, FOLLOWER_FUNCTIONAL} \<and>
              myId m \<notin> gr_id ` set (gi_functionalMembers req)
      then Ok (m\<lparr>leaderId := gi_leaderId req, mstate := FOLLOWER_SYNCING,
                 termId := gi_termId req\<rparr>, [RunSync])
      else Ok (m, []))"
proof -
  have "isFollowerState m \<longleftrightarrow>
      mstate m \<in> {FOLLOWER_WAIT_TO_JOIN_GROUP, FOLLOWER_SYNCING, FOLLOWER_FUNCTIONAL}"
    by (cases "mstate m") (simp_all add: isFollowerState_def less_PBMemberState_def)
  moreover have "find (\<lambda>x. gr_id x = myId m) fms = None \<longleftrightarrow> myId m \<notin> gr_id ` set fms"
    for fms :: "GetMemberStateRespMsg list"
    unfolding find_None_iff by (metis imageE image_eqI)
  moreover have "(if termId m < x then m\<lparr>leaderId := l, mstate := s, termId := x\<rparr>
      else m\<lparr>leaderId := l, mstate := s\<rparr>) = m\<lparr>leaderId := l, mstate := s, termId := x\<rparr>"
    if "\<not> x < termId m" for x l s
    using that by (cases m) auto
  ultimately show ?thesis
    by (simp add: handleGroupInfoUpdateMsg_def throwIfInvalidTerm_def switchState_def Let_def)
qed

end
