(* ===== verification/PB_Write.thy ===== *)
theory PB_Write
  imports PB_Leader
begin

section \<open>Group writes: \<open>src/infra/PBMember.cpp\<close> (\<open>writeToPeers\<close>), \<open>src/infra/PBMember.tcc\<close>\<close>

text \<open>
  A leader applies a write locally (\<open>groupWriteInEb\<close>), then sends it to every writable peer
  (\<open>writeToPeers\<close>) and completes the caller's promise as the answers come in, one call of
  \<open>writePeerDone\<close> per answer, in any order. \<open>WriteCtx\<close> is the context the answers share; its
  counters are 32-bit unsigned, and \<open>w_promise\<close> is None while the promise is not fulfilled.
\<close>

record WriteCtx =
  w_nAcked :: "32 word"
  w_nSuccess :: "32 word"
  w_nPeers :: "32 word"
  w_promise :: "(exn + unit) option"

definition peerRequest :: "string \<Rightarrow> bytes \<Rightarrow> KVBuffer" where
  "peerRequest type buffer = (setType KVBuffer_new type)\<lparr>kv_payload := Some buffer\<rparr>"

definition writeToPeers ::
  "string \<Rightarrow> bytes \<Rightarrow> 'a PBMember_scheme \<Rightarrow> (WriteCtx \<times> (PeerInfo \<times> KVBuffer) list) outcome" where
  "writeToPeers type buffer m =
     (case leaderCtx m of
        None \<Rightarrow> Abort
      | Some lc \<Rightarrow>
          let peers = getWritablePeers (lc_peers lc)
          in Ok (\<lparr>w_nAcked = 0, w_nSuccess = 0, w_nPeers = of_nat (length peers),
                  w_promise = None\<rparr>,
                 map (\<lambda>p. (p, peerRequest type buffer)) peers))"

text \<open>
  The answer of one peer. \<open>peerPrior\<close> is the peer as it was when the request was sent.
\<close>

definition writePeerDone ::
  "PeerInfo \<Rightarrow> exn + KVBuffer \<Rightarrow> WriteCtx \<Rightarrow> 'a PBMember_scheme \<Rightarrow>
    (WriteCtx \<times> 'a PBMember_scheme) outcome" where
  "writePeerDone peerPrior respTry w m =
     (case leaderCtx m of
        None \<Rightarrow> Abort
      | Some lc \<Rightarrow>
          let peer = getPeerRef (p_id peerPrior) (lc_peers lc);
              w1 = w\<lparr>w_nAcked := w_nAcked w + 1\<rparr>
          in case respTry of
               Inr _ \<Rightarrow>
                 let w2 = w1\<lparr>w_nSuccess := w_nSuccess w1 + 1\<rparr>
                 in Ok (if w_nSuccess w2 = quorum m - 1 \<and> w_promise w2 = None
                        then w2\<lparr>w_promise := Some (Inr ())\<rparr> else w2, m)
             | Inl e \<Rightarrow>
                 (case peer of
                    None \<Rightarrow> Abort
                  | Some p \<Rightarrow>
                      obind (changePeerState (p_id p) (p_version peerPrior)
                               FOLLOWER_WAIT_TO_JOIN_GROUP m)
                        (\<lambda>m1. Ok (if w_nAcked w1 = w_nPeers w1 \<and> w_promise w1 = None
                                  then w1\<lparr>w_promise := Some (Inl e)\<rparr> else w1, m1))))"

text \<open>
  A write by the leader. \<open>setIds\<close> stores the operation id and the commit id in the message,
  \<open>ser\<close> is the generated serializer, \<open>localWrite\<close> the write to the primary. The result is the
  failure, or the response with the context and the requests to the peers.
\<close>

definition groupWriteInEb ::
  "string \<Rightarrow> (int \<Rightarrow> int \<Rightarrow> 'req \<Rightarrow> 'req) \<Rightarrow> ('req \<Rightarrow> bytes) \<Rightarrow>
    ('req \<Rightarrow> bytes \<Rightarrow> 'a PBMember_scheme \<Rightarrow> ('a PBMember_scheme \<times> (exn + 'resp)) outcome) \<Rightarrow>
    'req \<Rightarrow> 'a PBMember_scheme \<Rightarrow>
    ('a PBMember_scheme \<times> (exn + 'resp \<times> WriteCtx \<times> (PeerInfo \<times> KVBuffer) list)) outcome" where
  "groupWriteInEb type setIds ser localWrite msg m =
     (if \<not> isLeaderState m then Ok (m, Inl (StatusException STATUS_INVALID_STATE))
      else if mstate m \<noteq> LEADER_FUNCTIONAL then Ok (m, Inl (StatusException STATUS_NO_QUORUM))
      else
        case leaderCtx m of
          None \<Rightarrow> Abort
        | Some lc \<Rightarrow>
            let lc1 = lc\<lparr>lc_opId := lc_opId lc + 1, lc_commitId := lc_commitId lc + 1\<rparr>;
                m1 = m\<lparr>leaderCtx := Some lc1\<rparr>;
                msg1 = setIds (lc_opId lc1) (lc_commitId lc1) msg;
                payload = ser msg1
            in obind (localWrite msg1 payload m1) (\<lambda>(m2, r).
                 case r of
                   Inl e \<Rightarrow> Ok (m2, Inl e)
                 | Inr resp \<Rightarrow>
                     obind (writeToPeers type payload m2)
                       (\<lambda>(w, sends). Ok (m2, Inr (resp, w, sends)))))"

subsection \<open>All the answers of a write\<close>

text \<open>The answers of a write in the order in which they arrive.\<close>

fun writeRun ::
  "(PeerInfo \<times> (exn + KVBuffer)) list \<Rightarrow> WriteCtx \<Rightarrow> 'a PBMember_scheme \<Rightarrow>
    (WriteCtx \<times> 'a PBMember_scheme) outcome" where
  "writeRun [] w m = Ok (w, m)"
| "writeRun ((p, r) # acks) w m =
     obind (writePeerDone p r w m) (\<lambda>(w1, m1). writeRun acks w1 m1)"

lemma writeRun_snoc:
  "writeRun (acks @ [(p, r)]) w m = obind (writeRun acks w m) (\<lambda>(w1, m1). writePeerDone p r w1 m1)"
proof (induction acks arbitrary: w m)
  case Nil
  then show ?case by (cases "writePeerDone p r w m") auto
next
  case (Cons a acks)
  then show ?case by (cases a) (cases "writePeerDone (fst a) (snd a) w m"; auto)
qed

definition nSucceeded :: "(PeerInfo \<times> (exn + KVBuffer)) list \<Rightarrow> nat" where
  "nSucceeded acks = length (filter (\<lambda>(p, r). \<not> isl r) acks)"

definition failedIds :: "(PeerInfo \<times> (exn + KVBuffer)) list \<Rightarrow> string set" where
  "failedIds acks = {p_id p | p r. (p, r) \<in> set acks \<and> isl r}"

lemma nSucceeded_snoc:
  "nSucceeded (acks @ [(p, r)]) = nSucceeded acks + (if isl r then 0 else 1)"
  by (simp add: nSucceeded_def)

lemma failedIds_snoc:
  "failedIds (acks @ [(p, r)]) = (if isl r then insert (p_id p) (failedIds acks) else failedIds acks)"
  by (auto simp: failedIds_def)

lemma nSucceeded_le: "nSucceeded acks \<le> length acks"
  by (simp add: nSucceeded_def)

text \<open>What the promise is worth after the answers \<open>acks\<close> of \<open>n\<close> requests.\<close>

definition promiseAfter ::
  "nat \<Rightarrow> nat \<Rightarrow> (PeerInfo \<times> (exn + KVBuffer)) list \<Rightarrow> (exn + unit) option" where
  "promiseAfter q n acks =
     (if 1 < q \<and> q \<le> nSucceeded acks + 1 then Some (Inr ())
      else if acks \<noteq> [] \<and> length acks = n
      then (case snd (last acks) of Inl e \<Rightarrow> Some (Inl e) | Inr _ \<Rightarrow> None)
      else None)"

lemma of_nat_word32_eq_iff:
  "a < 2 ^ 32 \<Longrightarrow> b < 2 ^ 32 \<Longrightarrow> (of_nat a :: 32 word) = of_nat b \<longleftrightarrow> a = b"
  by (simp add: word_unat_eq_iff unat_of_nat take_bit_nat_eq_self)

text \<open>Every failure moves its peer, provided the peers are known.\<close>

definition demote :: "string set \<Rightarrow> PeerInfo \<Rightarrow> PeerInfo" where
  "demote S p = (if p_id p \<in> S then p\<lparr>p_state := FOLLOWER_WAIT_TO_JOIN_GROUP\<rparr> else p)"

lemma setPeer_absent: "i \<notin> p_id ` set ps \<Longrightarrow> setPeer i s v ps = ps"
  by (induction i s v ps rule: setPeer.induct) auto

lemma demote_id [simp]: "p_id (demote S p) = p_id p"
  by (simp add: demote_def)

lemma demote_empty [simp]: "demote {} = id"
  by (simp add: demote_def fun_eq_iff)

lemma getPeerRef_demote: "getPeerRef i (map (demote S) ps) = map_option (demote S) (getPeerRef i ps)"
  by (induction ps) (auto simp: getPeerRef_def)

lemma getPeerRef_self: "distinct (map p_id ps) \<Longrightarrow> p \<in> set ps \<Longrightarrow> getPeerRef (p_id p) ps = Some p"
  by (induction ps) (auto simp: getPeerRef_def)

lemma setPeer_demote:
  assumes "distinct (map p_id ps)" and "p \<in> set ps" and "p_id p \<notin> S"
  shows "setPeer (p_id p) FOLLOWER_WAIT_TO_JOIN_GROUP (p_version p) (map (demote S) ps) =
    map (demote (insert (p_id p) S)) ps"
  using assms
proof (induction ps)
  case (Cons a ps)
  show ?case
  proof (cases "p_id a = p_id p")
    case True
    with Cons.prems have a: "a = p" and notin: "p_id p \<notin> p_id ` set ps"
      by (auto simp: image_iff)
    from notin have "p_id x \<noteq> p_id p" if "x \<in> set ps" for x
      using that by (metis image_eqI)
    then have "map (demote S) ps = map (demote (insert (p_id p) S)) ps"
      by (auto simp: demote_def)
    with a Cons.prems(3) show ?thesis by (simp add: demote_def)
  next
    case False
    with Cons.prems have "p \<in> set ps" by auto
    with Cons False show ?thesis by (simp add: demote_def)
  qed
qed simp

subsection \<open>The whole write\<close>

text \<open>
  A leader whose peers are known answers to a write: each answer comes from a peer the write
  was sent to, and from each at most once.
\<close>

definition answers_of :: "PeerInfo list \<Rightarrow> (PeerInfo \<times> (exn + KVBuffer)) list \<Rightarrow> bool" where
  "answers_of peers acks \<longleftrightarrow>
     distinct (map fst acks) \<and> set (map fst acks) \<subseteq> set (getWritablePeers peers)"

definition run_state ::
  "'a PBMember_scheme \<Rightarrow> LeaderCtx \<Rightarrow> nat \<Rightarrow> (PeerInfo \<times> (exn + KVBuffer)) list \<Rightarrow> WriteCtx \<Rightarrow>
    'a PBMember_scheme \<Rightarrow> bool" where
  "run_state m lc n acks w m' \<longleftrightarrow>
     w = \<lparr>w_nAcked = of_nat (length acks), w_nSuccess = of_nat (nSucceeded acks),
          w_nPeers = of_nat n, w_promise = promiseAfter (unat (quorum m)) n acks\<rparr> \<and>
     leaderCtx m' = Some (lc\<lparr>lc_peers := map (demote (failedIds acks)) (lc_peers lc)\<rparr>) \<and>
     leader_changes\<^sup>*\<^sup>* m m' \<and> quorum m' = quorum m"

lemma success_word_iff:
  assumes "k < 2 ^ 32" and "0 < (q :: 32 word)" and "0 < k"
  shows "(of_nat k :: 32 word) = q - 1 \<longleftrightarrow> k + 1 = unat q"
proof -
  have "0 < unat q" using assms(2) by (simp add: word_less_nat_alt)
  then show ?thesis
    using assms(1) unat_word32_minus_1 [OF assms(2)]
    by (auto simp: word_unat_eq_iff unat_of_nat take_bit_nat_eq_self)
qed

lemma run_state_step:
  assumes rs: "run_state m lc n acks w m'" and lc: "distinct (map p_id (lc_peers lc))"
    and q: "0 < quorum m" and len: "length acks < n" "n < 2 ^ 32"
    and p: "p \<in> set (lc_peers lc)" "isWritable p" "p_id p \<notin> failedIds acks"
  shows "\<exists>w1 m1. writePeerDone p r w m' = Ok (w1, m1) \<and> run_state m lc n (acks @ [(p, r)]) w1 m1"
proof (cases r)
  case (Inr kvb)
  have "nSucceeded acks + 1 < 2 ^ 32" using nSucceeded_le [of acks] len by linarith
  then have "(1 + of_nat (nSucceeded acks) :: 32 word) = quorum m - 1 \<longleftrightarrow>
      nSucceeded acks + 2 = unat (quorum m)"
    using success_word_iff [of "nSucceeded acks + 1", OF _ q] by simp
  moreover from this have "(of_nat (nSucceeded acks) + 2 :: 32 word) = quorum m \<longleftrightarrow>
      nSucceeded acks + 2 = unat (quorum m)"
    by (simp add: eq_diff_eq add.commute)
  ultimately show ?thesis
    using Inr rs len by (auto simp: run_state_def writePeerDone_def Let_def promiseAfter_def nSucceeded_snoc
        failedIds_snoc add.commute)
next
  case (Inl e)
  from rs have ctx: "leaderCtx m' = Some (lc\<lparr>lc_peers := map (demote (failedIds acks)) (lc_peers lc)\<rparr>)"
    and q': "quorum m' = quorum m" and ch: "leader_changes\<^sup>*\<^sup>* m m'"
    by (simp_all add: run_state_def)
  have ref: "getPeerRef (p_id p) (map (demote (failedIds acks)) (lc_peers lc)) = Some p"
    using getPeerRef_self [OF lc p(1)] p(3) by (simp add: getPeerRef_demote demote_def)
  have chg: "peerChanges (p_state p) (p_version p) (p_version p) FOLLOWER_WAIT_TO_JOIN_GROUP"
    using p(2) by (auto simp: peerChanges_def isWritable_def)
  define m1 where "m1 = adjustLeaderState
    (countFunctional (map (demote (insert (p_id p) (failedIds acks))) (lc_peers lc)) 0)
    (m'\<lparr>leaderCtx := Some (lc\<lparr>lc_peers := map (demote (insert (p_id p) (failedIds acks))) (lc_peers lc)\<rparr>)\<rparr>)"
  have m1: "changePeerState (p_id p) (p_version p) FOLLOWER_WAIT_TO_JOIN_GROUP m' = Ok m1"
    using ref chg setPeer_demote [OF lc p(1,3)] by (simp add: changePeerState_def ctx m1_def Let_def)
  then have "leader_changes m' m1" unfolding leader_changes_def by blast
  with ch have "leader_changes\<^sup>*\<^sup>* m m1" by simp
  moreover have "of_nat (length acks) + 1 = (of_nat n :: 32 word) \<longleftrightarrow> length acks + 1 = n"
    using of_nat_word32_eq_iff [of "length acks + 1" n] len by (simp add: add.commute)
  ultimately show ?thesis
    using Inl rs ref m1 len(1)
    by (simp add: run_state_def writePeerDone_def ctx Let_def promiseAfter_def nSucceeded_snoc
        failedIds_snoc q' add.commute m1_def)
qed

lemma writeRun_run_state:
  assumes lc: "leaderCtx m = Some lc" "distinct (map p_id (lc_peers lc))" and q: "0 < quorum m"
    and acks: "answers_of (lc_peers lc) acks" and n: "length acks \<le> n" "n < 2 ^ 32"
  shows "\<exists>w' m'. writeRun acks \<lparr>w_nAcked = 0, w_nSuccess = 0, w_nPeers = of_nat n, w_promise = None\<rparr> m =
      Ok (w', m') \<and> run_state m lc n acks w' m'"
  using acks n(1)
proof (induction acks rule: rev_induct)
  case Nil
  have "m = m" ..
  with lc show ?case
    by (simp add: run_state_def promiseAfter_def nSucceeded_def failedIds_def)
next
  case (snoc a acks)
  obtain p r where a: "a = (p, r)" by (cases a)
  from snoc.prems have ans: "answers_of (lc_peers lc) acks"
    and p: "p \<in> set (lc_peers lc)" "isWritable p" "p \<notin> fst ` set acks"
    by (auto simp: a answers_of_def getWritablePeers_def)
  have "p_id p \<notin> failedIds acks"
  proof
    assume "p_id p \<in> failedIds acks"
    then obtain p' r' where "(p', r') \<in> set acks" "p_id p' = p_id p"
      by (auto simp: failedIds_def)
    moreover from this ans have "p' \<in> set (lc_peers lc)"
      by (auto simp: answers_of_def getWritablePeers_def)
    ultimately show False
      using lc(2) p(1,3) by (metis distinct_map inj_onD fst_conv image_eqI)
  qed
  with run_state_step [OF _ lc(2) q _ n(2) p(1,2)] snoc.IH [OF ans] snoc.prems(2)
  show ?case by (fastforce simp: a writeRun_snoc)
qed

text \<open>
  The answers' callbacks hold the context; once all of them have run it is destroyed, and the
  futures library then fails the future of a promise that was never fulfilled
  (\<open>BrokenPromise\<close>). This is what the caller's future ends with.
\<close>

definition writeFuture :: "WriteCtx \<Rightarrow> exn + unit" where
  "writeFuture w = (case w_promise w of Some r \<Rightarrow> r | None \<Rightarrow> Inl OtherException)"

text \<open>All the peers that were sent the write have answered, in some order.\<close>

definition all_answered ::
  "'a PBMember_scheme \<Rightarrow> (PeerInfo \<times> (exn + KVBuffer)) list \<Rightarrow> bool" where
  "all_answered m acks \<longleftrightarrow> (\<exists>lc. leaderCtx m = Some lc \<and>
     distinct (map fst acks) \<and> set (map fst acks) = set (getWritablePeers (lc_peers lc)))"

lemma leader_ok_distinct:
  assumes "leader_ok m" and "leaderCtx m = Some lc"
  shows "distinct (map p_id (lc_peers lc))" and "length (lc_peers lc) < 2 ^ 32" and "0 < quorum m"
  using assms peers_known_length [of m lc]
  by (auto simp: leader_ok_def peers_known_def small_group_def)

lemma answered_run:
  assumes ok: "leader_ok m" and w: "writeToPeers type buffer m = Ok (w, sends)"
    and ans: "all_answered m acks"
  obtains lc w' m' where "leaderCtx m = Some lc" and "writeRun acks w m = Ok (w', m')"
    and "run_state m lc (length acks) acks w' m'" and "map fst sends = getWritablePeers (lc_peers lc)"
proof -
  from ans obtain lc where lc: "leaderCtx m = Some lc" and d: "distinct (map fst acks)"
    and s: "set (map fst acks) = set (getWritablePeers (lc_peers lc))"
    by (auto simp: all_answered_def)
  note ld = leader_ok_distinct [OF ok lc]
  from ld(1) have "distinct (getWritablePeers (lc_peers lc))"
    by (simp add: getWritablePeers_def distinct_map)
  with d s have len: "length acks = length (getWritablePeers (lc_peers lc))"
    by (metis distinct_card length_map)
  with ld(2) have small: "length acks < 2 ^ 32"
    by (metis getWritablePeers_def le_less_trans length_filter_le)
  from w lc len have w0: "w = \<lparr>w_nAcked = 0, w_nSuccess = 0, w_nPeers = of_nat (length acks), w_promise = None\<rparr>"
    and sends: "map fst sends = getWritablePeers (lc_peers lc)"
    by (auto simp: writeToPeers_def Let_def comp_def)
  have "answers_of (lc_peers lc) acks" using d s by (simp add: answers_of_def)
  from writeRun_run_state [OF lc ld(1,3) this order_refl small] lc sends that
  show ?thesis unfolding w0 by blast
qed

text \<open>
  C10. The fate of a group write once every peer has answered, in any order: the caller sees
  success exactly when the quorum is above one and the primary and the peers that succeeded are
  a quorum. Otherwise, if the last answer to arrive is a failure, the promise gets that failure;
  and in the remaining cases (a last answer that succeeded, no peers, or a quorum of one) the code
  never fulfils the promise, so that the caller gets a broken promise. In particular a group with
  a quorum of one can never complete a write, although the primary has applied it.
\<close>

theorem group_write_fate:
  assumes "leader_ok m" and "writeToPeers type buffer m = Ok (w, sends)" and "all_answered m acks"
  shows "\<exists>w' m'. writeRun acks w m = Ok (w', m') \<and>
    (let quorate = 1 < quorum m \<and> unat (quorum m) \<le> nSucceeded acks + 1
     in (writeFuture w' = Inr () \<longleftrightarrow> quorate) \<and>
        (\<forall>e. w_promise w' = Some (Inl e) \<longleftrightarrow> \<not> quorate \<and> acks \<noteq> [] \<and> snd (last acks) = Inl e) \<and>
        (w_promise w' = None \<longleftrightarrow>
           \<not> quorate \<and> (acks = [] \<or> (\<exists>kvb. snd (last acks) = Inr kvb))))"
proof -
  obtain lc w' m' where "writeRun acks w m = Ok (w', m')" "run_state m lc (length acks) acks w' m'"
    using answered_run [OF assms] by blast
  moreover from this(2) have "w_promise w' = promiseAfter (unat (quorum m)) (length acks) acks"
    by (simp add: run_state_def)
  moreover have "1 < quorum m \<longleftrightarrow> 1 < unat (quorum m)" by (simp add: word_less_nat_alt)
  ultimately show ?thesis
    by (auto simp: promiseAfter_def writeFuture_def Let_def split: sum.splits)
qed

definition sample_leader3 :: PBMember where
  "sample_leader3 = (PBMember_new 1 ''/r/1'' [''a'', ''b'', ''c''] ''a'' 3 0 0)
     \<lparr>leaderId := ''a'', mstate := LEADER_FUNCTIONAL,
      leaderCtx := Some \<lparr>lc_opId = - 1, lc_commitId = - 1,
        lc_peers = [\<lparr>p_id = ''b'', p_state = FOLLOWER_FUNCTIONAL, p_version = 0\<rparr>,
                    \<lparr>p_id = ''c'', p_state = FOLLOWER_FUNCTIONAL, p_version = 0\<rparr>]\<rparr>\<rparr>"

lemma sample_leader3_ok: "leader_ok sample_leader3"
  by (simp add: leader_ok_def peers_known_def quorum_consistent_def small_group_def nFunctional_def
      sample_leader3_def PBMember_new_def)

definition late_success :: "(PeerInfo \<times> (exn + KVBuffer)) list" where
  "late_success =
     [(\<lparr>p_id = ''b'', p_state = FOLLOWER_FUNCTIONAL, p_version = 0\<rparr>, Inl OtherException),
      (\<lparr>p_id = ''c'', p_state = FOLLOWER_FUNCTIONAL, p_version = 0\<rparr>, Inr KVBuffer_new)]"

lemma late_success_answered: "all_answered sample_leader3 late_success"
  by (auto simp: all_answered_def sample_leader3_def late_success_def getWritablePeers_def
      isWritable_def)

lemma sample_write3:
  "writeToPeers ''UpdateBlobMetaMsg'' [] sample_leader3 =
     Ok (\<lparr>w_nAcked = 0, w_nSuccess = 0, w_nPeers = 2, w_promise = None\<rparr>,
         map (\<lambda>a. (fst a, peerRequest ''UpdateBlobMetaMsg'' [])) late_success)"
  by (simp add: writeToPeers_def sample_leader3_def late_success_def getWritablePeers_def
      isWritable_def Let_def)

theorem group_write_fate_witness:
  "\<exists>w' m'. writeRun late_success
      \<lparr>w_nAcked = 0, w_nSuccess = 0, w_nPeers = 2, w_promise = None\<rparr> sample_leader3 = Ok (w', m') \<and>
    w_promise w' = None"
  using group_write_fate [OF sample_leader3_ok sample_write3 late_success_answered]
  by (simp add: nSucceeded_def late_success_def sample_leader3_def PBMember_new_def Let_def)
    blast

text \<open>
  With a quorum of two and a writable peer, the code itself always completes the write's
  promise: with success if any peer succeeds, and with a peer's failure otherwise.
\<close>

theorem write_completes_quorum_two:
  assumes "leader_ok m" and "writeToPeers type buffer m = Ok (w, sends)" and "all_answered m acks"
    and "quorum m = 2" and "acks \<noteq> []"
  shows "\<exists>w' m' r. writeRun acks w m = Ok (w', m') \<and> w_promise w' = Some r \<and>
    (r = Inr () \<longleftrightarrow> (\<exists>p kvb. (p, Inr kvb) \<in> set acks))"
proof -
  obtain lc w' m' where run: "writeRun acks w m = Ok (w', m')" "run_state m lc (length acks) acks w' m'"
    using answered_run [OF assms(1-3)] by blast
  have succ: "1 \<le> nSucceeded acks \<longleftrightarrow> (\<exists>p kvb. (p, Inr kvb) \<in> set acks)"
    by (auto simp: nSucceeded_def Suc_le_eq filter_empty_conv isl_def) (metis old.sum.exhaust)+
  from assms(4) run(2) have p: "w_promise w' = promiseAfter 2 (length acks) acks"
    by (simp add: run_state_def)
  show ?thesis
  proof (cases "\<exists>p kvb. (p, Inr kvb) \<in> set acks")
    case True
    with p succ run(1) show ?thesis by (simp add: promiseAfter_def)
  next
    case False
    have "last acks \<in> set acks" using assms(5) by simp
    with False obtain e where "snd (last acks) = Inl e"
      by (metis old.sum.exhaust prod.collapse)
    with False p succ run(1) assms(5) show ?thesis by (simp add: promiseAfter_def)
  qed
qed

text \<open>
  C15. What a write does to the group: every peer whose answer was a failure stops being
  functional and every other peer stays as it was, whatever the order of the answers, and the
  leader goes on accepting writes exactly if the functional peers that remain and itself are a
  quorum.
\<close>

theorem group_write_demotes_failed:
  assumes "leader_ok m" and "writeToPeers type buffer m = Ok (w, sends)" and "all_answered m acks"
    and "leaderCtx m = Some lc"
  shows "\<exists>w' m'. writeRun acks w m = Ok (w', m') \<and>
    leaderCtx m' = Some (lc\<lparr>lc_peers := map (\<lambda>p. if (\<exists>e. (p, Inl e) \<in> set acks)
      then p\<lparr>p_state := FOLLOWER_WAIT_TO_JOIN_GROUP\<rparr> else p) (lc_peers lc)\<rparr>) \<and>
    (mstate m' = LEADER_FUNCTIONAL \<longleftrightarrow>
       unat (quorum m) \<le>
         length (filter (\<lambda>p. p_state p = FOLLOWER_FUNCTIONAL \<and> (\<forall>e. (p, Inl e) \<notin> set acks))
           (lc_peers lc)) + 1)"
proof -
  obtain w' m' where run: "writeRun acks w m = Ok (w', m')" "run_state m lc (length acks) acks w' m'"
    using answered_run [OF assms(1-3)] assms(4) by (metis option.inject)
  let ?f = "\<lambda>p. \<exists>e. (p, Inl e) \<in> set acks"
  have failed: "p_id p \<in> failedIds acks \<longleftrightarrow> ?f p" if "p \<in> set (lc_peers lc)" for p
  proof
    assume "p_id p \<in> failedIds acks"
    then obtain p' e where p': "(p', Inl e) \<in> set acks" "p_id p' = p_id p"
      by (auto simp: failedIds_def isl_def)
    then have "p' \<in> set (lc_peers lc)"
      using assms(3,4) by (force simp: all_answered_def getWritablePeers_def)
    with p'(2) that leader_ok_distinct(1) [OF assms(1,4)] have "p' = p"
      by (metis distinct_map inj_onD)
    with p'(1) show "?f p" by blast
  qed (force simp: failedIds_def)
  then have "map (demote (failedIds acks)) (lc_peers lc) =
      map (\<lambda>p. if ?f p then p\<lparr>p_state := FOLLOWER_WAIT_TO_JOIN_GROUP\<rparr> else p) (lc_peers lc)"
    by (simp add: demote_def)
  moreover have "quorum_consistent m'"
    using leaderI.steps_inv [OF _ assms(1)] run(2) by (auto simp: run_state_def leader_ok_def)
  moreover have "nFunctional (map (demote (failedIds acks)) (lc_peers lc)) =
      length (filter (\<lambda>p. p_state p = FOLLOWER_FUNCTIONAL \<and> \<not> ?f p) (lc_peers lc))"
    using failed by (auto simp: nFunctional_def filter_map demote_def comp_def
        intro!: arg_cong [of _ _ length] filter_cong)
  ultimately show ?thesis
    using run quorum_consistentD [of m'] by (auto simp: run_state_def)
qed

theorem group_write_demotes_failed_witness:
  "\<exists>w' m'. writeRun late_success
      \<lparr>w_nAcked = 0, w_nSuccess = 0, w_nPeers = 2, w_promise = None\<rparr> sample_leader3 = Ok (w', m') \<and>
    mstate m' \<noteq> LEADER_FUNCTIONAL"
  using group_write_demotes_failed [OF sample_leader3_ok sample_write3 late_success_answered]
  by (fastforce simp: late_success_def sample_leader3_def PBMember_new_def)

theorem write_completes_quorum_two_witness:
  "\<exists>w' m' r. writeRun [(\<lparr>p_id = ''b'', p_state = FOLLOWER_FUNCTIONAL, p_version = 0\<rparr>, Inr KVBuffer_new)]
      \<lparr>w_nAcked = 0, w_nSuccess = 0, w_nPeers = 1, w_promise = None\<rparr> sample_leader = Ok (w', m') \<and>
    w_promise w' = Some r \<and> r = Inr ()"
proof -
  let ?p = "\<lparr>p_id = ''b'', p_state = FOLLOWER_FUNCTIONAL, p_version = 0\<rparr>"
  have "writeToPeers ''UpdateBlobMetaMsg'' [] sample_leader =
      Ok (\<lparr>w_nAcked = 0, w_nSuccess = 0, w_nPeers = 1, w_promise = None\<rparr>,
          [(?p, peerRequest ''UpdateBlobMetaMsg'' [])])"
    by (simp add: writeToPeers_def sample_leader_def getWritablePeers_def isWritable_def Let_def)
  moreover have "all_answered sample_leader [(?p, Inr KVBuffer_new)]"
    by (auto simp: all_answered_def sample_leader_def getWritablePeers_def isWritable_def)
  moreover have "leader_ok sample_leader"
    using leaderI.init_inv [OF sample_leader_starts] .
  ultimately show ?thesis
    using write_completes_quorum_two [of sample_leader "''UpdateBlobMetaMsg''" "[]" _ _
        "[(?p, Inr KVBuffer_new)]"]
    by (fastforce simp: sample_leader_def PBMember_new_def)
qed

end
