(* ===== verification/Message_Dispatch.thy ===== *)
theory Message_Dispatch
  imports Datom_Types
begin

section \<open>Messages between services: \<open>src/infra/MessageUtils.tcc\<close>, \<open>src/infra/Service.cpp\<close>\<close>

text \<open>
  A message travels as a \<open>KVBuffer\<close> whose \<open>type\<close> property is the name of its struct and whose
  payload is the struct in the generated binary encoding. \<open>ServiceApiHandler\<close> keeps a table from
  type names to handlers; \<open>kvbHandler\<close> and \<open>kvbOnewayHandler\<close> turn a function on structs into
  such a handler. A handler runs on a state \<open>'s\<close>, may start effects \<open>'e\<close>, and answers \<open>Inr\<close> a
  buffer or \<open>Inl\<close> an exception carried by the future; \<open>Throw\<close> is an exception thrown before a
  future exists. The encodings are generated code and arguments here.
\<close>

type_synonym ('s, 'e) kvb_handler = "KVBuffer \<Rightarrow> 's \<Rightarrow> ('s \<times> 'e list \<times> (exn + KVBuffer)) outcome"

text \<open>\<open>ServiceApiHandler\<close>.\<close>

definition getModuleState :: "(string \<times> string) list \<Rightarrow> string" where
  "getModuleState arguments = ''ok''"

definition registerKVBMessageHandler ::
  "string \<Rightarrow> ('s, 'e) kvb_handler \<Rightarrow> (string \<times> ('s, 'e) kvb_handler) list \<Rightarrow>
    (string \<times> ('s, 'e) kvb_handler) list" where
  "registerKVBMessageHandler type h hs = AList.update type h hs"

definition handleKVBMessage :: "(string \<times> ('s, 'e) kvb_handler) list \<Rightarrow> ('s, 'e) kvb_handler" where
  "handleKVBMessage hs message s =
     obind (getType message) (\<lambda>type.
       case map_of hs type of
         None \<Rightarrow> Throw OtherException
       | Some h \<Rightarrow> h message s)"

text \<open>
  \<open>KVBHandler\<close> moves the payload to \<open>threadLocalBuffer\<close>, from where the handler may take it: it
  is the second argument of the handler here.
\<close>

definition kvbHandler ::
  "(bytes \<Rightarrow> 'req option) \<Rightarrow> ('resp \<Rightarrow> bytes) \<Rightarrow> string \<Rightarrow>
    ('req \<Rightarrow> bytes \<Rightarrow> 's \<Rightarrow> ('s \<times> 'e list \<times> (exn + 'resp)) outcome) \<Rightarrow> ('s, 'e) kvb_handler" where
  "kvbHandler parse ser respType handler kvb s =
     obind (getPayload parse kvb) (\<lambda>req.
     case kv_payload kvb of
       None \<Rightarrow> Abort
     | Some buffer \<Rightarrow>
         obind (handler req buffer s) (\<lambda>(s1, effs, r).
         Ok (s1, effs, case r of
               Inl e \<Rightarrow> Inl e
             | Inr resp \<Rightarrow> Inr (setType (setPayload ser KVBuffer_new resp) respType))))"

definition kvbOnewayHandler ::
  "(bytes \<Rightarrow> 'req option) \<Rightarrow> ('req \<Rightarrow> 's \<Rightarrow> ('s \<times> 'e list) outcome) \<Rightarrow> ('s, 'e) kvb_handler" where
  "kvbOnewayHandler parse handler kvb s =
     obind (getPayload parse kvb) (\<lambda>req.
     obind (handler req s) (\<lambda>(s1, effs).
     Ok (s1, effs, Inr (setType KVBuffer_new ''Unit''))))"

text \<open>
  The buffer \<open>sendKVBMessage\<close> sends, and what it makes of the answer: an exception while decoding is
  one of the future, a null payload is dereferenced.
\<close>

definition requestKvb :: "string \<Rightarrow> ('req \<Rightarrow> bytes) \<Rightarrow> 'req \<Rightarrow> KVBuffer" where
  "requestKvb type ser req = setPayload ser (setType KVBuffer_new type) req"

definition responseOf :: "(bytes \<Rightarrow> 'resp option) \<Rightarrow> KVBuffer \<Rightarrow> (exn + 'resp) outcome" where
  "responseOf parse kvb =
     (case getPayload parse kvb of Ok r \<Rightarrow> Ok (Inr r) | Throw e \<Rightarrow> Ok (Inl e) | Abort \<Rightarrow> Abort)"

lemma getType_requestKvb [simp]: "getType (requestKvb type ser req) = Ok type"
  by (simp add: requestKvb_def kvb_simps)

lemma getPayload_requestKvb: "parse (ser req) = Some req \<Longrightarrow>
    getPayload parse (requestKvb type ser req) = Ok req"
  by (simp add: requestKvb_def kvb_simps)

lemma payload_requestKvb [simp]: "kv_payload (requestKvb type ser req) = Some (ser req)"
  by (simp add: requestKvb_def setPayload_def)

lemma payload_setType [simp]: "getPayload parse (setType kvb t) = getPayload parse kvb"
  by (simp add: getPayload_def)

lemma registered_last:
  "map_of (registerKVBMessageHandler type h hs) t = (if t = type then Some h else map_of hs t)"
  by (simp add: registerKVBMessageHandler_def update_conv')

text \<open>
  C27. Sending a request of a registered type is calling the handler: the handler gets the very
  struct that was sent, with its encoding, and the caller decodes the very response the handler
  gave; registering another handler for another type does not change that, and a type nobody
  registered is refused before anything happens.
\<close>

theorem request_reaches_handler:
  assumes "parse (ser req) = Some req" and "\<forall>resp. parseResp (serResp resp) = Some resp"
    and "other \<noteq> type" and "t \<notin> fst ` set hs" and "t \<noteq> type" and "t \<noteq> other"
  shows "let hs' = registerKVBMessageHandler other g
        (registerKVBMessageHandler type (kvbHandler parse serResp respType h) hs)
    in (case handleKVBMessage hs' (requestKvb type ser req) s of
        Ok (s1, effs, r) \<Rightarrow> obind (case r of Inl e \<Rightarrow> Ok (Inl e) | Inr kvb \<Rightarrow> responseOf parseResp kvb)
          (\<lambda>x. Ok (s1, effs, x))
      | Throw e \<Rightarrow> Throw e | Abort \<Rightarrow> Abort) = h req (ser req) s \<and>
    handleKVBMessage hs' (requestKvb t ser req) s = Throw OtherException"
proof -
  let ?hs = "registerKVBMessageHandler other g
        (registerKVBMessageHandler type (kvbHandler parse serResp respType h) hs)"
  have "map_of hs t = None" using assms(4) by (simp add: map_of_eq_None_iff)
  then have "handleKVBMessage ?hs (requestKvb t ser req) s = Throw OtherException"
    using assms(5,6) by (simp add: handleKVBMessage_def registered_last)
  moreover have "handleKVBMessage ?hs (requestKvb type ser req) s =
      kvbHandler parse serResp respType h (requestKvb type ser req) s"
    using assms(3) by (auto simp: handleKVBMessage_def registered_last)
  ultimately show ?thesis
    using assms(1,2)
    by (cases "h req (ser req) s")
      (auto simp: kvbHandler_def getPayload_requestKvb responseOf_def getPayload_setPayload
        split: sum.splits)
qed

theorem request_reaches_handler_witness:
  "(case handleKVBMessage (registerKVBMessageHandler ''B'' (\<lambda>_ _. Abort)
        (registerKVBMessageHandler ''A''
          (kvbHandler (Some :: bytes \<Rightarrow> bytes option) (id :: bytes \<Rightarrow> bytes) ''R''
            (\<lambda>req buf n. Ok (n + 1, [()], Inr (req @ buf)))) [])) (requestKvb ''A'' id [1, 2]) (7 :: nat) of
        Ok (s1, effs, r) \<Rightarrow> obind (case r of Inl e \<Rightarrow> Ok (Inl e) | Inr kvb \<Rightarrow> responseOf Some kvb)
          (\<lambda>x. Ok (s1, effs, x))
      | Throw e \<Rightarrow> Throw e | Abort \<Rightarrow> Abort) = Ok (8, [()], Inr [1, 2, 1, 2])"
  using request_reaches_handler [of "Some :: bytes \<Rightarrow> bytes option" id "[1, 2]" Some id "''B''" "''A''"
      "''C''" "[]" "\<lambda>_ _. Abort" "''R''" "\<lambda>req buf n. Ok (n + 1, [()], Inr (req @ buf))" "7 :: nat"]
  by (simp add: Let_def)

end
