(* ===== verification/Volume_Replica.thy ===== *)
theory Volume_Replica
  imports PB_Write Journal Volume_Meta_Db
begin

section \<open>A volume replica: \<open>src/volumeserver/VolumeServer.h\<close>, \<open>.tcc\<close> and \<open>.cpp\<close>\<close>

text \<open>
  \<open>VolumeReplica\<close> is a \<open>PBMember\<close> with a metadata database and a journal: the record extends
  \<open>PBMember\<close> as the class does. A metadata write goes to the journal first and to the database
  second, and is rolled back in the journal when the database refuses it. The database is
  RocksDB (\<open>rocksdb\<close>, an argument, see \<open>Volume_Meta_Db\<close>); \<open>ser\<close> is the generated serializer of
  \<open>UpdateBlobMetaMsg\<close>. The only instance of the templates is \<open>UpdateBlobMetaMsg\<close>.
\<close>

record 'db VolumeReplica = PBMember +
  vr_db :: 'db
  vr_journal :: Journal

definition VolumeReplica_new ::
  "'db rocksdb \<Rightarrow> folly_ops \<Rightarrow> string \<Rightarrow> string \<Rightarrow> string \<Rightarrow> string list \<Rightarrow> 32 word \<Rightarrow> VolumeInfo \<Rightarrow>
    int \<Rightarrow> int \<Rightarrow> 'db VolumeReplica outcome" where
  "VolumeReplica_new R f datasphere me volumesPath members q info anyVersion anyOpId =
     obind (VolumeMetaDb_init R (volumesPath @ ''/'' @ of_int64 f (vi_id info) @ ''_db''))
       (\<lambda>db. Ok (PBMember.extend
          (PBMember_new (vi_id info)
             (PB_SPHERE_RESOURCE_ROOT_PATH f datasphere PB_VOLUMES_TYPE (vi_id info))
             members me q anyVersion anyOpId)
          \<lparr>vr_db = db, vr_journal = []\<rparr>))"

subsection \<open>Metadata writes\<close>

definition UPDATE_BLOB_META :: string where "UPDATE_BLOB_META = ''UpdateBlobMetaMsg''"

text \<open>
  The result is the state and either the exception thrown or the (empty) response.
\<close>

definition handleMetadataWrite ::
  "'db rocksdb \<Rightarrow> UpdateBlobMetaMsg \<Rightarrow> bytes \<Rightarrow> ('db, 'a) VolumeReplica_scheme \<Rightarrow>
    (('db, 'a) VolumeReplica_scheme \<times> (exn + unit)) outcome" where
  "handleMetadataWrite R msg buffer r =
     (case addEntry (ub_commitId msg) UPDATE_BLOB_META buffer (vr_journal r) of
        (s, j1) \<Rightarrow>
          if s \<noteq> STATUS_OK then Ok (r\<lparr>vr_journal := j1\<rparr>, Inl (StatusException s))
          else
            (case applyUpdate R msg (vr_db r) of
               (s2, db1) \<Rightarrow>
                 if s2 \<noteq> STATUS_OK
                 then obind (removeLastEntry j1)
                        (\<lambda>j2. Ok (r\<lparr>vr_journal := j2, vr_db := db1\<rparr>, Inl (StatusException s2)))
                 else Ok (r\<lparr>vr_journal := j1, vr_db := db1\<rparr>, Inr ())))"

definition setIds :: "int \<Rightarrow> int \<Rightarrow> UpdateBlobMetaMsg \<Rightarrow> UpdateBlobMetaMsg" where
  "setIds op commit msg = msg\<lparr>ub_opId := op, ub_commitId := commit\<rparr>"

definition updateBlobMeta ::
  "'db rocksdb \<Rightarrow> (UpdateBlobMetaMsg \<Rightarrow> bytes) \<Rightarrow> UpdateBlobMetaMsg \<Rightarrow>
    ('db, 'a) VolumeReplica_scheme \<Rightarrow>
    (('db, 'a) VolumeReplica_scheme \<times> (exn + unit \<times> WriteCtx \<times> (PeerInfo \<times> KVBuffer) list)) outcome" where
  "updateBlobMeta R ser msg r =
     groupWriteInEb UPDATE_BLOB_META setIds ser (handleMetadataWrite R) msg r"

text \<open>\<open>updateBlob\<close> answers an empty response at once; nothing is stored. \<open>applyResourceUpdate\<close> is empty.\<close>

definition updateBlob ::
  "unit \<Rightarrow> ('db, 'a) VolumeReplica_scheme \<Rightarrow> ('db, 'a) VolumeReplica_scheme \<times> (exn + unit)" where
  "updateBlob msg r = (r, Inr ())"

definition applyResourceUpdate ::
  "KVBuffer \<Rightarrow> ('db, 'a) VolumeReplica_scheme \<Rightarrow> ('db, 'a) VolumeReplica_scheme" where
  "applyResourceUpdate kvb r = r"

subsection \<open>The write-ahead contract between the journal and the database\<close>

locale write_ahead =
  fixes append :: "'k \<Rightarrow> 'l \<Rightarrow> status \<times> 'l"
    and undo :: "'l \<Rightarrow> 'l outcome"
    and apply_db :: "'e \<Rightarrow> 'd \<Rightarrow> status \<times> 'd"
    and log_ok :: "'l \<Rightarrow> bool"
    and db_ok :: "'d \<Rightarrow> bool"
    and view :: "'d \<Rightarrow> 'v"
    and step :: "'e \<Rightarrow> 'v \<Rightarrow> 'v"
  assumes append_ok: "log_ok l \<Longrightarrow> log_ok (snd (append k l))"
    and append_fail: "fst (append k l) \<noteq> STATUS_OK \<Longrightarrow> snd (append k l) = l"
    and undo_append: "fst (append k l) = STATUS_OK \<Longrightarrow> undo (snd (append k l)) = Ok l"
    and apply_ok: "db_ok d \<Longrightarrow> fst (apply_db e d) = STATUS_OK \<Longrightarrow>
      db_ok (snd (apply_db e d)) \<and> view (snd (apply_db e d)) = step e (view d)"
    and apply_fail: "fst (apply_db e d) \<noteq> STATUS_OK \<Longrightarrow> snd (apply_db e d) = d"
begin

text \<open>Append first, apply second, undo on failure: both happen or neither does.\<close>

lemma both_or_neither:
  assumes "db_ok d"
  obtains (rejected) "fst (append k l) \<noteq> STATUS_OK" and "snd (append k l) = l"
  | (undone) "fst (append k l) = STATUS_OK" and "fst (apply_db e d) \<noteq> STATUS_OK"
      and "snd (apply_db e d) = d" and "undo (snd (append k l)) = Ok l"
  | (done_) "fst (append k l) = STATUS_OK" and "fst (apply_db e d) = STATUS_OK"
      and "db_ok (snd (apply_db e d))" and "view (snd (apply_db e d)) = step e (view d)"
  using assms append_fail undo_append apply_ok apply_fail by metis

lemma append_run_ok: "log_ok l \<Longrightarrow> log_ok (fold (\<lambda>k l. snd (append k l)) ks l)"
  by (induction ks arbitrary: l) (auto intro: append_ok)

end

text \<open>The model's journal and database meet the contract, for every database that meets its own.\<close>

definition journal_append :: "int \<times> bytes \<Rightarrow> Journal \<Rightarrow> status \<times> Journal" where
  "journal_append k js = addEntry (fst k) UPDATE_BLOB_META (snd k) js"

interpretation wa: write_ahead journal_append removeLastEntry "applyUpdate R" journal_wf
  "\<lambda>db. rocksdb_ok R \<and> rdb_inv R db" "blob_view R" upd_view for R
proof unfold_locales
  show "removeLastEntry (snd (journal_append k js)) = Ok js"
    if "fst (journal_append k js) = STATUS_OK" for k js
    using that removeLastEntry_addEntry by (metis journal_append_def prod.collapse)
  show "(rocksdb_ok R \<and> rdb_inv R (snd (applyUpdate R e d))) \<and>
      blob_view R (snd (applyUpdate R e d)) = upd_view e (blob_view R d)"
    if "rocksdb_ok R \<and> rdb_inv R d" "fst (applyUpdate R e d) = STATUS_OK" for e d
    using that applyUpdate_view(1) applyUpdate_blob_view by (metis prod.collapse)
  show "snd (applyUpdate R e d) = d" if "fst (applyUpdate R e d) \<noteq> STATUS_OK" for e d
    using that applyUpdate_fail by (metis prod.collapse)
qed (simp_all add: journal_append_def addEntry_wf addEntry_reject)

subsection \<open>A metadata write, whole\<close>

text \<open>What \<open>handleMetadataWrite\<close> accepts, and what it then does.\<close>

definition in_sequence :: "UpdateBlobMetaMsg \<Rightarrow> Journal \<Rightarrow> bool" where
  "in_sequence msg js \<longleftrightarrow> js = [] \<or> ub_commitId msg = jr_id (last js) + 1"

definition record_of :: "UpdateBlobMetaMsg \<Rightarrow> bytes \<Rightarrow> JournalRecord" where
  "record_of msg buffer = \<lparr>jr_id = ub_commitId msg, jr_type = UPDATE_BLOB_META, jr_buf = buffer\<rparr>"

lemma handleMetadataWrite_eq:
  "handleMetadataWrite R msg buffer r =
     (if \<not> in_sequence msg (vr_journal r) then Ok (r, Inl (StatusException STATUS_INVALID_COMMIT))
      else (case rdb_write R (vr_db r) (updateBatch msg) of
              None \<Rightarrow> Ok (r, Inl (StatusException STATUS_DB_WRITE_FAILURE))
            | Some db' \<Rightarrow> Ok (r\<lparr>vr_journal := vr_journal r @ [record_of msg buffer], vr_db := db'\<rparr>, Inr ())))"
  by (auto simp: handleMetadataWrite_def addEntry_def in_sequence_def record_of_def applyUpdate_def
      removeLastEntry_def split: option.splits)

text \<open>
  The database is the replay of the journal over a base: every record is a message the replica
  accepted, in order.
\<close>

definition replays ::
  "'db rocksdb \<Rightarrow> (bytes \<Rightarrow> UpdateBlobMetaMsg option) \<Rightarrow>
    (64 word \<Rightarrow> 64 word \<Rightarrow> bytes option) \<Rightarrow> ('db, 'a) VolumeReplica_scheme \<Rightarrow> bool" where
  "replays R parse base r \<longleftrightarrow> rdb_inv R (vr_db r) \<and> journal_wf (vr_journal r) \<and>
     (\<exists>msgs. map (parse \<circ> jr_buf) (vr_journal r) = map Some msgs \<and>
        map jr_id (vr_journal r) = map ub_commitId msgs \<and>
        blob_view R (vr_db r) = fold upd_view msgs base)"

lemma write_replays:
  assumes "rocksdb_ok R" and "replays R parse base r" and "parse buffer = Some msg"
    and "handleMetadataWrite R msg buffer r = Ok (r', res)"
  shows "replays R parse base r'"
proof (cases "in_sequence msg (vr_journal r) \<and> rdb_write R (vr_db r) (updateBatch msg) \<noteq> None")
  case False
  with assms(2,4) show ?thesis by (auto simp: handleMetadataWrite_eq split: if_splits option.splits)
next
  case True
  then obtain db' where w: "rdb_write R (vr_db r) (updateBatch msg) = Some db'" by blast
  from assms(2) obtain msgs where inv: "rdb_inv R (vr_db r)" "journal_wf (vr_journal r)"
    and msgs: "map (parse \<circ> jr_buf) (vr_journal r) = map Some msgs"
      "map jr_id (vr_journal r) = map ub_commitId msgs"
      "blob_view R (vr_db r) = fold upd_view msgs base"
    by (auto simp: replays_def)
  have r': "r' = r\<lparr>vr_journal := vr_journal r @ [record_of msg buffer], vr_db := db'\<rparr>"
    using assms(4) True w by (simp add: handleMetadataWrite_eq)
  have upd: "applyUpdate R msg (vr_db r) = (STATUS_OK, db')"
    using w by (simp add: applyUpdate_def)
  have "journal_wf (vr_journal r')"
    using inv(2) True by (auto simp: r' journal_wf_def successively_append_last in_sequence_def record_of_def)
  moreover have "rdb_inv R db'" "blob_view R db' = upd_view msg (blob_view R (vr_db r))"
    using applyUpdate_view(1) [OF assms(1) inv(1) upd] applyUpdate_blob_view [OF assms(1) inv(1) upd]
    by simp_all
  moreover have "map (parse \<circ> jr_buf) (vr_journal r') = map Some (msgs @ [msg])"
    "map jr_id (vr_journal r') = map ub_commitId (msgs @ [msg])"
    using msgs assms(3) by (simp_all add: r' record_of_def)
  ultimately have "rdb_inv R (vr_db r') \<and> journal_wf (vr_journal r') \<and>
      map (parse \<circ> jr_buf) (vr_journal r') = map Some (msgs @ [msg]) \<and>
      map jr_id (vr_journal r') = map ub_commitId (msgs @ [msg]) \<and>
      blob_view R (vr_db r') = fold upd_view (msgs @ [msg]) base"
    using msgs(3) by (simp add: r')
  then show ?thesis unfolding replays_def by blast
qed

text \<open>The writes a replica is given, in order: messages with their encodings.\<close>

fun writes_run ::
  "'db rocksdb \<Rightarrow> (UpdateBlobMetaMsg \<times> bytes) list \<Rightarrow> ('db, 'a) VolumeReplica_scheme \<Rightarrow>
    (('db, 'a) VolumeReplica_scheme \<times> (exn + unit) list) outcome" where
  "writes_run R [] r = Ok (r, [])"
| "writes_run R ((msg, buffer) # ws) r =
     obind (handleMetadataWrite R msg buffer r) (\<lambda>(r1, x).
     obind (writes_run R ws r1) (\<lambda>(r2, xs). Ok (r2, x # xs)))"

text \<open>The writes that were accepted.\<close>

definition accepted :: "(UpdateBlobMetaMsg \<times> bytes) list \<Rightarrow> (exn + unit) list \<Rightarrow> UpdateBlobMetaMsg list" where
  "accepted ws xs = map (fst \<circ> fst) (filter (\<lambda>(w, x). x = Inr ()) (zip ws xs))"

lemma writes_run_journal:
  "writes_run R ws r = Ok (r', xs) \<Longrightarrow>
     length xs = length ws \<and>
     map jr_id (vr_journal r') = map jr_id (vr_journal r) @ map ub_commitId (accepted ws xs)"
proof (induction ws arbitrary: r xs)
  case (Cons w ws)
  obtain msg buffer where w: "w = (msg, buffer)" by (cases w)
  from Cons.prems obtain r1 x xs' where step: "handleMetadataWrite R msg buffer r = Ok (r1, x)"
    and rest: "writes_run R ws r1 = Ok (r', xs')" and xs: "xs = x # xs'"
    by (auto simp: w obind_Ok_iff)
  from step have "map jr_id (vr_journal r1) =
      map jr_id (vr_journal r) @ (if x = Inr () then [ub_commitId msg] else [])"
    by (auto simp: handleMetadataWrite_eq record_of_def split: if_splits option.splits)
  with Cons.IH [OF rest] show ?case by (auto simp: xs w accepted_def)
qed (simp add: accepted_def)

lemma writes_run_view:
  "rocksdb_ok R \<Longrightarrow> rdb_inv R (vr_db r) \<Longrightarrow> writes_run R ws r = Ok (r', xs) \<Longrightarrow>
     rdb_inv R (vr_db r') \<and>
     blob_view R (vr_db r') = fold upd_view (accepted ws xs) (blob_view R (vr_db r))"
proof (induction ws arbitrary: r xs)
  case (Cons w ws)
  obtain msg buffer where w: "w = (msg, buffer)" by (cases w)
  from Cons.prems(3) obtain r1 x xs' where step: "handleMetadataWrite R msg buffer r = Ok (r1, x)"
    and rest: "writes_run R ws r1 = Ok (r', xs')" and xs: "xs = x # xs'"
    by (auto simp: w obind_Ok_iff)
  have "rdb_inv R (vr_db r1) \<and> blob_view R (vr_db r1) =
      (if x = Inr () then upd_view msg (blob_view R (vr_db r)) else blob_view R (vr_db r))"
  proof (cases "x = Inr ()")
    case True
    with step have "applyUpdate R msg (vr_db r) = (STATUS_OK, vr_db r1)"
      by (auto simp: handleMetadataWrite_eq applyUpdate_def split: if_splits option.splits)
    with True applyUpdate_view(1) [OF Cons.prems(1,2)] applyUpdate_blob_view [OF Cons.prems(1,2)]
    show ?thesis by simp
  next
    case False
    with step Cons.prems(2) show ?thesis
      by (auto simp: handleMetadataWrite_eq split: if_splits option.splits)
  qed
  with Cons.IH [OF Cons.prems(1) _ rest] show ?case
    by (auto simp: xs w accepted_def)
qed (simp add: accepted_def)

text \<open>
  C11. A metadata write is all or nothing, in the journal and in the database: it is refused with
  \<open>STATUS_INVALID_COMMIT\<close> when its commit id does not follow the journal, with
  \<open>STATUS_DB_WRITE_FAILURE\<close> when the database refuses it, and then neither changes; otherwise the
  journal gains exactly this record, every chunk of the message is stored and no other chunk
  changes.
\<close>

theorem metadata_write_all_or_nothing:
  assumes "rocksdb_ok R" and "rdb_inv R (vr_db r)"
  shows "\<exists>r' res. handleMetadataWrite R msg buffer r = Ok (r', res) \<and>
    (\<not> in_sequence msg (vr_journal r) \<and> res = Inl (StatusException STATUS_INVALID_COMMIT) \<and> r' = r \<or>
     in_sequence msg (vr_journal r) \<and> res = Inl (StatusException STATUS_DB_WRITE_FAILURE) \<and> r' = r \<or>
     in_sequence msg (vr_journal r) \<and> res = Inr () \<and>
       vr_journal r' = vr_journal r @ [record_of msg buffer] \<and>
       blob_view R (vr_db r') = upd_view msg (blob_view R (vr_db r)))"
proof -
  let ?k = "(ub_commitId msg, buffer)"
  from assms have "rocksdb_ok R \<and> rdb_inv R (vr_db r)" by simp
  then show ?thesis
  proof (cases rule: wa.both_or_neither [where k = ?k and l = "vr_journal r" and e = msg])
    case rejected
    then show ?thesis
      by (auto simp: handleMetadataWrite_def journal_append_def addEntry_def in_sequence_def
          split: if_splits)
  next
    case undone
    then show ?thesis
      by (auto simp: handleMetadataWrite_def journal_append_def addEntry_def in_sequence_def
          applyUpdate_def split: if_splits option.splits)
  next
    case done_
    then show ?thesis
      by (auto simp: handleMetadataWrite_def journal_append_def addEntry_def in_sequence_def
          record_of_def split: if_splits prod.splits)
  qed
qed

definition sample_replica :: "(bytes, bytes) smap VolumeReplica" where
  "sample_replica = PBMember.extend (PBMember_new 1 ''/r/1'' [''a'', ''b''] ''b'' 2 0 0)
     \<lparr>vr_db = [], vr_journal = []\<rparr>"

theorem metadata_write_all_or_nothing_witness:
  "\<exists>r'. handleMetadataWrite mem_db sample_update [9] sample_replica = Ok (r', Inr ()) \<and>
     map jr_id (vr_journal r') = [0] \<and> blob_view mem_db (vr_db r') 3 256 = Some [2]"
proof -
  have "rdb_inv mem_db (vr_db sample_replica)"
    by (simp add: mem_db_def sample_replica_def PBMember.extend_def PBMember_new_def)
  from metadata_write_all_or_nothing [OF mem_db_ok this, of sample_update "[9]"]
  obtain r' res where r': "handleMetadataWrite mem_db sample_update [9] sample_replica = Ok (r', res)"
    "res = Inr () \<Longrightarrow> vr_journal r' = vr_journal sample_replica @ [record_of sample_update [9]] \<and>
       blob_view mem_db (vr_db r') = upd_view sample_update (blob_view mem_db (vr_db sample_replica))"
    by auto
  moreover from r'(1) have "res = Inr ()"
    by (auto simp: handleMetadataWrite_eq sample_replica_def PBMember.extend_def PBMember_new_def
        in_sequence_def mem_db_def)
  ultimately show ?thesis
    by (auto simp: sample_replica_def PBMember.extend_def PBMember_new_def record_of_def
        sample_update_def upd_view_def)
qed

text \<open>
  Replicas that accept the same writes hold the same data: whatever writes two replicas are
  given, with whatever failures, if they start with equal contents and accept the same messages
  then their contents are equal and they have added the same commit ids to their journals, and
  the contents are the accepted updates applied in order.
\<close>

theorem same_writes_same_data:
  assumes "rocksdb_ok R" and "rocksdb_ok S" and "rdb_inv R (vr_db r)" and "rdb_inv S (vr_db s)"
    and "blob_view R (vr_db r) = blob_view S (vr_db s)"
    and "writes_run R ws r = Ok (r', xs)" and "writes_run S vs s = Ok (s', ys)"
    and "accepted ws xs = accepted vs ys"
  shows "blob_view R (vr_db r') = blob_view S (vr_db s') \<and>
    blob_view R (vr_db r') = fold upd_view (accepted ws xs) (blob_view R (vr_db r)) \<and>
    (\<exists>ids. map jr_id (vr_journal r') = map jr_id (vr_journal r) @ ids \<and>
           map jr_id (vr_journal s') = map jr_id (vr_journal s) @ ids)"
  using assms(5,8) writes_run_view [OF assms(1,3,6)] writes_run_view [OF assms(2,4,7)]
    writes_run_journal [OF assms(6)] writes_run_journal [OF assms(7)] by simp

theorem same_writes_same_data_witness:
  "\<exists>r' s' xs ys. writes_run mem_db [(sample_update, [9])] sample_replica = Ok (r', xs) \<and>
     writes_run mem_db [(sample_update, [9]), (sample_update\<lparr>ub_commitId := 5\<rparr>, [])] sample_replica = Ok (s', ys) \<and>
     accepted [(sample_update, [9])] xs = [sample_update] \<and>
     blob_view mem_db (vr_db r') = blob_view mem_db (vr_db s')"
proof -
  have inv: "rdb_inv mem_db (vr_db sample_replica)"
    by (simp add: mem_db_def sample_replica_def PBMember.extend_def PBMember_new_def)
  obtain r' xs s' ys where
    run: "writes_run mem_db [(sample_update, [9])] sample_replica = Ok (r', xs)"
      "writes_run mem_db [(sample_update, [9]), (sample_update\<lparr>ub_commitId := 5\<rparr>, [])] sample_replica = Ok (s', ys)"
    and x: "xs = [Inr ()]" and y: "ys = [Inr (), Inl (StatusException STATUS_INVALID_COMMIT)]"
    by (simp add: handleMetadataWrite_eq sample_replica_def PBMember.extend_def PBMember_new_def
        in_sequence_def mem_db_def sample_update_def record_of_def)
  have "accepted [(sample_update, [9])] xs = [sample_update]"
    "accepted [(sample_update, [9]), (sample_update\<lparr>ub_commitId := 5\<rparr>, [])] ys = [sample_update]"
    by (simp_all add: x y accepted_def)
  with same_writes_same_data [OF mem_db_ok mem_db_ok inv inv refl run] run show ?thesis by auto
qed

end
