(* ===== verification/Volume_Leader.thy ===== *)
theory Volume_Leader
  imports Volume_Replica
begin

section \<open>Writes through the leader: \<open>updateBlobMeta\<close>\<close>

text \<open>
  How the leader's numbering of writes (\<open>groupWriteInEb\<close>), its journal and its peers fit
  together: replication keeps replicas in agreement, but the leader's commit counter is neither
  rolled back when the local write fails nor initialised from the journal when a leader starts.
\<close>

lemma updateBatch_setIds [simp]: "updateBatch (setIds i c msg) = updateBatch msg"
  by (simp add: updateBatch_def setIds_def)

lemma ub_commitId_setIds [simp]: "ub_commitId (setIds i c msg) = c"
  by (simp add: setIds_def)

definition next_ctx :: "LeaderCtx \<Rightarrow> LeaderCtx" where
  "next_ctx lc = lc\<lparr>lc_opId := lc_opId lc + 1, lc_commitId := lc_commitId lc + 1\<rparr>"

definition numbered :: "LeaderCtx \<Rightarrow> UpdateBlobMetaMsg \<Rightarrow> UpdateBlobMetaMsg" where
  "numbered lc msg = setIds (lc_opId lc + 1) (lc_commitId lc + 1) msg"

lemma numbered_simps [simp]:
  "updateBatch (numbered lc msg) = updateBatch msg"
  "ub_commitId (numbered lc msg) = lc_commitId lc + 1"
  "lc_commitId (next_ctx lc) = lc_commitId lc + 1" "lc_peers (next_ctx lc) = lc_peers lc"
  by (simp_all add: numbered_def next_ctx_def)

lemma leader_state_functional: "mstate r = LEADER_FUNCTIONAL \<Longrightarrow> isLeaderState r"
  by (simp add: isLeaderState_def less_PBMemberState_def)

lemma updateBlobMeta_eq:
  assumes "mstate r = LEADER_FUNCTIONAL" and "leaderCtx r = Some lc"
  shows "updateBlobMeta R ser msg r =
    (let r1 = r\<lparr>leaderCtx := Some (next_ctx lc)\<rparr>; m = numbered lc msg
     in if \<not> in_sequence m (vr_journal r) then Ok (r1, Inl (StatusException STATUS_INVALID_COMMIT))
        else case rdb_write R (vr_db r) (updateBatch msg) of
          None \<Rightarrow> Ok (r1, Inl (StatusException STATUS_DB_WRITE_FAILURE))
        | Some db' \<Rightarrow>
            Ok (r1\<lparr>vr_journal := vr_journal r @ [record_of m (ser m)], vr_db := db'\<rparr>,
                Inr ((), \<lparr>w_nAcked = 0, w_nSuccess = 0,
                          w_nPeers = of_nat (length (getWritablePeers (lc_peers lc))),
                          w_promise = None\<rparr>,
                     map (\<lambda>p. (p, peerRequest UPDATE_BLOB_META (ser m)))
                       (getWritablePeers (lc_peers lc)))))"
  using assms(2) leader_state_functional [OF assms(1)] assms(1)
  by (auto simp: updateBlobMeta_def groupWriteInEb_def handleMetadataWrite_eq Let_def
      numbered_def next_ctx_def writeToPeers_def split: option.splits)

text \<open>One client write after another on the same leader.\<close>

fun leaderWrites ::
  "'db rocksdb \<Rightarrow> (UpdateBlobMetaMsg \<Rightarrow> bytes) \<Rightarrow> UpdateBlobMetaMsg list \<Rightarrow>
    ('db, 'a) VolumeReplica_scheme \<Rightarrow>
    (('db, 'a) VolumeReplica_scheme \<times>
      (exn + unit \<times> WriteCtx \<times> (PeerInfo \<times> KVBuffer) list) list) outcome" where
  "leaderWrites R ser [] r = Ok (r, [])"
| "leaderWrites R ser (msg # ms) r =
     obind (updateBlobMeta R ser msg r) (\<lambda>(r1, x).
     obind (leaderWrites R ser ms r1) (\<lambda>(r2, xs). Ok (r2, x # xs)))"

lemma leaderWrites_out_of_step:
  assumes "mstate r = LEADER_FUNCTIONAL" and "leaderCtx r = Some lc" and "vr_journal r \<noteq> []"
    and "\<forall>i < length ms. lc_commitId lc + int i \<noteq> jr_id (last (vr_journal r))"
  shows "leaderWrites R ser ms r =
    Ok (r\<lparr>leaderCtx := Some ((next_ctx ^^ length ms) lc)\<rparr>,
        replicate (length ms) (Inl (StatusException STATUS_INVALID_COMMIT)))"
  using assms
proof (induction ms arbitrary: r lc)
  case Nil
  then have "r\<lparr>leaderCtx := Some lc\<rparr> = r" by (cases r) simp
  then show ?case by simp
next
  case (Cons m ms)
  let ?r = "r\<lparr>leaderCtx := Some (next_ctx lc)\<rparr>"
  from Cons.prems(3,4) have "\<not> in_sequence (numbered lc m) (vr_journal r)"
    by (auto simp: in_sequence_def)
  with updateBlobMeta_eq [OF Cons.prems(1,2)]
  have "updateBlobMeta R ser m r = Ok (?r, Inl (StatusException STATUS_INVALID_COMMIT))"
    by (simp add: Let_def)
  moreover have "leaderWrites R ser ms ?r =
      Ok (?r\<lparr>leaderCtx := Some ((next_ctx ^^ length ms) (next_ctx lc))\<rparr>,
          replicate (length ms) (Inl (StatusException STATUS_INVALID_COMMIT)))"
  proof (rule Cons.IH)
    show "\<forall>i < length ms. lc_commitId (next_ctx lc) + int i \<noteq> jr_id (last (vr_journal ?r))"
    proof (intro allI impI)
      fix i
      assume "i < length ms"
      with Cons.prems(4) have "lc_commitId lc + int (Suc i) \<noteq> jr_id (last (vr_journal r))"
        by (metis Suc_less_eq length_Cons)
      then show "lc_commitId (next_ctx lc) + int i \<noteq> jr_id (last (vr_journal ?r))" by simp
    qed
  qed (use Cons.prems in simp_all)
  ultimately show ?case by (simp add: funpow_swap1)
qed

lemma next_ctx_pow [simp]: "lc_commitId ((next_ctx ^^ n) lc) = lc_commitId lc + int n"
  by (induction n) simp_all

subsection \<open>Properties\<close>

text \<open>
  C24. A write refused by the leader's database stops the volume, once the journal is in use. Let a
  functional leader hold a journal that is not empty and ends with the leader's commit id. If its
  database refuses a write, the leader has used up the commit id without storing a record, so from
  then on it refuses every write with \<open>STATUS_INVALID_COMMIT\<close>, however many there are and whether or not
  the database has recovered, while its journal and database stay as they were. (An empty journal
  accepts any first id, so it does not block.)
\<close>

theorem failed_write_blocks_leader:
  assumes "mstate r = LEADER_FUNCTIONAL" and "leaderCtx r = Some lc"
    and "vr_journal r \<noteq> []" and "lc_commitId lc = jr_id (last (vr_journal r))"
    and "rdb_write R (vr_db r) (updateBatch msg) = None"
  shows "\<exists>r'. leaderWrites R ser (msg # ms) r =
      Ok (r', Inl (StatusException STATUS_DB_WRITE_FAILURE) #
              replicate (length ms) (Inl (StatusException STATUS_INVALID_COMMIT))) \<and>
    vr_journal r' = vr_journal r \<and> vr_db r' = vr_db r"
proof -
  let ?r = "r\<lparr>leaderCtx := Some (next_ctx lc)\<rparr>"
  have "updateBlobMeta R ser msg r = Ok (?r, Inl (StatusException STATUS_DB_WRITE_FAILURE))"
    using assms(3-5) by (simp add: updateBlobMeta_eq [OF assms(1,2)] Let_def in_sequence_def)
  moreover have "leaderWrites R ser ms ?r =
      Ok (?r\<lparr>leaderCtx := Some ((next_ctx ^^ length ms) (next_ctx lc))\<rparr>,
          replicate (length ms) (Inl (StatusException STATUS_INVALID_COMMIT)))"
    by (rule leaderWrites_out_of_step) (use assms in simp_all)
  ultimately show ?thesis by simp
qed

text \<open>A database that refuses updates of blob 0, for evaluation.\<close>

definition picky_db :: "(bytes, bytes) smap rocksdb" where
  "picky_db = mem_db\<lparr>rdb_write := (\<lambda>db batch.
     if \<exists>kv \<in> set batch. fst (fromSlice (fst kv)) = 0 then None else rdb_write mem_db db batch)\<rparr>"

definition bad_update :: UpdateBlobMetaMsg where
  "bad_update = sample_update\<lparr>ub_blobId := 0\<rparr>"

definition busy_leader :: "(bytes, bytes) smap VolumeReplica" where
  "busy_leader = PBMember.extend sample_leader
     \<lparr>vr_db = [], vr_journal = [\<lparr>jr_id = - 1, jr_type = UPDATE_BLOB_META, jr_buf = []\<rparr>]\<rparr>"

lemma busy_leader_fields:
  "mstate busy_leader = LEADER_FUNCTIONAL"
  "vr_journal busy_leader = [\<lparr>jr_id = - 1, jr_type = UPDATE_BLOB_META, jr_buf = []\<rparr>]"
  "vr_db busy_leader = []" "quorum busy_leader = 2"
  by (simp_all add: busy_leader_def sample_leader_def PBMember.extend_def PBMember_new_def)

theorem failed_write_blocks_leader_witness:
  "\<exists>r'. leaderWrites picky_db (\<lambda>_. []) [bad_update, sample_update, sample_update] busy_leader =
     Ok (r', [Inl (StatusException STATUS_DB_WRITE_FAILURE), Inl (StatusException STATUS_INVALID_COMMIT),
              Inl (StatusException STATUS_INVALID_COMMIT)])"
proof -
  obtain lc where lc: "leaderCtx busy_leader = Some lc" "lc_commitId lc = - 1"
    by (simp add: busy_leader_def sample_leader_def PBMember.extend_def PBMember_new_def)
  have "rdb_write picky_db (vr_db busy_leader) (updateBatch bad_update) = None"
    by (simp add: picky_db_def updateBatch_def bad_update_def sample_update_def)
  with failed_write_blocks_leader [OF busy_leader_fields(1) lc(1), of picky_db bad_update "\<lambda>_. []"
      "[sample_update, sample_update]"] lc(2)
  show ?thesis by (auto simp: busy_leader_fields numeral_2_eq_2)
qed

text \<open>
  A member that has a journal and becomes leader refuses writes: its commit counter starts
  at -1 again whatever its journal holds, so with a last record \<open>k\<close> the first \<open>k + 1\<close> writes of
  its term are refused with \<open>STATUS_INVALID_COMMIT\<close>, and the one after them is the first that
  reaches the database.
\<close>

theorem new_leader_refuses_writes:
  assumes "vr_journal r \<noteq> []" and "jr_id (last (vr_journal r)) = int k"
    and "unat (quorum r) \<le> length fms" and "leaderLockDone fms (Inr key) r = Ok (r1, effs)"
    and "length ms = k + 1" and "rdb_write R (vr_db r) (updateBatch msg) \<noteq> None"
  shows "\<exists>r2 r3 w. leaderWrites R ser ms r1 =
      Ok (r2, replicate (k + 1) (Inl (StatusException STATUS_INVALID_COMMIT))) \<and>
    vr_journal r2 = vr_journal r \<and>
    updateBlobMeta R ser msg r2 = Ok (r3, Inr w) \<and>
    map jr_id (vr_journal r3) = map jr_id (vr_journal r) @ [int k + 1]"
proof -
  from assms(3,4) obtain lc where r1: "mstate r1 = LEADER_FUNCTIONAL" "leaderCtx r1 = Some lc"
    "lc_commitId lc = - 1" "vr_journal r1 = vr_journal r" "vr_db r1 = vr_db r"
    by (auto simp: leaderLockDone_def Let_def switchState_def LeaderCtx_new_def INVALID_VALUE_def)
  let ?r2 = "r1\<lparr>leaderCtx := Some ((next_ctx ^^ length ms) lc)\<rparr>"
  have "leaderWrites R ser ms r1 = Ok (?r2, replicate (k + 1) (Inl (StatusException STATUS_INVALID_COMMIT)))"
    using leaderWrites_out_of_step [OF r1(1,2), of ms R ser] assms(1,2,5) r1(3,4) by auto
  moreover have "in_sequence (numbered ((next_ctx ^^ length ms) lc) msg) (vr_journal r)"
    using assms(2,5) r1(3) by (simp add: in_sequence_def)
  then obtain r3 w where "updateBlobMeta R ser msg ?r2 = Ok (r3, Inr w)"
    "map jr_id (vr_journal r3) = map jr_id (vr_journal r) @ [int k + 1]"
    using updateBlobMeta_eq [of ?r2 "(next_ctx ^^ length ms) lc" R ser msg] r1 assms(5,6)
    by (auto simp: Let_def record_of_def split: option.splits)
  ultimately show ?thesis using r1(4) by (cases w) auto
qed

definition veteran :: "(bytes, bytes) smap VolumeReplica" where
  "veteran = sample_replica\<lparr>vr_journal := [\<lparr>jr_id = 0, jr_type = UPDATE_BLOB_META, jr_buf = []\<rparr>,
     \<lparr>jr_id = 1, jr_type = UPDATE_BLOB_META, jr_buf = []\<rparr>]\<rparr>"

lemma veteran_fields:
  "vr_journal veteran = [\<lparr>jr_id = 0, jr_type = UPDATE_BLOB_META, jr_buf = []\<rparr>,
     \<lparr>jr_id = 1, jr_type = UPDATE_BLOB_META, jr_buf = []\<rparr>]"
  "quorum veteran = 2" "vr_db veteran = []"
  by (simp_all add: veteran_def sample_replica_def PBMember.extend_def PBMember_new_def)

theorem new_leader_refuses_writes_witness:
  "\<exists>r1 r2. leaderLockDone [follower_resp ''b'', follower_resp ''a''] (Inr ''LOCK'') veteran = Ok (r1, []) \<and>
     leaderWrites mem_db (\<lambda>_. []) [sample_update, sample_update] r1 =
       Ok (r2, [Inl (StatusException STATUS_INVALID_COMMIT), Inl (StatusException STATUS_INVALID_COMMIT)])"
proof -
  obtain r1 where r1: "leaderLockDone [follower_resp ''b'', follower_resp ''a''] (Inr ''LOCK'') veteran = Ok (r1, [])"
    by (simp add: leaderLockDone_def Let_def)
  have "rdb_write mem_db (vr_db veteran) (updateBatch sample_update) \<noteq> None"
    by (simp add: mem_db_def)
  from new_leader_refuses_writes [OF _ _ _ r1 _ this, of 1 "[sample_update, sample_update]" "\<lambda>_. []"] r1
  show ?thesis by (auto simp: veteran_fields numeral_2_eq_2)
qed

text \<open>
  C12. Replication keeps replicas in agreement: when the leader has written, every peer the write
  is sent to that has the leader's journal and contents accepts it (unless its own database
  refuses it) and then again has the leader's journal, byte for byte, and the leader's contents;
  and the message says which commit it is.
\<close>

theorem replication_keeps_agreement:
  assumes "rocksdb_ok R" and "rdb_inv R (vr_db r)" and "rocksdb_ok S" and "rdb_inv S (vr_db p)"
    and "mstate r = LEADER_FUNCTIONAL" and "leaderCtx r = Some lc"
    and "vr_journal p = vr_journal r" and "blob_view S (vr_db p) = blob_view R (vr_db r)"
    and "updateBlobMeta R ser msg r = Ok (r', Inr (u, w, sends))" and "(peer, kvb) \<in> set sends"
    and "parse (ser (numbered lc msg)) = Some (numbered lc msg)" and "rdb_write S (vr_db p) (updateBatch msg) \<noteq> None"
  shows "isWritable peer \<and> getType kvb = Ok UPDATE_BLOB_META \<and>
    (\<exists>m buffer p'. getPayload parse kvb = Ok m \<and> kv_payload kvb = Some buffer \<and>
       ub_commitId m = lc_commitId lc + 1 \<and>
       handleMetadataWrite S m buffer p = Ok (p', Inr ()) \<and>
       vr_journal p' = vr_journal r' \<and> blob_view S (vr_db p') = blob_view R (vr_db r'))"
proof -
  let ?m = "numbered lc msg"
  from assms(9) updateBlobMeta_eq [OF assms(5,6), of R ser msg] obtain db'
    where seq: "in_sequence ?m (vr_journal r)" and db': "rdb_write R (vr_db r) (updateBatch msg) = Some db'"
      and r': "vr_journal r' = vr_journal r @ [record_of ?m (ser ?m)]" "vr_db r' = db'"
      and sends: "sends = map (\<lambda>p. (p, peerRequest UPDATE_BLOB_META (ser ?m))) (getWritablePeers (lc_peers lc))"
    by (auto simp: Let_def split: if_splits option.splits)
  from assms(12) obtain dp where dp: "rdb_write S (vr_db p) (updateBatch msg) = Some dp" by blast
  have "applyUpdate R ?m (vr_db r) = (STATUS_OK, db')" "applyUpdate S ?m (vr_db p) = (STATUS_OK, dp)"
    using db' dp by (simp_all add: applyUpdate_def)
  then have "blob_view S dp = blob_view R db'"
    using applyUpdate_blob_view [OF assms(1,2)] applyUpdate_blob_view [OF assms(3,4)] assms(8) by simp
  moreover from seq dp have "handleMetadataWrite S ?m (ser ?m) p =
      Ok (p\<lparr>vr_journal := vr_journal p @ [record_of ?m (ser ?m)], vr_db := dp\<rparr>, Inr ())"
    by (simp add: handleMetadataWrite_eq assms(7))
  moreover from assms(10) have "kvb = peerRequest UPDATE_BLOB_META (ser ?m)" "isWritable peer"
    by (auto simp: sends getWritablePeers_def)
  ultimately show ?thesis
    using assms(7,11) r'
    by (auto simp: peerRequest_def getPayload_def getType_def getProp_def setType_def setProp_def
        KVBuffer_new_def)
qed

definition fresh_leader :: "(bytes, bytes) smap VolumeReplica" where
  "fresh_leader = PBMember.extend sample_leader \<lparr>vr_db = [], vr_journal = []\<rparr>"

definition sample_ctx :: LeaderCtx where
  "sample_ctx = \<lparr>lc_opId = - 1, lc_commitId = - 1,
     lc_peers = [\<lparr>p_id = ''b'', p_state = FOLLOWER_FUNCTIONAL, p_version = 0\<rparr>,
                 \<lparr>p_id = ''c'', p_state = FOLLOWER_WAIT_TO_JOIN_GROUP, p_version = - 1\<rparr>]\<rparr>"

lemma fresh_leader_fields:
  "mstate fresh_leader = LEADER_FUNCTIONAL" "leaderCtx fresh_leader = Some sample_ctx"
  "vr_journal fresh_leader = []" "vr_db fresh_leader = []"
  "vr_journal sample_replica = []" "vr_db sample_replica = []"
  by (simp_all add: fresh_leader_def sample_leader_def sample_ctx_def sample_replica_def
      PBMember.extend_def PBMember_new_def)

theorem replication_keeps_agreement_witness:
  "\<exists>r' u w sends m buffer p'.
     updateBlobMeta mem_db (\<lambda>_. [9]) sample_update fresh_leader = Ok (r', Inr (u, w, sends)) \<and>
     length sends = 1 \<and> ub_commitId m = 0 \<and>
     handleMetadataWrite mem_db m buffer sample_replica = Ok (p', Inr ()) \<and>
     vr_journal p' = vr_journal r' \<and> blob_view mem_db (vr_db p') = blob_view mem_db (vr_db r')"
proof -
  let ?p = "\<lparr>p_id = ''b'', p_state = FOLLOWER_FUNCTIONAL, p_version = 0\<rparr>"
  let ?kvb = "peerRequest UPDATE_BLOB_META [9]"
  let ?parse = "\<lambda>_ :: bytes. Some (numbered sample_ctx sample_update)"
  obtain r' w where upd: "updateBlobMeta mem_db (\<lambda>_. [9]) sample_update fresh_leader =
      Ok (r', Inr ((), w, [(?p, ?kvb)]))"
    by (simp add: updateBlobMeta_eq [OF fresh_leader_fields(1,2)] fresh_leader_fields Let_def
        in_sequence_def mem_db_def sample_ctx_def getWritablePeers_def isWritable_def)
  have inv: "rdb_inv mem_db (vr_db fresh_leader)" "rdb_inv mem_db (vr_db sample_replica)"
    "rdb_write mem_db (vr_db sample_replica) (updateBatch sample_update) \<noteq> None"
    by (simp_all add: fresh_leader_fields mem_db_def)
  show ?thesis
    using replication_keeps_agreement [OF mem_db_ok inv(1) mem_db_ok inv(2) fresh_leader_fields(1,2)
        _ _ upd, of ?p ?kvb ?parse] inv(3) upd
    by (fastforce simp: fresh_leader_fields sample_ctx_def)
qed

end
