(* ===== verification/Volume_Sync.thy ===== *)
theory Volume_Sync
  imports Volume_Leader Message_Dispatch
begin

section \<open>Catching up with the leader: \<open>src/volumeserver/VolumeServer.cpp\<close>\<close>

text \<open>
  A follower the leader does not list as functional runs the sync protocol: it asks the leader
  to add it (\<open>notifyLeader\<close>), pulls journal entries until its commit id is the leader's
  (\<open>pullJournalEntries\<close>, \<open>pullDone\<close>), applies them through the service's own message handler
  (\<open>applyOpBatch\<close>), becomes functional and tells the leader (\<open>syncComplete\<close>). A failure anywhere
  reaches a \<open>CHECK(false)\<close>. Calls to the leader are values of \<open>replica_call\<close>.
\<close>

datatype replica_call =
    NotifyLeader bool string AddToGroupMsg      \<comment> \<open>does the answer continue the sync?\<close>
  | PullEntries string PullJournalEntriesMsg
  | Member pb_effect                            \<comment> \<open>started by a message handler\<close>

definition notifyLeader :: "bool \<Rightarrow> ('db, 'a) VolumeReplica_scheme \<Rightarrow> replica_call" where
  "notifyLeader continues r = NotifyLeader continues (leaderId r)
     \<lparr>ag_resourceId = resourceId r, ag_termId = termId r, ag_memberId = myId r,
      ag_memberVersion = mversion r, ag_memberState = mstate r\<rparr>"

definition runSyncProtocol :: "('db, 'a) VolumeReplica_scheme \<Rightarrow> replica_call list" where
  "runSyncProtocol r = [notifyLeader True r]"

subsection \<open>Applying a batch\<close>

definition entryKvb :: "JournalEntry \<Rightarrow> KVBuffer" where
  "entryKvb e = (setType KVBuffer_new (je_msgId e))\<lparr>kv_payload := Some (je_buffer e)\<rparr>"

text \<open>
  The loop of \<open>applyOpBatch\<close>: every entry goes to the handler, also after one has failed; only
  an exception thrown by the handler itself, rather than carried by its future, stops the loop.
\<close>

fun dispatchBatch ::
  "('s, 'e) kvb_handler \<Rightarrow> JournalEntry list \<Rightarrow> 's \<Rightarrow> 'e list \<Rightarrow> (exn + KVBuffer) list \<Rightarrow>
    ('s \<times> 'e list \<times> exn option \<times> (exn + KVBuffer) list) outcome" where
  "dispatchBatch h [] s effs futures = Ok (s, effs, None, futures)"
| "dispatchBatch h (e # es) s effs futures =
     (case h (entryKvb e) s of
        Ok (s1, effs1, f) \<Rightarrow> dispatchBatch h es s1 (effs @ effs1) (futures @ [f])
      | Throw x \<Rightarrow> Ok (s, effs, Some x, futures)
      | Abort \<Rightarrow> Abort)"

text \<open>\<open>folly::collect\<close>: all the values, or the first failure.\<close>

fun collectReplies :: "(exn + KVBuffer) list \<Rightarrow> exn + KVBuffer list" where
  "collectReplies [] = Inr []"
| "collectReplies (Inl x # fs) = Inl x"
| "collectReplies (Inr v # fs) = map_sum id ((#) v) (collectReplies fs)"

definition applyOpBatch ::
  "('s, 'e) kvb_handler \<Rightarrow> JournalEntry list \<Rightarrow> 's \<Rightarrow> ('s \<times> 'e list \<times> (exn + KVBuffer list)) outcome" where
  "applyOpBatch h es s =
     obind (dispatchBatch h es s [] []) (\<lambda>(s1, effs, thrown, futures).
     Ok (s1, effs, case thrown of Some x \<Rightarrow> Inl x | None \<Rightarrow> collectReplies futures))"

subsection \<open>The protocol\<close>

text \<open>\<open>applyBufferedJournalEntries_\<close> does nothing yet; then the follower is functional.\<close>

definition syncComplete ::
  "('db, 'a) VolumeReplica_scheme \<Rightarrow> ('db, 'a) VolumeReplica_scheme \<times> replica_call list" where
  "syncComplete r = (let r1 = switchState FOLLOWER_FUNCTIONAL r in (r1, [notifyLeader False r1]))"

definition pullMsg :: "int \<Rightarrow> ('db, 'a) VolumeReplica_scheme \<Rightarrow> PullJournalEntriesMsg" where
  "pullMsg pullEndCommitId r =
     \<lparr>pj_resourceId = resourceId r, pj_termId = termId r, pj_fromId = commitId r,
      pj_toId = pullEndCommitId, pj_maxBytesInResp = MAX_PAYLOAD_BYTES\<rparr>"

definition pullJournalEntries ::
  "int \<Rightarrow> ('db, 'a) VolumeReplica_scheme \<Rightarrow> ('db, 'a) VolumeReplica_scheme \<times> replica_call list" where
  "pullJournalEntries pullEndCommitId r =
     (if commitId r = pullEndCommitId then syncComplete r
      else (r, [PullEntries (leaderId r) (pullMsg pullEndCommitId r)]))"

definition syncNotified ::
  "exn + AddToGroupRespMsg \<Rightarrow> ('db, 'a) VolumeReplica_scheme \<Rightarrow>
    (('db, 'a) VolumeReplica_scheme \<times> replica_call list) outcome" where
  "syncNotified resp r =
     (case resp of Inl e \<Rightarrow> Abort | Inr a \<Rightarrow> Ok (pullJournalEntries (ar_syncCommitId a) r))"

definition pullDone ::
  "(('db, 'a) VolumeReplica_scheme, pb_effect) kvb_handler \<Rightarrow> int \<Rightarrow> exn + PullJournalEntriesRespMsg \<Rightarrow>
    ('db, 'a) VolumeReplica_scheme \<Rightarrow> (('db, 'a) VolumeReplica_scheme \<times> replica_call list) outcome" where
  "pullDone h pullEndCommitId resp r =
     (case resp of
        Inl e \<Rightarrow> Abort
      | Inr p \<Rightarrow>
          obind (applyOpBatch h (pjr_journalEntries p) r) (\<lambda>(r1, effs, res).
          case res of
            Inl e \<Rightarrow> Abort
          | Inr _ \<Rightarrow> (let (r2, calls) = pullJournalEntries pullEndCommitId r1
                      in Ok (r2, map Member effs @ calls))))"

text \<open>The leader's side of a pull.\<close>

definition handlePullJournalEntriesMsg ::
  "PullJournalEntriesMsg \<Rightarrow> ('db, 'a) VolumeReplica_scheme \<Rightarrow> PullJournalEntriesRespMsg outcome" where
  "handlePullJournalEntriesMsg msg r =
     obind (throwIfNotLeader r) (\<lambda>_.
     Ok \<lparr>pjr_journalEntries = snd (retrieveEntries (pj_fromId msg) (pj_toId msg)
          (pj_maxBytesInResp msg) (vr_journal r) [])\<rparr>)"

text \<open>
  What the service's handler does with a write for this replica; the answer of a write carries
  no data, and \<open>serResp\<close> is its encoding.
\<close>

definition metadataHandler ::
  "'db rocksdb \<Rightarrow> (bytes \<Rightarrow> UpdateBlobMetaMsg option) \<Rightarrow> (unit \<Rightarrow> bytes) \<Rightarrow>
    (('db, 'a) VolumeReplica_scheme, pb_effect) kvb_handler" where
  "metadataHandler R parse serResp =
     kvbHandler parse serResp ''UpdateBlobMetaRespMsg''
       (\<lambda>req buffer r. obind (handleMetadataWrite R req buffer r) (\<lambda>(r1, x). Ok (r1, [], x)))"

definition writeTable ::
  "'db rocksdb \<Rightarrow> (bytes \<Rightarrow> UpdateBlobMetaMsg option) \<Rightarrow> (unit \<Rightarrow> bytes) \<Rightarrow>
    (string \<times> (('db, 'a) VolumeReplica_scheme, pb_effect) kvb_handler) list" where
  "writeTable R parse serResp =
     registerKVBMessageHandler UPDATE_BLOB_META (metadataHandler R parse serResp) []"

text \<open>The responses to successive pulls of one sync; the flag says whether the sync completed.\<close>

fun pullRun ::
  "(('db, 'a) VolumeReplica_scheme, pb_effect) kvb_handler \<Rightarrow> int \<Rightarrow>
    (exn + PullJournalEntriesRespMsg) list \<Rightarrow> ('db, 'a) VolumeReplica_scheme \<Rightarrow>
    (('db, 'a) VolumeReplica_scheme \<times> bool) outcome" where
  "pullRun h target [] r = Ok (r, commitId r = target)"
| "pullRun h target (resp # resps) r =
     (if commitId r = target then Ok (r, True)
      else obind (pullDone h target resp r) (\<lambda>(r1, calls). pullRun h target resps r1))"

definition syncRun ::
  "(('db, 'a) VolumeReplica_scheme, pb_effect) kvb_handler \<Rightarrow> exn + AddToGroupRespMsg \<Rightarrow>
    (exn + PullJournalEntriesRespMsg) list \<Rightarrow> ('db, 'a) VolumeReplica_scheme \<Rightarrow>
    (('db, 'a) VolumeReplica_scheme \<times> bool) outcome" where
  "syncRun h added resps r =
     obind (syncNotified added r) (\<lambda>(r1, calls).
       case added of Inl e \<Rightarrow> Abort | Inr a \<Rightarrow> pullRun h (ar_syncCommitId a) resps r1)"

subsection \<open>The handler of writes keeps everything but the journal and the database\<close>

lemma handleMetadataWrite_keeps:
  assumes "handleMetadataWrite R msg buffer r = Ok (r', x)"
  shows "commitId r' = commitId r" and "termId r' = termId r" and "mstate r' = mstate r"
    and "leaderCtx r' = leaderCtx r" and "myId r' = myId r" and "memberIds r' = memberIds r"
    and "quorum r' = quorum r" and "leaderId r' = leaderId r" and "resourceId r' = resourceId r"
  using assms by (auto simp: handleMetadataWrite_eq split: if_splits option.splits)

lemma getPayload_entryKvb:
  "getPayload parse (entryKvb e) = (case parse (je_buffer e) of None \<Rightarrow> Throw OtherException | Some m \<Rightarrow> Ok m)"
  by (simp add: entryKvb_def getPayload_def)

lemma getType_entryKvb [simp]: "getType (entryKvb e) = Ok (je_msgId e)"
  by (simp add: entryKvb_def getType_def getProp_def setType_def setProp_def KVBuffer_new_def)

lemma kv_payload_entryKvb [simp]: "kv_payload (entryKvb e) = Some (je_buffer e)"
  by (simp add: entryKvb_def)

lemma write_dispatch_eq:
  "handleKVBMessage (writeTable R parse serResp) (entryKvb e) r =
     (if je_msgId e \<noteq> UPDATE_BLOB_META then Throw OtherException
      else case parse (je_buffer e) of
        None \<Rightarrow> Throw OtherException
      | Some msg \<Rightarrow>
          obind (handleMetadataWrite R msg (je_buffer e) r) (\<lambda>(r1, x). Ok (r1, [],
            map_sum id (\<lambda>resp. setType (setPayload serResp KVBuffer_new resp) ''UpdateBlobMetaRespMsg'') x)))"
  by (cases "parse (je_buffer e)"; cases "handleMetadataWrite R (the (parse (je_buffer e))) (je_buffer e) r")
    (auto simp: handleKVBMessage_def writeTable_def registerKVBMessageHandler_def metadataHandler_def
      kvbHandler_def getPayload_entryKvb split: sum.splits)

lemma write_dispatch_keeps:
  "handleKVBMessage (writeTable R parse serResp) (entryKvb e) r = Ok (r', effs, x) \<Longrightarrow>
     commitId r' = commitId r \<and> effs = []"
  by (auto simp: write_dispatch_eq obind_Ok_iff dest: handleMetadataWrite_keeps
      split: if_splits option.splits)

lemma dispatchBatch_keeps:
  "dispatchBatch (handleKVBMessage (writeTable R parse serResp)) es r effs futures = Ok (r', effs', x, fs) \<Longrightarrow>
     commitId r' = commitId r \<and> effs' = effs"
proof (induction es arbitrary: r effs futures)
  case (Cons e es)
  then show ?case
    by (cases "handleKVBMessage (writeTable R parse serResp) (entryKvb e) r")
      (auto dest!: write_dispatch_keeps)
qed simp

lemma pullJournalEntries_keeps: "commitId (fst (pullJournalEntries target r)) = commitId r"
  by (simp add: pullJournalEntries_def syncComplete_def switchState_def Let_def)

lemma pullDone_keeps:
  assumes "pullDone (handleKVBMessage (writeTable R parse serResp)) target resp r = Ok (r', calls)"
  shows "commitId r' = commitId r"
proof -
  from assms obtain p :: PullJournalEntriesRespMsg and r1 effs b where
    app: "applyOpBatch (handleKVBMessage (writeTable R parse serResp)) (pjr_journalEntries p) r =
       Ok (r1, effs, b)" and
    "(case b of Inl e \<Rightarrow> Abort | Inr _ \<Rightarrow> (case pullJournalEntries target r1 of
                      (r2, calls) \<Rightarrow> Ok (r2, map Member effs @ calls))) = Ok (r', calls)"
    by (cases resp) (auto simp: pullDone_def obind_Ok_iff)
  then have r': "r' = fst (pullJournalEntries target r1)"
    by (cases b) (auto split: prod.splits)
  from app have "commitId r1 = commitId r"
    by (auto simp: applyOpBatch_def obind_Ok_iff dest!: dispatchBatch_keeps)
  with r' show ?thesis by (simp add: pullJournalEntries_keeps)
qed

text \<open>The futures already collected come first.\<close>

lemma dispatchBatch_futures:
  "dispatchBatch h es s effs futures = Ok (s', effs', thrown, fs) \<Longrightarrow> \<exists>gs. fs = futures @ gs"
proof (induction es arbitrary: s effs futures)
  case (Cons e es)
  then show ?case by (cases "h (entryKvb e) s") force+
qed simp

lemma collectReplies_Inl: "Inl x \<in> set fs \<Longrightarrow> \<exists>y. collectReplies fs = Inl y"
  by (induction fs rule: collectReplies.induct) auto

text \<open>
  C22. The sync protocol never transfers a write: if the commit id the leader answers with is the
  follower's own, the follower declares itself functional at once without asking for a single
  journal entry and with its journal and database untouched; and if it is any other, no sequence
  of answers, however long, ever completes the protocol, because applying entries never moves
  \<open>commitId_\<close>.
\<close>

theorem sync_never_transfers:
  fixes r :: "('db, 'a) VolumeReplica_scheme"
  shows "syncRun (handleKVBMessage (writeTable R parse serResp)) (Inr a) resps r =
     (if ar_syncCommitId a = commitId r then Ok (r\<lparr>mstate := FOLLOWER_FUNCTIONAL\<rparr>, True)
      else pullRun (handleKVBMessage (writeTable R parse serResp)) (ar_syncCommitId a) resps r) \<and>
   (ar_syncCommitId a \<noteq> commitId r \<longrightarrow>
     (\<forall>r'. syncRun (handleKVBMessage (writeTable R parse serResp)) (Inr a) resps r \<noteq> Ok (r', True)))"
proof -
  let ?h = "handleKVBMessage (writeTable R parse serResp)"
  have "pullRun ?h target resps r \<noteq> Ok (r', True)" if "commitId r \<noteq> target"
    for target and r r' :: "('db, 'a) VolumeReplica_scheme"
    using that
  proof (induction resps arbitrary: r)
    case (Cons resp resps)
    then show ?case by (auto simp: obind_Ok_iff dest: pullDone_keeps)
  qed simp
  moreover have "pullRun ?h (commitId r) resps (r\<lparr>mstate := FOLLOWER_FUNCTIONAL\<rparr>) =
      Ok (r\<lparr>mstate := FOLLOWER_FUNCTIONAL\<rparr>, True)"
    by (cases resps) simp_all
  ultimately show ?thesis
    by (auto simp: syncRun_def syncNotified_def pullJournalEntries_def syncComplete_def switchState_def
        Let_def)
qed

theorem sync_never_transfers_witness:
  "syncRun (handleKVBMessage (writeTable mem_db (\<lambda>_. None) (\<lambda>_. []))) (Inr \<lparr>ar_syncCommitId = 4\<rparr>)
     [Inr \<lparr>pjr_journalEntries = []\<rparr>, Inr \<lparr>pjr_journalEntries = []\<rparr>] sample_replica \<noteq> Ok (veteran, True)"
  using sync_never_transfers [of mem_db "\<lambda>_. None" "\<lambda>_. []" "\<lparr>ar_syncCommitId = 4\<rparr>"
      "[Inr \<lparr>pjr_journalEntries = []\<rparr>, Inr \<lparr>pjr_journalEntries = []\<rparr>]" sample_replica, THEN conjunct2]
  by (simp add: sample_replica_def PBMember.extend_def PBMember_new_def INVALID_VALUE_def)

text \<open>
  A journal whose records are messages under their own commit ids, as every leader's is.
\<close>

definition journal_messages :: "(bytes \<Rightarrow> UpdateBlobMetaMsg option) \<Rightarrow> Journal \<Rightarrow> bool" where
  "journal_messages parse js \<longleftrightarrow>
     (\<forall>j \<in> set js. jr_type j = UPDATE_BLOB_META \<and>
        (\<exists>m. parse (jr_buf j) = Some m \<and> ub_commitId m = jr_id j))"

text \<open>Of a batch that starts with two messages in descending order, the second is refused.\<close>

lemma second_entry_refused:
  assumes "jr_type j = UPDATE_BLOB_META" and "parse (jr_buf j) = Some m" and "ub_commitId m = jr_id j"
    and "jr_type k = UPDATE_BLOB_META" and "parse (jr_buf k) = Some n" and "ub_commitId n = jr_id k"
    and "jr_id k < jr_id j"
  obtains r1 x r2 y where
    "handleKVBMessage (writeTable R parse serResp) (entryKvb (toJournalEntry j)) follower = Ok (r1, [], x)"
    and "handleKVBMessage (writeTable R parse serResp) (entryKvb (toJournalEntry k)) r1 = Ok (r2, [], y)"
    and "(\<exists>e. x = Inl e) \<or> (\<exists>e. y = Inl e)"
proof -
  let ?h = "handleKVBMessage (writeTable R parse serResp)"
  have "\<exists>r1 x. ?h (entryKvb (toJournalEntry j)) follower = Ok (r1, [], x) \<and>
      ((\<exists>e. x = Inl e) \<or> (\<exists>v. x = Inr v) \<and> vr_journal r1 \<noteq> [] \<and> jr_id (last (vr_journal r1)) = jr_id j)"
    by (auto simp: write_dispatch_eq toJournalEntry_def assms(1-3) handleMetadataWrite_eq record_of_def
        split: option.splits)
  then obtain r1 x where r1: "?h (entryKvb (toJournalEntry j)) follower = Ok (r1, [], x)"
    "(\<exists>e. x = Inl e) \<or> vr_journal r1 \<noteq> [] \<and> jr_id (last (vr_journal r1)) = jr_id j" by blast
  have "\<exists>r2 y. ?h (entryKvb (toJournalEntry k)) r1 = Ok (r2, [], y) \<and> ((\<exists>e. x = Inl e) \<or> (\<exists>e. y = Inl e))"
    using r1(2) assms(7)
    by (auto simp: write_dispatch_eq toJournalEntry_def assms(4-6) handleMetadataWrite_eq in_sequence_def
        split: option.splits)
  with that r1(1) show thesis by blast
qed

lemma applyOpBatch_no_throw: "applyOpBatch h es r \<noteq> Throw e"
proof -
  have "dispatchBatch h es r effs fs \<noteq> Throw e" for effs fs
    by (induction es arbitrary: r effs fs) (auto split: outcome.splits)
  then show ?thesis by (cases "dispatchBatch h es r [] []") (auto simp: applyOpBatch_def)
qed

lemma pulled_entries_descend:
  assumes "journal_wf (vr_journal leader)" and "handlePullJournalEntriesMsg msg leader = Ok resp"
    and "2 \<le> length (pjr_journalEntries resp)"
  obtains j k js where "pjr_journalEntries resp = toJournalEntry j # toJournalEntry k # map toJournalEntry js"
    and "j \<in> set (vr_journal leader)" and "k \<in> set (vr_journal leader)" and "jr_id k < jr_id j"
proof -
  let ?f = "filter (\<lambda>j. pj_fromId msg \<le> jr_id j \<and> jr_id j \<le> pj_toId msg) (vr_journal leader)"
  from assms(2) have es: "pjr_journalEntries resp = map toJournalEntry (rev ?f)"
    by (auto simp: handlePullJournalEntriesMsg_def obind_Ok_iff retrieveEntries_eq rev_map)
  with assms(3) obtain j k js where jk: "rev ?f = j # k # js"
    by (metis (no_types, lifting) Suc_le_length_iff length_map numeral_2_eq_2)
  have "{j, k} \<subseteq> set (rev ?f)" by (simp only: jk) simp
  then have mem: "j \<in> set (vr_journal leader)" "k \<in> set (vr_journal leader)" by auto
  have "sorted_wrt (<) (map jr_id ?f)"
    using journal_wf_sorted [OF assms(1)] by (simp add: sorted_wrt_map sorted_wrt_filter)
  then have "sorted_wrt (>) (map jr_id (rev ?f))"
    by (simp add: rev_map [symmetric] sorted_wrt_rev)
  then have "jr_id k < jr_id j" by (simp only: jk) simp
  with that es jk mem show thesis by simp
qed

text \<open>
  C23. A batch of two or more entries, as the leader answers a pull, can never be applied: the
  leader sends newest first, a replica only accepts commit ids in ascending order, so for every
  follower, whatever its journal and database, some entry of the batch is refused; the failure
  reaches the \<open>CHECK(false)\<close> of the sync protocol and ends the process.
\<close>

theorem pulled_batch_always_fails:
  assumes "journal_wf (vr_journal leader)" and "journal_messages parse (vr_journal leader)"
    and "handlePullJournalEntriesMsg msg leader = Ok resp" and "2 \<le> length (pjr_journalEntries resp)"
  shows "pullDone (handleKVBMessage (writeTable R parse serResp)) target (Inr resp) follower = Abort"
proof -
  let ?h = "handleKVBMessage (writeTable R parse serResp)"
  obtain j k js where es: "pjr_journalEntries resp = toJournalEntry j # toJournalEntry k # map toJournalEntry js"
    and mem: "j \<in> set (vr_journal leader)" "k \<in> set (vr_journal leader)" and less: "jr_id k < jr_id j"
    by (rule pulled_entries_descend [OF assms(1,3,4)])
  obtain m n where m: "jr_type j = UPDATE_BLOB_META" "parse (jr_buf j) = Some m" "ub_commitId m = jr_id j"
    "jr_type k = UPDATE_BLOB_META" "parse (jr_buf k) = Some n" "ub_commitId n = jr_id k"
    using mem assms(2) unfolding journal_messages_def by blast
  obtain r1 x r2 y where r: "?h (entryKvb (toJournalEntry j)) follower = Ok (r1, [], x)"
    "?h (entryKvb (toJournalEntry k)) r1 = Ok (r2, [], y)" "(\<exists>e. x = Inl e) \<or> (\<exists>e. y = Inl e)"
    by (rule second_entry_refused [where R = R and serResp = serResp and follower = follower, OF m less])
  have "applyOpBatch ?h (pjr_journalEntries resp) follower \<noteq> Ok (r, effs, Inr vs)" for r effs vs
  proof
    assume "applyOpBatch ?h (pjr_journalEntries resp) follower = Ok (r, effs, Inr vs)"
    then obtain fs where fs: "dispatchBatch ?h (map toJournalEntry js) r2 [] [x, y] = Ok (r, effs, None, fs)"
      "collectReplies fs = Inr vs"
      by (auto simp: applyOpBatch_def es r(1,2) obind_Ok_iff split: option.splits)
    from dispatchBatch_futures [OF fs(1)] r(3) have "\<exists>e. Inl e \<in> set fs" by auto
    with collectReplies_Inl fs(2) show False by fastforce
  qed
  then show ?thesis using applyOpBatch_no_throw [of ?h "pjr_journalEntries resp" follower]
    by (cases "applyOpBatch ?h (pjr_journalEntries resp) follower")
      (auto simp: pullDone_def split: sum.splits)
qed

theorem pulled_batch_always_fails_witness:
  "\<exists>resp. handlePullJournalEntriesMsg
      \<lparr>pj_resourceId = 1, pj_termId = 0, pj_fromId = 0, pj_toId = 1, pj_maxBytesInResp = 0\<rparr>
      (busy_leader\<lparr>vr_journal := [\<lparr>jr_id = 0, jr_type = UPDATE_BLOB_META, jr_buf = [0]\<rparr>,
         \<lparr>jr_id = 1, jr_type = UPDATE_BLOB_META, jr_buf = [1]\<rparr>]\<rparr>) = Ok resp \<and>
    pullDone (handleKVBMessage (writeTable mem_db
        (\<lambda>b. Some (sample_update\<lparr>ub_commitId := uint (hd b)\<rparr>)) (\<lambda>_. []))) 1 (Inr resp) sample_replica = Abort"
proof -
  let ?js = "[\<lparr>jr_id = 0, jr_type = UPDATE_BLOB_META, jr_buf = [0 :: 8 word]\<rparr>,
         \<lparr>jr_id = 1, jr_type = UPDATE_BLOB_META, jr_buf = [1]\<rparr>]"
  let ?l = "busy_leader\<lparr>vr_journal := ?js\<rparr>"
  let ?m = "\<lparr>pj_resourceId = 1, pj_termId = 0, pj_fromId = 0, pj_toId = 1, pj_maxBytesInResp = 0\<rparr>"
  let ?parse = "\<lambda>b :: bytes. Some (sample_update\<lparr>ub_commitId := uint (hd b)\<rparr>)"
  have "isLeaderState ?l \<and> leaderCtx ?l \<noteq> None"
    by (simp add: busy_leader_def sample_leader_def PBMember.extend_def PBMember_new_def
        isLeaderState_def less_PBMemberState_def)
  then obtain resp where resp: "handlePullJournalEntriesMsg ?m ?l = Ok resp"
    "length (pjr_journalEntries resp) = 2"
    by (auto simp: handlePullJournalEntriesMsg_def throwIfNotLeader_def retrieveEntries_eq)
  have "journal_wf (vr_journal ?l)" "journal_messages ?parse (vr_journal ?l)"
    by (simp_all add: journal_wf_def journal_messages_def)
  from pulled_batch_always_fails [OF this resp(1), of mem_db "\<lambda>_. []" 1 sample_replica] resp
  show ?thesis by auto
qed

end
