(* ===== verification/Replica_Machine.thy ===== *)
theory Replica_Machine
  imports Volume_Sync
begin

section \<open>A replica as a state machine\<close>

text \<open>
  One replica in its environment: the state of the member together with the calls that have left
  it and are not answered yet. A step is one thing that runs on the replica's event base: a
  watch or a timer fires, a call is answered (with any answer), a message of another member or a
  client arrives, a peer answers a write. Answers may come in any order; every operation is the
  definition of its component. Steps that end the process have no successor.
\<close>

type_synonym 'db machine = "'db VolumeReplica \<times> replica_call list"

abbreviation started :: "pb_effect list \<Rightarrow> replica_call list" where
  "started effs \<equiv> map Member effs"

text \<open>The virtual \<open>runSyncProtocol\<close> runs at once.\<close>

definition run_effects :: "'db VolumeReplica \<Rightarrow> pb_effect list \<Rightarrow> replica_call list" where
  "run_effects r effs =
     concat (map (\<lambda>e. if e = RunSync then runSyncProtocol r else [Member e]) effs)"

inductive replica_step ::
  "'db rocksdb \<Rightarrow> folly_ops \<Rightarrow> (bytes \<Rightarrow> UpdateBlobMetaMsg option) \<Rightarrow> (UpdateBlobMetaMsg \<Rightarrow> bytes) \<Rightarrow>
    (unit \<Rightarrow> bytes) \<Rightarrow> 'db machine \<Rightarrow> 'db machine \<Rightarrow> bool"
  for R f parse ser serResp where
  Watch: "replica_step R f parse ser serResp (r, E) (r, E @ started (watchCb r))"
| Timer: "Member (AfterDelay d key) \<in> set E \<Longrightarrow>
    replica_step R f parse ser serResp (r, E)
      (r, remove1 (Member (AfterDelay d key)) E @ started (watchCb r))"
| Dropped: "Member (Coord c KNone) \<in> set E \<Longrightarrow>
    replica_step R f parse ser serResp (r, E) (r, remove1 (Member (Coord c KNone)) E)"
| MemberRoot: "Member (Coord c KMemberRoot) \<in> set E \<Longrightarrow> memberRootDone a r = Ok (r', effs) \<Longrightarrow>
    replica_step R f parse ser serResp (r, E) (r', remove1 (Member (Coord c KMemberRoot)) E @ started effs)"
| WatchDone: "Member (Coord c KWatch) \<in> set E \<Longrightarrow> watchDone f now cs r = Ok (r', effs) \<Longrightarrow>
    replica_step R f parse ser serResp (r, E) (r', remove1 (Member (Coord c KWatch)) E @ started effs)"
| ElectorLock: "Member (Coord c KElectorLock) \<in> set E \<Longrightarrow> electorLockDone a r = Ok (r', effs) \<Longrightarrow>
    replica_step R f parse ser serResp (r, E) (r', remove1 (Member (Coord c KElectorLock)) E @ started effs)"
| ElectorTerm: "Member (Coord c KElectorTerm) \<in> set E \<Longrightarrow> electorTermDone v r = Ok (r', effs) \<Longrightarrow>
    replica_step R f parse ser serResp (r, E) (r', remove1 (Member (Coord c KElectorTerm)) E @ started effs)"
| ElectorChildren: "Member (Coord c KElectorChildren) \<in> set E \<Longrightarrow>
    electorChildrenDone f cs r = Ok (r', effs) \<Longrightarrow>
    replica_step R f parse ser serResp (r, E) (r', remove1 (Member (Coord c KElectorChildren)) E @ started effs)"
| Election: "Member (ElectionRequest ids msg) \<in> set E \<Longrightarrow> length tries = length ids \<Longrightarrow>
    electionDone now tries r = (r', effs) \<Longrightarrow>
    replica_step R f parse ser serResp (r, E) (r', remove1 (Member (ElectionRequest ids msg)) E @ started effs)"
| RemoveLock: "Member (Coord c (KRemoveLock fms)) \<in> set E \<Longrightarrow> removeLockDone fms u r = Ok (r', effs) \<Longrightarrow>
    replica_step R f parse ser serResp (r, E) (r', remove1 (Member (Coord c (KRemoveLock fms))) E @ started effs)"
| BecomeLeaderSent: "Member (BecomeLeaderTo l bl) \<in> set E \<Longrightarrow>
    replica_step R f parse ser serResp (r, E) (r, remove1 (Member (BecomeLeaderTo l bl)) E)"
| LeaderLock: "Member (Coord c (KLeaderLock fms)) \<in> set E \<Longrightarrow> leaderLockDone fms a r = Ok (r', effs) \<Longrightarrow>
    replica_step R f parse ser serResp (r, E) (r', remove1 (Member (Coord c (KLeaderLock fms))) E @ started effs)"
| BecomeLeader: "handleBecomeLeaderMsg bl r = Ok (r', effs) \<Longrightarrow>
    replica_step R f parse ser serResp (r, E) (r', E @ started effs)"
| AddToGroup: "handleAddToGroupMsg ag r = Ok (r', resp) \<Longrightarrow>
    replica_step R f parse ser serResp (r, E) (r', E)"
| GroupInfo: "handleGroupInfoUpdateMsg gi r = Ok (r', effs) \<Longrightarrow>
    replica_step R f parse ser serResp (r, E) (r', E @ run_effects r' effs)"
| ClientWrite: "updateBlobMeta R ser msg r = Ok (r', res) \<Longrightarrow>
    replica_step R f parse ser serResp (r, E) (r', E)"
| PeerAnswer: "writePeerDone p resp w r = Ok (w', r') \<Longrightarrow>
    replica_step R f parse ser serResp (r, E) (r', E)"
| MemberWrite: "handleMetadataWrite R msg buffer r = Ok (r', x) \<Longrightarrow>
    replica_step R f parse ser serResp (r, E) (r', E)"
| SyncNotified: "NotifyLeader True l ag \<in> set E \<Longrightarrow> syncNotified added r = Ok (r', calls) \<Longrightarrow>
    replica_step R f parse ser serResp (r, E) (r', remove1 (NotifyLeader True l ag) E @ calls)"
| Notified: "NotifyLeader False l ag \<in> set E \<Longrightarrow>
    replica_step R f parse ser serResp (r, E) (r, remove1 (NotifyLeader False l ag) E)"
| Pulled: "PullEntries l pm \<in> set E \<Longrightarrow>
    pullDone (handleKVBMessage (writeTable R parse serResp)) (pj_toId pm) resp r = Ok (r', calls) \<Longrightarrow>
    replica_step R f parse ser serResp (r, E) (r', remove1 (PullEntries l pm) E @ calls)"

inductive_cases replica_stepE: "replica_step R f parse ser serResp (r, E) (r', E')"

text \<open>A replica right after its construction and \<open>init\<close>.\<close>

definition replica_init :: "'db machine \<Rightarrow> bool" where
  "replica_init s \<longleftrightarrow> (\<exists>i key members me q anyVersion anyOpId db.
     s = (let (r, effs) = PBMember_init (PBMember.extend
            (PBMember_new i key members me q anyVersion anyOpId) \<lparr>vr_db = db, vr_journal = []\<rparr>)
          in (r, started effs)))"

subsection \<open>What the operations keep\<close>

text \<open>
  The operations that only move the member between states: the group, the commit id, the leader
  context and the stored data stay, and none of them makes a leader.
\<close>

definition quiet :: "'db VolumeReplica \<Rightarrow> 'db VolumeReplica \<Rightarrow> bool" where
  "quiet r r' \<longleftrightarrow> commitId r' = commitId r \<and> memberIds r' = memberIds r \<and> myId r' = myId r \<and>
     quorum r' = quorum r \<and> leaderCtx r' = leaderCtx r \<and> vr_journal r' = vr_journal r \<and>
     vr_db r' = vr_db r \<and> (isLeaderState r' \<longrightarrow> isLeaderState r)"

lemma quiet_refl [simp]: "quiet r r"
  by (simp add: quiet_def)

lemma quiet_update [simp]:
  "quiet r (r\<lparr>lastElection := n\<rparr>)" "quiet r (r\<lparr>termId := n\<rparr>)"
  "\<not> (s > LEADER_BEGIN \<and> s < LEADER_END) \<Longrightarrow> quiet r (r\<lparr>mstate := s\<rparr>)"
  by (auto simp: quiet_def isLeaderState_def)

lemmas state_order = less_PBMemberState_def

lemma quiet_ops:
  fixes r r' :: "'db VolumeReplica"
  shows "memberRootDone a r = Ok (r', effs) \<Longrightarrow> quiet r r'"
    and "watchDone f now cs r = Ok (r', effs) \<Longrightarrow> quiet r r'"
    and "electorLockDone a r = Ok (r', effs) \<Longrightarrow> quiet r r'"
    and "electorTermDone v r = Ok (r', effs) \<Longrightarrow> quiet r r'"
    and "electorChildrenDone f cs r = Ok (r', effs) \<Longrightarrow> quiet r r'"
    and "electionDone now tries r = (r', effs) \<Longrightarrow> quiet r r'"
    and "removeLockDone fms u r = Ok (r', effs) \<Longrightarrow> quiet r r'"
    and "handleBecomeLeaderMsg bl r = Ok (r', effs) \<Longrightarrow> quiet r r'"
  subgoal by (auto simp: memberRootDone_def handleError_def split: sum.splits)
  subgoal by (auto simp: watchDone_def handleGroupWatchEvent_def startElectionIfQuorum_def orHandleError_def
        handleError_def obind_Ok_iff Let_def switchState_def state_order
        split: sum.splits outcome.splits PBMemberState.splits if_splits)
  subgoal by (auto simp: electorLockDone_def handleError_def split: sum.splits)
  subgoal by (auto simp: electorTermDone_def handleError_def Let_def split: sum.splits)
  subgoal by (auto simp: electorChildrenDone_def startElectionIfQuorum_def orHandleError_def
        handleError_def obind_Ok_iff Let_def switchState_def state_order
        split: sum.splits outcome.splits if_splits)
  subgoal by (auto simp: electionDone_def handleElectionResponse_def switchState_def state_order
        split: if_splits)
  subgoal by (auto simp: removeLockDone_def handleError_def obind_Ok_iff Let_def switchState_def
        state_order split: sum.splits)
  subgoal by (auto simp: handleBecomeLeaderMsg_def obind_Ok_iff)
  done

subsection \<open>The invariant of a replica\<close>

text \<open>
  The commit id is still the initial one; the journal has no gap; a leader has a context, whose
  peers are the other members, in member order.
\<close>

definition replica_ok :: "'db VolumeReplica \<Rightarrow> bool" where
  "replica_ok r \<longleftrightarrow> commitId r = INVALID_VALUE \<and> journal_wf (vr_journal r) \<and>
     (isLeaderState r \<longrightarrow> leaderCtx r \<noteq> None) \<and> (leaderCtx r \<noteq> None \<longrightarrow> peers_known r)"

lemma quiet_replica_ok: "quiet r r' \<Longrightarrow> replica_ok r \<Longrightarrow> replica_ok r'"
  by (auto simp: quiet_def replica_ok_def peers_known_def)

lemma same_more_journal:
  fixes r r' :: "'db VolumeReplica"
  shows "PBMember.more r' = PBMember.more r \<Longrightarrow> vr_journal r' = vr_journal r"
  by (cases r; cases r') simp

lemma changePeerState_replica_ok:
  fixes r r' :: "'db VolumeReplica"
  assumes "changePeerState i v t r = Ok r'" and "replica_ok r"
  shows "replica_ok r'"
  using assms changePeerState_keeps [OF assms(1)] changePeerState_peers_known [OF _ assms(1)]
    same_more_journal [of r' r]
  by (auto simp: replica_ok_def)

lemma leaderLockDone_replica_ok:
  fixes r r' :: "'db VolumeReplica"
  assumes "leaderLockDone fms a r = Ok (r', effs)" and "replica_ok r"
  shows "replica_ok r'"
  using assms
  by (auto simp: leaderLockDone_def handleError_def replica_ok_def peers_known_def Let_def
      switchState_def LeaderCtx_new_def buildPeers_eq comp_def split: sum.splits)

lemma handleAddToGroupMsg_replica_ok:
  fixes r r' :: "'db VolumeReplica"
  assumes "handleAddToGroupMsg ag r = Ok (r', resp)" and "replica_ok r"
  shows "replica_ok r'"
  using assms changePeerState_replica_ok by (auto simp: handleAddToGroupMsg_def obind_Ok_iff)

lemma handleGroupInfoUpdateMsg_replica_ok:
  fixes r r' :: "'db VolumeReplica"
  assumes "handleGroupInfoUpdateMsg gi r = Ok (r', effs)" and "replica_ok r"
  shows "replica_ok r'"
  using assms
  by (auto simp: handleGroupInfoUpdateMsg_def obind_Ok_iff Let_def switchState_def replica_ok_def
      peers_known_def isLeaderState_def state_order split: if_splits)

lemma handleMetadataWrite_replica_ok:
  fixes r r' :: "'db VolumeReplica"
  assumes "handleMetadataWrite R msg buffer r = Ok (r', x)" and "replica_ok r"
  shows "replica_ok r'"
proof -
  have "journal_wf (vr_journal r')"
    using assms by (auto simp: handleMetadataWrite_eq replica_ok_def journal_wf_def
        successively_append_last in_sequence_def record_of_def split: if_splits option.splits)
  then show ?thesis
    using handleMetadataWrite_keeps [OF assms(1)] assms(2)
    by (simp add: replica_ok_def peers_known_def isLeaderState_def)
qed

lemma updateBlobMeta_replica_ok:
  fixes r r' :: "'db VolumeReplica"
  assumes "updateBlobMeta R ser msg r = Ok (r', res)" and "replica_ok r"
  shows "replica_ok r'"
proof (cases "mstate r = LEADER_FUNCTIONAL")
  case False
  with assms show ?thesis by (auto simp: updateBlobMeta_def groupWriteInEb_def split: if_splits)
next
  case True
  then obtain lc where lc: "leaderCtx r = Some lc"
    using assms(2) leader_state_functional [OF True] by (auto simp: replica_ok_def)
  show ?thesis
    using assms unfolding updateBlobMeta_eq [OF True lc]
    by (auto simp: Let_def replica_ok_def peers_known_def lc isLeaderState_def journal_wf_def
        successively_append_last in_sequence_def record_of_def split: if_splits option.splits)
qed

lemma writePeerDone_replica_ok:
  fixes r r' :: "'db VolumeReplica"
  assumes "writePeerDone p resp w r = Ok (w', r')" and "replica_ok r"
  shows "replica_ok r'"
  using assms changePeerState_replica_ok
  by (auto simp: writePeerDone_def Let_def obind_Ok_iff split: option.splits sum.splits)

lemma pullJournalEntries_replica_ok:
  fixes r :: "'db VolumeReplica"
  shows "replica_ok r \<Longrightarrow> replica_ok (fst (pullJournalEntries target r))"
  by (auto simp: pullJournalEntries_def syncComplete_def switchState_def Let_def replica_ok_def
      peers_known_def isLeaderState_def state_order)

lemma syncNotified_replica_ok:
  fixes r r' :: "'db VolumeReplica"
  assumes "syncNotified added r = Ok (r', calls)" and "replica_ok r"
  shows "replica_ok r'"
proof -
  from assms(1) obtain target where "r' = fst (pullJournalEntries target r)"
    by (auto simp: syncNotified_def split: sum.splits) (metis fst_conv)
  with pullJournalEntries_replica_ok [OF assms(2)] show ?thesis by simp
qed

lemma dispatchBatch_replica_ok:
  fixes r r' :: "'db VolumeReplica"
  shows "dispatchBatch (handleKVBMessage (writeTable R parse serResp)) es r effs futures =
      Ok (r', effs', x, fs) \<Longrightarrow> replica_ok r \<Longrightarrow> replica_ok r'"
proof (induction es arbitrary: r effs futures)
  case (Cons e es)
  show ?case
  proof (cases "handleKVBMessage (writeTable R parse serResp) (entryKvb e) r")
    case (Ok s)
    obtain r1 effs1 fut where s: "s = (r1, effs1, fut)" by (cases s)
    from Ok Cons.prems(2) have "replica_ok r1"
      by (auto simp: s write_dispatch_eq obind_Ok_iff split: if_splits option.splits
          intro: handleMetadataWrite_replica_ok)
    moreover from Cons.prems(1) Ok have "dispatchBatch (handleKVBMessage (writeTable R parse serResp))
        es r1 (effs @ effs1) (futures @ [fut]) = Ok (r', effs', x, fs)"
      by (simp add: s)
    ultimately show ?thesis by (rule Cons.IH [rotated])
  next
    case (Throw e)
    with Cons.prems show ?thesis by simp
  next
    case Abort
    with Cons.prems show ?thesis by simp
  qed
qed simp

lemma pullDone_replica_ok:
  fixes r r' :: "'db VolumeReplica"
  assumes "pullDone (handleKVBMessage (writeTable R parse serResp)) target resp r = Ok (r', calls)"
    and "replica_ok r"
  shows "replica_ok r'"
proof -
  from assms(1) obtain p :: PullJournalEntriesRespMsg and r1 effs b where
    app: "applyOpBatch (handleKVBMessage (writeTable R parse serResp)) (pjr_journalEntries p) r =
       Ok (r1, effs, b)" and
    "(case b of Inl e \<Rightarrow> Abort | Inr _ \<Rightarrow> (case pullJournalEntries target r1 of
                      (r2, calls) \<Rightarrow> Ok (r2, map Member effs @ calls))) = Ok (r', calls)"
    by (cases resp) (auto simp: pullDone_def obind_Ok_iff)
  then have r': "r' = fst (pullJournalEntries target r1)"
    by (cases b) (auto split: prod.splits)
  from app assms(2) have "replica_ok r1"
    by (auto simp: applyOpBatch_def obind_Ok_iff intro: dispatchBatch_replica_ok)
  then show ?thesis unfolding r' by (rule pullJournalEntries_replica_ok)
qed

lemmas replica_ok_ops =
  quiet_ops [THEN quiet_replica_ok] leaderLockDone_replica_ok handleAddToGroupMsg_replica_ok
  handleGroupInfoUpdateMsg_replica_ok updateBlobMeta_replica_ok writePeerDone_replica_ok
  handleMetadataWrite_replica_ok syncNotified_replica_ok pullDone_replica_ok

definition machine_ok :: "'db machine \<Rightarrow> bool" where
  "machine_ok s \<longleftrightarrow> replica_ok (fst s)"

interpretation replicaI: inv_system replica_init "replica_step R f parse ser serResp" machine_ok
  for R f parse ser serResp
proof unfold_locales
  fix s
  show "replica_init s \<Longrightarrow> machine_ok s"
    by (auto simp: replica_init_def machine_ok_def replica_ok_def PBMember_init_def PBMember_new_def
        PBMember.extend_def Let_def isLeaderState_def switchState_def state_order)
next
  fix s t
  assume "machine_ok s" and "replica_step R f parse ser serResp s t"
  from this(2,1) show "machine_ok t"
    by (cases rule: replica_step.cases) (auto simp: machine_ok_def intro: replica_ok_ops)
qed

subsection \<open>Properties of every reachable replica\<close>

definition reachable_replica ::
  "'db rocksdb \<Rightarrow> folly_ops \<Rightarrow> (bytes \<Rightarrow> UpdateBlobMetaMsg option) \<Rightarrow> (UpdateBlobMetaMsg \<Rightarrow> bytes) \<Rightarrow>
    (unit \<Rightarrow> bytes) \<Rightarrow> 'db VolumeReplica \<Rightarrow> bool" where
  "reachable_replica R f parse ser serResp r \<longleftrightarrow>
     (\<exists>s E. replica_init s \<and> (replica_step R f parse ser serResp)\<^sup>*\<^sup>* s (r, E))"

lemma reachable_replica_ok:
  "reachable_replica R f parse ser serResp r \<Longrightarrow> replica_ok r"
  unfolding reachable_replica_def machine_ok_def [symmetric]
  using replicaI.reachable_inv [unfolded machine_ok_def] by fastforce

text \<open>
  C14. Whatever happens to a replica, in any order (elections, locks, messages from clients and
  members, answers and failures): its journal never has a gap; whenever it is in a leader state
  it has a leader context, and the peers in it are exactly the other members of the group, in
  member order.
\<close>

theorem reachable_replica_consistent:
  assumes "reachable_replica R f parse ser serResp r"
  shows "journal_wf (vr_journal r) \<and>
    (isLeaderState r \<longrightarrow> (\<exists>lc. leaderCtx r = Some lc \<and>
       map p_id (lc_peers lc) = filter (\<lambda>i. i \<noteq> myId r) (memberIds r)))"
  using reachable_replica_ok [OF assms] by (auto simp: replica_ok_def peers_known_def)

text \<open>
  The commit id a replica reports is the initial -1 for ever: in every reachable state, so
  also after any number of writes, the answer to an election says -1 and so does the leader's
  answer to a member that asks to be added.
\<close>

theorem commit_id_never_advances:
  assumes "reachable_replica R f parse ser serResp r"
  shows "(handleGetMemberStateMsg req r = Ok resp \<longrightarrow> gr_commitId resp = - 1) \<and>
    (handleAddToGroupMsg ag r = Ok (r', added) \<longrightarrow> ar_syncCommitId added = - 1)"
  using reachable_replica_ok [OF assms]
  by (auto simp: handleGetMemberStateMsg_def handleAddToGroupMsg_def obind_Ok_iff replica_ok_def
      INVALID_VALUE_def dest: changePeerState_keeps(4))

text \<open>
  An election does not look at what the members have written: among replicas of any history,
  when a quorum answers, the first member of the list that answers becomes the leader and every
  member that answers is announced as functional, whatever the journals hold.
\<close>

theorem election_ignores_journals:
  assumes "\<forall>x \<in> set (answers ts). \<exists>r req. reachable_replica R f parse ser serResp r \<and>
      handleGetMemberStateMsg req r = Ok x"
    and "answers ts \<noteq> []" and "unat (quorum m) \<le> length (answers ts)"
  shows "\<exists>m' msg effs. election_round now ts (Inr ()) m =
      Ok (m', BecomeLeaderTo (gr_id (hd (answers ts))) msg # effs) \<and>
    map gr_id (bl_functionalMembers msg) = map gr_id (answers ts)"
proof -
  have c: "gr_commitId x = - 1" if "x \<in> set (answers ts)" for x
    using assms(1) that reachable_replica_ok
    by (fastforce simp: handleGetMemberStateMsg_def obind_Ok_iff replica_ok_def INVALID_VALUE_def)
  then have "gr_commitId ` set (answers ts) = {- 1}"
    using assms(2) by (cases "answers ts") auto
  then have "least_commit (answers ts) = - 1" by (simp add: least_commit_def)
  then have "with_commit (least_commit (answers ts)) (answers ts) = answers ts"
    using c by (simp add: with_commit_def filter_id_conv)
  with assms(2,3) show ?thesis by (simp add: election_round_result Let_def comp_def)
qed

subsection \<open>A concrete history\<close>

text \<open>The member \<open>i\<close> of a group of two, started, and after a write of its leader.\<close>

definition started_replica :: "string \<Rightarrow> (bytes, bytes) smap VolumeReplica" where
  "started_replica i = fst (PBMember_init (PBMember.extend
     (PBMember_new 1 ''/r/1'' [''a'', ''b''] i 2 0 0) \<lparr>vr_db = [], vr_journal = []\<rparr>))"

definition written_replica :: "string \<Rightarrow> (bytes, bytes) smap VolumeReplica" where
  "written_replica i = (started_replica i)\<lparr>vr_journal := [record_of sample_update [9]],
     vr_db := sample_db\<rparr>"

abbreviation "sample_ser \<equiv> (\<lambda>_. [9]) :: UpdateBlobMetaMsg \<Rightarrow> bytes"
abbreviation "sample_parse \<equiv> (\<lambda>_. Some sample_update) :: bytes \<Rightarrow> UpdateBlobMetaMsg option"
abbreviation "sample_serResp \<equiv> (\<lambda>_. []) :: unit \<Rightarrow> bytes"

lemma started_fields:
  "vr_journal (started_replica i) = []" "vr_db (started_replica i) = []" "termId (started_replica i) = - 1"
  "mstate (started_replica i) = FOLLOWER_WAIT_TO_JOIN_GROUP" "commitId (started_replica i) = - 1"
  "myId (started_replica i) = i"
  by (simp_all add: started_replica_def PBMember_init_def PBMember_new_def PBMember.extend_def
      switchState_def INVALID_VALUE_def Let_def)

lemma written_step:
  "handleMetadataWrite mem_db sample_update [9] (started_replica i) = Ok (written_replica i, Inr ())"
  using sample_applyUpdate
  by (auto simp: handleMetadataWrite_eq started_fields in_sequence_def written_replica_def
      applyUpdate_def split: option.splits)

lemma written_reachable:
  "reachable_replica mem_db folly_dec sample_parse sample_ser sample_serResp (written_replica i)"
proof -
  let ?s = "let (r, effs) = PBMember_init (PBMember.extend
     (PBMember_new 1 ''/r/1'' [''a'', ''b''] i 2 0 0) \<lparr>vr_db = [], vr_journal = []\<rparr>)
     in (r, started effs) :: (bytes, bytes) smap machine"
  have "replica_init ?s" unfolding replica_init_def by blast
  moreover have s: "?s = (started_replica i, snd ?s)"
    by (simp add: started_replica_def case_prod_beta)
  from MemberWrite [OF written_step, of folly_dec sample_parse sample_ser sample_serResp i "snd ?s"]
  have "(replica_step mem_db folly_dec sample_parse sample_ser sample_serResp)\<^sup>*\<^sup>* ?s
      (written_replica i, snd ?s)"
    by (metis r_into_rtranclp s)
  ultimately show ?thesis unfolding reachable_replica_def by blast
qed

theorem reachable_replica_consistent_witness:
  "journal_wf (vr_journal (written_replica ''a'')) \<and> map jr_id (vr_journal (written_replica ''a'')) = [0]"
  using reachable_replica_consistent [OF written_reachable [of "''a''"]]
  by (simp add: written_replica_def record_of_def sample_update_def)

text \<open>What it answers to an election.\<close>

definition written_answer :: "string \<Rightarrow> GetMemberStateRespMsg" where
  "written_answer i = \<lparr>gr_id = i, gr_commitId = - 1, gr_version = 0,
     gr_state = FOLLOWER_WAIT_TO_JOIN_GROUP\<rparr>"

definition sample_ask :: GetMemberStateMsg where
  "sample_ask = \<lparr>gm_groupType = PB_VOLUMES_TYPE, gm_resourceId = 1, gm_termId = 0\<rparr>"

lemma written_replica_answers:
  "handleGetMemberStateMsg sample_ask (written_replica i) = Ok (written_answer i)"
  by (simp add: handleGetMemberStateMsg_def sample_ask_def throwIfInvalidTerm_def written_replica_def
      written_answer_def started_fields)

theorem commit_id_never_advances_witness:
  "\<exists>resp. handleGetMemberStateMsg sample_ask (written_replica ''a'') = Ok resp \<and> gr_commitId resp = - 1"
  using commit_id_never_advances [OF written_reachable [of "''a''"], of sample_ask "written_answer ''a''"]
    written_replica_answers by auto

theorem election_ignores_journals_witness:
  "\<exists>m' msg effs. election_round 0 [Inr (written_answer ''a''), Inr (written_answer ''b'')] (Inr ())
      (started_replica ''a'') = Ok (m', BecomeLeaderTo ''a'' msg # effs) \<and>
    map gr_id (bl_functionalMembers msg) = [''a'', ''b'']"
proof -
  let ?ts = "[Inr (written_answer ''a''), Inr (written_answer ''b'')]"
  have "\<forall>x \<in> set (answers ?ts). \<exists>r req.
      reachable_replica mem_db folly_dec sample_parse sample_ser sample_serResp r \<and>
      handleGetMemberStateMsg req r = Ok x"
    using written_reachable written_replica_answers by fastforce
  moreover have "unat (quorum (started_replica ''a'')) \<le> length (answers ?ts)"
    by (simp add: started_replica_def PBMember_init_def PBMember_new_def PBMember.extend_def
        switchState_def Let_def)
  ultimately show ?thesis
    using election_ignores_journals [of ?ts _ _ _ _ _ "started_replica ''a''" 0]
    by (simp add: written_answer_def)
qed

end
