(* ===== verification/Config_Manager.thy ===== *)
theory Config_Manager
  imports Config_Tree
begin

section \<open>Rings and volumes of a data sphere: \<open>src/configservice/ConfigService.cpp\<close>\<close>

text \<open>
  \<open>PBResourceSphereConfigMgr\<close> groups the services of a data sphere into rings of
  \<open>replicaFactor\<close> members and assigns each new resource an id and a ring; \<open>PBVolumeConfigMgr\<close>
  is its only instance, with volumes as resources. Its methods run on one event base. A node of
  the configuration tree is created by an asynchronous call: the operation returns the call
  (\<open>config_call\<close>) and \<open>ringCreated\<close> and \<open>resourceCreated\<close> are what runs when it completes. The
  JSON encodings are generated code, collected in \<open>config_codec\<close>.
\<close>

record config_codec =
  cc_ring :: "RingInfo \<Rightarrow> string"
  cc_volume :: "VolumeInfo \<Rightarrow> string"
  cc_volume_payload :: "VolumeInfo \<Rightarrow> bytes"
  cc_kvb :: "KVBuffer \<Rightarrow> string"
  cc_service :: "ServiceInfo \<Rightarrow> string"
  cc_datasphere :: "DataSphereInfo \<Rightarrow> string"

record ConfigMgr =
  cm_datasphereId :: string
  cm_resourceType :: string
  cm_replicaFactor :: int
  cm_pendingServices :: "string list"
  cm_rings :: "(int \<times> RingInfo) list"
  cm_nextAddRingId :: int
  cm_resources :: "(int \<times> VolumeInfo) list"
  cm_nextResourceId :: int
  cm_resourcesTopic :: string

datatype config_call =
    CreateRing string string RingInfo         \<comment> \<open>path, payload; continues with \<open>ringCreated\<close>\<close>
  | CreateResource string string VolumeInfo   \<comment> \<open>path, payload; continues with \<open>resourceCreated\<close>\<close>
  | PublishResource string string             \<comment> \<open>topic, message\<close>

definition ConfigMgr_new :: "string \<Rightarrow> string \<Rightarrow> int \<Rightarrow> ConfigMgr" where
  "ConfigMgr_new ds type rf =
     \<lparr>cm_datasphereId = ds, cm_resourceType = type, cm_replicaFactor = rf,
      cm_pendingServices = [], cm_rings = [], cm_nextAddRingId = 0, cm_resources = [],
      cm_nextResourceId = 0, cm_resourcesTopic = TOPIC_PB_SPHERE_RESOURCES type\<rparr>"

subsection \<open>Operations\<close>

definition addRing :: "folly_ops \<Rightarrow> config_codec \<Rightarrow> RingInfo \<Rightarrow> ConfigMgr \<Rightarrow> config_call" where
  "addRing f C ring cm =
     CreateRing (PB_SPHERE_RING_ROOT_PATH f (cm_datasphereId cm) (cm_resourceType cm) (ri_id ring))
       (cc_ring C ring) ring"

text \<open>
  \<open>static_cast<uint64_t>(replicaFactor_)\<close> is \<open>as_u64\<close>; more pending services than that is a
  failed \<open>CHECK\<close>.
\<close>

definition mgrAddService ::
  "folly_ops \<Rightarrow> config_codec \<Rightarrow> ServiceInfo \<Rightarrow> ConfigMgr \<Rightarrow> (ConfigMgr \<times> config_call list) outcome" where
  "mgrAddService f C info cm =
     (let pending = cm_pendingServices cm @ [si_id info]
      in if int (length pending) \<ge> as_u64 (cm_replicaFactor cm)
         then if int (length pending) \<noteq> as_u64 (cm_replicaFactor cm) then Abort
              else let ring = \<lparr>ri_id = cm_nextAddRingId cm, ri_memberIds = pending\<rparr>;
                       cm1 = cm\<lparr>cm_nextAddRingId := cm_nextAddRingId cm + 1, cm_pendingServices := []\<rparr>
                   in Ok (cm1, [addRing f C ring cm1])
         else Ok (cm\<lparr>cm_pendingServices := pending\<rparr>, []))"

text \<open>
  The creation of a ring completes; a \<open>StatusException\<close> fails a \<open>CHECK\<close>, any other exception
  only reaches the caller's future.
\<close>

definition ringCreated :: "RingInfo \<Rightarrow> exn + string \<Rightarrow> ConfigMgr \<Rightarrow> (ConfigMgr \<times> exn option) outcome" where
  "ringCreated ring res cm =
     (case res of
        Inl (StatusException s) \<Rightarrow> Abort
      | Inl OtherException \<Rightarrow> Ok (cm, Some OtherException)
      | Inr data \<Rightarrow> Ok (cm\<lparr>cm_rings := AList.update (ri_id ring) ring (cm_rings cm)\<rparr>, None))"

definition duplicateName :: "VolumeInfo \<Rightarrow> ConfigMgr \<Rightarrow> bool" where
  "duplicateName info cm \<longleftrightarrow> list_ex (\<lambda>kv. vi_name (snd kv) = vi_name info) (cm_resources cm)"

text \<open>The remainder is taken in \<open>uint64_t\<close>; the ring id is a 32-bit field.\<close>

definition addResource ::
  "folly_ops \<Rightarrow> config_codec \<Rightarrow> VolumeInfo \<Rightarrow> ConfigMgr \<Rightarrow> (ConfigMgr \<times> config_call list) outcome" where
  "addResource f C info cm =
     (if length (cm_rings cm) = 0 then Throw (StatusException STATUS_INVALID)
      else if duplicateName info cm then Throw (StatusException STATUS_DUPLICATE_VOLUME)
      else
        let i = cm_nextResourceId cm;
            resource = info\<lparr>vi_id := i,
              vi_ringId := narrow32 (as_u64 i mod int (length (cm_rings cm)))\<rparr>;
            cm1 = cm\<lparr>cm_nextResourceId := i + 1\<rparr>
        in Ok (cm1, [CreateResource
             (PB_SPHERE_RESOURCE_ROOT_PATH f (cm_datasphereId cm) (cm_resourceType cm) i)
             (cc_volume C resource) resource]))"

definition publishResourceInfo ::
  "folly_ops \<Rightarrow> config_codec \<Rightarrow> VolumeInfo \<Rightarrow> int \<Rightarrow> ConfigMgr \<Rightarrow> config_call" where
  "publishResourceInfo f C info version cm =
     PublishResource (cm_resourcesTopic cm)
       (cc_kvb C (setPayload (cc_volume_payload C) (setVersion f KVBuffer_new version) info))"

definition resourceCreated ::
  "folly_ops \<Rightarrow> config_codec \<Rightarrow> VolumeInfo \<Rightarrow> exn + string \<Rightarrow> ConfigMgr \<Rightarrow>
    ConfigMgr \<times> config_call list \<times> (exn + VolumeInfo)" where
  "resourceCreated f C resource res cm =
     (case res of
        Inl e \<Rightarrow> (cm, [], Inl e)
      | Inr data \<Rightarrow>
          (cm\<lparr>cm_resources := AList.update (vi_id resource) resource (cm_resources cm)\<rparr>,
           [publishResourceInfo f C resource 0 cm], Inr resource))"

definition getResources :: "ConfigMgr \<Rightarrow> VolumeInfo list" where
  "getResources cm = map snd (cm_resources cm)"

definition getRings :: "ConfigMgr \<Rightarrow> RingInfo list" where
  "getRings cm = map snd (cm_rings cm)"

subsection \<open>The manager with its outstanding calls\<close>

text \<open>
  A state of the manager in its environment: the calls that have not completed, in any order of
  completion, and for reference the services added and the rings formed so far.
\<close>

record config_state =
  cs_mgr :: ConfigMgr
  cs_outRings :: "RingInfo list"
  cs_outResources :: "VolumeInfo list"
  cs_services :: "string list"
  cs_formed :: "RingInfo list"

definition call_rings :: "config_call list \<Rightarrow> RingInfo list" where
  "call_rings calls = List.map_filter (\<lambda>c. case c of CreateRing p s r \<Rightarrow> Some r | _ \<Rightarrow> None) calls"

definition call_resources :: "config_call list \<Rightarrow> VolumeInfo list" where
  "call_resources calls =
     List.map_filter (\<lambda>c. case c of CreateResource p s v \<Rightarrow> Some v | _ \<Rightarrow> None) calls"

lemma call_rings_simps [simp]:
  "call_rings [] = []" "call_rings [CreateRing p s r] = [r]" "call_rings [CreateResource p s v] = []"
  "call_rings [PublishResource p s] = []"
  "call_resources [] = []" "call_resources [CreateRing p s r] = []"
  "call_resources [CreateResource p s v] = [v]" "call_resources [PublishResource p s] = []"
  by (simp_all add: call_rings_def call_resources_def map_filter_simps)

inductive config_step :: "folly_ops \<Rightarrow> config_codec \<Rightarrow> config_state \<Rightarrow> config_state \<Rightarrow> bool"
  for f C where
  AddService: "mgrAddService f C info (cs_mgr s) = Ok (cm, calls) \<Longrightarrow>
    config_step f C s (s\<lparr>cs_mgr := cm, cs_outRings := cs_outRings s @ call_rings calls,
      cs_services := cs_services s @ [si_id info], cs_formed := cs_formed s @ call_rings calls\<rparr>)"
| RingDone: "ring \<in> set (cs_outRings s) \<Longrightarrow> ringCreated ring res (cs_mgr s) = Ok (cm, e) \<Longrightarrow>
    config_step f C s (s\<lparr>cs_mgr := cm, cs_outRings := remove1 ring (cs_outRings s)\<rparr>)"
| AddResource: "addResource f C info (cs_mgr s) = Ok (cm, calls) \<Longrightarrow>
    config_step f C s (s\<lparr>cs_mgr := cm, cs_outResources := cs_outResources s @ call_resources calls\<rparr>)"
| ResourceDone: "v \<in> set (cs_outResources s) \<Longrightarrow>
    resourceCreated f C v res (cs_mgr s) = (cm, calls, x) \<Longrightarrow>
    config_step f C s (s\<lparr>cs_mgr := cm, cs_outResources := remove1 v (cs_outResources s)\<rparr>)"

inductive_cases config_stepE: "config_step f C s t"

definition config_init :: "config_state \<Rightarrow> bool" where
  "config_init s \<longleftrightarrow> (\<exists>ds type rf. 0 < rf \<and> rf < 2 ^ 31 \<and>
     s = \<lparr>cs_mgr = ConfigMgr_new ds type rf, cs_outRings = [], cs_outResources = [],
          cs_services = [], cs_formed = []\<rparr>)"

subsection \<open>Invariants\<close>

lemma as_u64_replicaFactor: "0 < rf \<Longrightarrow> rf < 2 ^ 31 \<Longrightarrow> as_u64 rf = rf"
  by (simp add: as_u64_id)

lemma set_AList_update: "z \<in> set (AList.update k v xs) \<Longrightarrow> z = (k, v) \<or> z \<in> set xs"
  by (induction xs) (auto split: if_splits)

definition rings_inv :: "config_state \<Rightarrow> bool" where
  "rings_inv s \<longleftrightarrow>
     0 < cm_replicaFactor (cs_mgr s) \<and> cm_replicaFactor (cs_mgr s) < 2 ^ 31 \<and>
     int (length (cm_pendingServices (cs_mgr s))) < cm_replicaFactor (cs_mgr s) \<and>
     map ri_id (cs_formed s) = map int [0..<length (cs_formed s)] \<and>
     cm_nextAddRingId (cs_mgr s) = int (length (cs_formed s)) \<and>
     (\<forall>r \<in> set (cs_formed s). int (length (ri_memberIds r)) = cm_replicaFactor (cs_mgr s)) \<and>
     cs_services s = concat (map ri_memberIds (cs_formed s)) @ cm_pendingServices (cs_mgr s)"

definition ring_table_inv :: "config_state \<Rightarrow> bool" where
  "ring_table_inv s \<longleftrightarrow> set (cs_outRings s) \<subseteq> set (cs_formed s) \<and>
     distinct (map fst (cm_rings (cs_mgr s))) \<and>
     (\<forall>z \<in> set (cm_rings (cs_mgr s)). snd z \<in> set (cs_formed s) \<and> ri_id (snd z) = fst z)"

definition resources_inv :: "config_state \<Rightarrow> bool" where
  "resources_inv s \<longleftrightarrow> 0 \<le> cm_nextResourceId (cs_mgr s) \<and>
     (\<forall>v \<in> set (cs_outResources s). 0 \<le> vi_id v \<and> vi_id v < cm_nextResourceId (cs_mgr s)) \<and>
     (\<forall>z \<in> set (cm_resources (cs_mgr s)). vi_id (snd z) = fst z \<and> 0 \<le> fst z \<and>
        fst z < cm_nextResourceId (cs_mgr s)) \<and>
     distinct (map vi_id (cs_outResources s)) \<and> distinct (map fst (cm_resources (cs_mgr s))) \<and>
     fst ` set (cm_resources (cs_mgr s)) \<inter> vi_id ` set (cs_outResources s) = {}"

definition config_inv :: "config_state \<Rightarrow> bool" where
  "config_inv s \<longleftrightarrow> rings_inv s \<and> ring_table_inv s \<and> resources_inv s"

text \<open>The effect of each operation, as far as the invariants need it.\<close>

lemma mgrAddService_cases:
  assumes "mgrAddService f C info cm = Ok (cm', calls)"
    and "0 < cm_replicaFactor cm" "cm_replicaFactor cm < 2 ^ 31"
    and "int (length (cm_pendingServices cm)) < cm_replicaFactor cm"
  obtains (wait) "cm' = cm\<lparr>cm_pendingServices := cm_pendingServices cm @ [si_id info]\<rparr>"
      and "int (length (cm_pendingServices cm) + 1) < cm_replicaFactor cm" and "calls = []"
  | (form) p s where "cm' = cm\<lparr>cm_nextAddRingId := cm_nextAddRingId cm + 1, cm_pendingServices := []\<rparr>"
      and "int (length (cm_pendingServices cm) + 1) = cm_replicaFactor cm"
      and "calls = [CreateRing p s \<lparr>ri_id = cm_nextAddRingId cm,
             ri_memberIds = cm_pendingServices cm @ [si_id info]\<rparr>]"
  using assms
  by (auto simp: mgrAddService_def Let_def addRing_def as_u64_replicaFactor split: if_splits)

lemma ringCreated_cases:
  assumes "ringCreated ring res cm = Ok (cm', e)"
  obtains "cm' = cm" | "cm' = cm\<lparr>cm_rings := AList.update (ri_id ring) ring (cm_rings cm)\<rparr>"
  using assms by (auto simp: ringCreated_def split: sum.splits exn.splits)

lemma addResource_cases:
  assumes "addResource f C info cm = Ok (cm', calls)"
  obtains p s v where "cm' = cm\<lparr>cm_nextResourceId := cm_nextResourceId cm + 1\<rparr>"
    and "calls = [CreateResource p s v]" and "vi_id v = cm_nextResourceId cm"
    and "vi_name v = vi_name info" and "cm_rings cm \<noteq> []" and "\<not> duplicateName info cm"
    and "vi_ringId v = narrow32 (as_u64 (cm_nextResourceId cm) mod int (length (cm_rings cm)))"
  using assms by (auto simp: addResource_def Let_def split: if_splits)

lemma resourceCreated_cases:
  assumes "resourceCreated f C v res cm = (cm', calls, x)"
  obtains "cm' = cm" | "cm' = cm\<lparr>cm_resources := AList.update (vi_id v) v (cm_resources cm)\<rparr>"
  using assms by (auto simp: resourceCreated_def split: sum.splits)

lemma rings_inv_step: "rings_inv s \<Longrightarrow> config_step f C s t \<Longrightarrow> rings_inv t"
proof (elim config_stepE)
  fix info cm calls
  assume inv: "rings_inv s" and op: "mgrAddService f C info (cs_mgr s) = Ok (cm, calls)"
    and t: "t = s\<lparr>cs_mgr := cm, cs_outRings := cs_outRings s @ call_rings calls,
      cs_services := cs_services s @ [si_id info], cs_formed := cs_formed s @ call_rings calls\<rparr>"
  from inv have pre: "0 < cm_replicaFactor (cs_mgr s)" "cm_replicaFactor (cs_mgr s) < 2 ^ 31"
    "int (length (cm_pendingServices (cs_mgr s))) < cm_replicaFactor (cs_mgr s)"
    by (auto simp: rings_inv_def)
  from op pre show "rings_inv t"
    by (cases rule: mgrAddService_cases) (use inv in \<open>auto simp: rings_inv_def t\<close>)
next
  fix ring res cm e
  assume "rings_inv s" "ringCreated ring res (cs_mgr s) = Ok (cm, e)"
    "t = s\<lparr>cs_mgr := cm, cs_outRings := remove1 ring (cs_outRings s)\<rparr>"
  then show "rings_inv t" by (auto elim!: ringCreated_cases simp: rings_inv_def)
next
  fix info cm calls
  assume "rings_inv s" "addResource f C info (cs_mgr s) = Ok (cm, calls)"
    "t = s\<lparr>cs_mgr := cm, cs_outResources := cs_outResources s @ call_resources calls\<rparr>"
  then show "rings_inv t" by (auto elim!: addResource_cases simp: rings_inv_def)
next
  fix v res cm calls x
  assume "rings_inv s" "resourceCreated f C v res (cs_mgr s) = (cm, calls, x)"
    "t = s\<lparr>cs_mgr := cm, cs_outResources := remove1 v (cs_outResources s)\<rparr>"
  then show "rings_inv t" by (auto elim!: resourceCreated_cases simp: rings_inv_def)
qed

lemma ring_table_inv_step:
  assumes "rings_inv s" and "ring_table_inv s" and "config_step f C s t"
  shows "ring_table_inv t"
  using assms(3)
proof cases
  case (AddService info cm calls)
  from assms(1) have pre: "0 < cm_replicaFactor (cs_mgr s)" "cm_replicaFactor (cs_mgr s) < 2 ^ 31"
    "int (length (cm_pendingServices (cs_mgr s))) < cm_replicaFactor (cs_mgr s)"
    by (auto simp: rings_inv_def)
  from AddService(2) pre show ?thesis
    by (cases rule: mgrAddService_cases) (use assms(2) AddService(1) in \<open>auto simp: ring_table_inv_def\<close>)
next
  case (RingDone ring res cm e)
  from RingDone(3) show ?thesis
    by (cases rule: ringCreated_cases)
      (use assms(2) RingDone(1,2) in \<open>auto simp: ring_table_inv_def distinct_update
        dest!: set_AList_update dest: notin_set_remove1\<close>)
next
  case (AddResource info cm calls)
  from AddResource(2) show ?thesis
    by (cases rule: addResource_cases) (use assms(2) AddResource(1) in \<open>auto simp: ring_table_inv_def\<close>)
next
  case (ResourceDone v res cm calls x)
  from ResourceDone(3) show ?thesis
    by (cases rule: resourceCreated_cases) (use assms(2) ResourceDone(1) in \<open>auto simp: ring_table_inv_def\<close>)
qed

lemma fst_AList_update: "fst ` set (AList.update k v xs) = insert k (fst ` set xs)"
  by (induction xs) auto

lemma resources_inv_step:
  assumes "rings_inv s" and "resources_inv s" and "config_step f C s t"
  shows "resources_inv t"
  using assms(3)
proof cases
  case (AddService info cm calls)
  from assms(1) have pre: "0 < cm_replicaFactor (cs_mgr s)" "cm_replicaFactor (cs_mgr s) < 2 ^ 31"
    "int (length (cm_pendingServices (cs_mgr s))) < cm_replicaFactor (cs_mgr s)"
    by (auto simp: rings_inv_def)
  from AddService(2) pre show ?thesis
    by (cases rule: mgrAddService_cases) (use assms(2) AddService(1) in \<open>auto simp: resources_inv_def\<close>)
next
  case (RingDone ring res cm e)
  from RingDone(3) show ?thesis
    by (cases rule: ringCreated_cases) (use assms(2) RingDone(1) in \<open>auto simp: resources_inv_def\<close>)
next
  case (AddResource info cm calls)
  from AddResource(2) show ?thesis
    by (cases rule: addResource_cases)
      (use assms(2) AddResource(1) in \<open>fastforce simp: resources_inv_def\<close>)
next
  case (ResourceDone v res cm calls x)
  have out: "distinct (map vi_id (remove1 v (cs_outResources s)))"
    "vi_id v \<notin> vi_id ` set (remove1 v (cs_outResources s))"
    using assms(2) ResourceDone(2) by (auto simp: resources_inv_def distinct_map distinct_remove1
        dest: inj_onD intro: inj_on_subset)
  have dj: "fst ` set (cm_resources (cs_mgr s)) \<inter> vi_id ` set (remove1 v (cs_outResources s)) = {}"
    using assms(2) image_mono [OF set_remove1_subset [of v "cs_outResources s"], of vi_id]
    unfolding resources_inv_def by blast
  from ResourceDone(3) show ?thesis
    by (cases rule: resourceCreated_cases)
      (use assms(2) ResourceDone(1,2) out dj in \<open>auto simp: resources_inv_def distinct_update
        fst_AList_update dest!: set_AList_update dest: notin_set_remove1\<close>)
qed

interpretation configI: inv_system config_init "config_step f C" config_inv for f C
proof unfold_locales
  show "config_inv s" if "config_init s" for s
    using that by (auto simp: config_init_def config_inv_def rings_inv_def ring_table_inv_def
        resources_inv_def ConfigMgr_new_def)
  show "config_inv t" if "config_inv s" "config_step f C s t" for s t
    using that rings_inv_step ring_table_inv_step resources_inv_step by (simp add: config_inv_def) blast
qed

subsection \<open>Properties\<close>

text \<open>
  C19. No service is lost, duplicated or left out of order: in every reachable state, whatever
  the order in which calls complete, the services added so far are exactly the members of the
  rings formed so far, in order, followed by the pending ones; every ring has exactly
  \<open>replicaFactor\<close> members, fewer than that are pending, the rings are numbered from 0, and the
  table holds only such rings.
\<close>

theorem rings_partition_services:
  assumes "config_init s0" and "(config_step f C)\<^sup>*\<^sup>* s0 s"
  shows "cs_services s = concat (map ri_memberIds (cs_formed s)) @ cm_pendingServices (cs_mgr s) \<and>
    (\<forall>r \<in> set (cs_formed s). int (length (ri_memberIds r)) = cm_replicaFactor (cs_mgr s)) \<and>
    int (length (cm_pendingServices (cs_mgr s))) < cm_replicaFactor (cs_mgr s) \<and>
    map ri_id (cs_formed s) = map int [0..<length (cs_formed s)] \<and>
    set (getRings (cs_mgr s)) \<subseteq> set (cs_formed s)"
  using configI.reachable_inv [OF assms]
  by (auto simp: config_inv_def rings_inv_def ring_table_inv_def getRings_def)

definition sample_service :: "string \<Rightarrow> ServiceInfo" where
  "sample_service i = \<lparr>si_id = i, si_dataSphereId = ''d'', si_nodeId = ''n'', si_type = VOLUME_SERVER,
     si_ip = ''::1'', si_port = 1, si_rootPath = ''/tmp''\<rparr>"

definition sample_volume :: "string \<Rightarrow> VolumeInfo" where
  "sample_volume nm = \<lparr>vi_id = - 1, vi_name = nm, vi_datasphereId = ''d'', vi_ringId = 0\<rparr>"

definition sample_codec :: config_codec where
  "sample_codec = \<lparr>cc_ring = (\<lambda>_. ''r''), cc_volume = vi_name, cc_volume_payload = (\<lambda>_. []),
     cc_kvb = (\<lambda>_. ''k''), cc_service = si_id, cc_datasphere = ds_id\<rparr>"

text \<open>The empty manager with a replica factor of one, and after one service.\<close>

definition start_state :: config_state where
  "start_state = \<lparr>cs_mgr = ConfigMgr_new ''d'' ''volumes'' 1, cs_outRings = [],
     cs_outResources = [], cs_services = [], cs_formed = []\<rparr>"

definition ring_of :: "int \<Rightarrow> string \<Rightarrow> RingInfo" where
  "ring_of i sid = \<lparr>ri_id = i, ri_memberIds = [sid]\<rparr>"

definition one_ring :: config_state where
  "one_ring = start_state\<lparr>cs_mgr := (ConfigMgr_new ''d'' ''volumes'' 1)\<lparr>cm_nextAddRingId := 1\<rparr>,
     cs_outRings := [ring_of 0 ''a''], cs_services := [''a''], cs_formed := [ring_of 0 ''a'']\<rparr>"

lemma start_state_init: "config_init start_state"
  unfolding config_init_def start_state_def
  by (rule exI [of _ "''d''"], rule exI [of _ "''volumes''"], rule exI [of _ 1]) simp

lemma one_ring_step: "config_step folly_dec sample_codec start_state one_ring"
proof -
  have "\<exists>calls. mgrAddService folly_dec sample_codec (sample_service ''a'') (cs_mgr start_state) =
      Ok (cs_mgr one_ring, calls) \<and> call_rings calls = [ring_of 0 ''a'']"
    by (simp add: mgrAddService_def start_state_def one_ring_def ConfigMgr_new_def as_u64_def
        sample_service_def addRing_def Let_def ring_of_def)
  then obtain calls where "mgrAddService folly_dec sample_codec (sample_service ''a'') (cs_mgr start_state) =
      Ok (cs_mgr one_ring, calls)" "call_rings calls = [ring_of 0 ''a'']" by blast
  from config_step.AddService [OF this(1)] this(2) show ?thesis
    by (simp add: start_state_def one_ring_def sample_service_def)
qed

lemma one_ring_steps: "(config_step folly_dec sample_codec)\<^sup>*\<^sup>* start_state one_ring"
  by (rule r_into_rtranclp) (rule one_ring_step)

theorem rings_partition_services_witness:
  "(config_step folly_dec sample_codec)\<^sup>*\<^sup>* start_state one_ring \<and>
   cs_services one_ring = concat (map ri_memberIds (cs_formed one_ring)) @ []"
  using rings_partition_services [OF start_state_init one_ring_steps] one_ring_steps
  by (simp add: one_ring_def ConfigMgr_new_def start_state_def)

text \<open>
  No two volumes ever get the same id, however additions overlap and whichever of them fail:
  in every reachable state the volumes in the table and the ones being created have pairwise
  different ids, and the next id is larger than all of them.
\<close>

theorem volume_ids_unique:
  assumes "config_init s0" and "(config_step f C)\<^sup>*\<^sup>* s0 s"
  shows "distinct (map vi_id (getResources (cs_mgr s) @ cs_outResources s)) \<and>
    (\<forall>v \<in> set (getResources (cs_mgr s) @ cs_outResources s).
       0 \<le> vi_id v \<and> vi_id v < cm_nextResourceId (cs_mgr s))"
proof -
  let ?rs = "cm_resources (cs_mgr s)"
  have inv: "resources_inv s"
    using configI.reachable_inv [OF assms] by (simp add: config_inv_def)
  then have keys: "map vi_id (getResources (cs_mgr s)) = map fst ?rs"
    by (auto simp: resources_inv_def getResources_def)
  have "distinct (map vi_id (getResources (cs_mgr s)))"
    unfolding keys using inv by (simp add: resources_inv_def)
  moreover have "vi_id ` set (getResources (cs_mgr s)) = fst ` set ?rs"
    using arg_cong [OF keys, of set] by simp
  ultimately show ?thesis
    using inv by (auto simp: resources_inv_def getResources_def)
qed

text \<open>
  C20. A new volume is placed on a complete ring that exists, provided every ring formed so far
  has been stored and there are fewer than \<open>2 ^ 31\<close> of them.
\<close>

theorem volume_placed_on_complete_ring:
  assumes "config_init s0" and "(config_step f C)\<^sup>*\<^sup>* s0 s"
    and "set (cs_formed s) \<subseteq> set (getRings (cs_mgr s))" and "length (cs_formed s) < 2 ^ 31"
    and "addResource f C info (cs_mgr s) = Ok (cm, calls)"
  shows "\<exists>v \<in> set (call_resources calls). vi_name v = vi_name info \<and>
    (\<exists>ring \<in> set (getRings (cs_mgr s)). ri_id ring = vi_ringId v \<and>
       int (length (ri_memberIds ring)) = cm_replicaFactor (cs_mgr s))"
proof -
  let ?n = "length (cs_formed s)"
  have inv: "rings_inv s" "ring_table_inv s"
    using configI.reachable_inv [OF assms(1,2)] by (simp_all add: config_inv_def)
  from assms(5) obtain p x v where calls: "calls = [CreateResource p x v]"
    and v: "vi_name v = vi_name info" "cm_rings (cs_mgr s) \<noteq> []"
      "vi_ringId v = narrow32 (as_u64 (cm_nextResourceId (cs_mgr s)) mod int (length (cm_rings (cs_mgr s))))"
    by (rule addResource_cases) blast
  have "set (map fst (cm_rings (cs_mgr s))) = ri_id ` set (getRings (cs_mgr s))"
    using inv(2) by (force simp: ring_table_inv_def getRings_def)
  also have "set (getRings (cs_mgr s)) = set (cs_formed s)"
    using assms(3) inv(2) by (auto simp: ring_table_inv_def getRings_def)
  also have ids: "ri_id ` set (cs_formed s) = int ` {0..<?n}"
  proof -
    have "map ri_id (cs_formed s) = map int [0..<?n]"
      using inv(1) unfolding rings_inv_def by blast
    then have "set (map ri_id (cs_formed s)) = set (map int [0..<?n])" by (rule arg_cong)
    then show ?thesis by simp
  qed
  finally have "card (set (map fst (cm_rings (cs_mgr s)))) = ?n"
    by (simp add: card_image)
  then have len: "length (cm_rings (cs_mgr s)) = ?n"
    using inv(2) distinct_card [of "map fst (cm_rings (cs_mgr s))"] by (simp add: ring_table_inv_def)
  let ?q = "as_u64 (cm_nextResourceId (cs_mgr s)) mod int ?n"
  have "0 < ?n" using v(2) len by auto
  then have q: "0 \<le> ?q" "?q < int ?n" by simp_all
  with assms(4) have "vi_ringId v = ?q" unfolding v(3) len by (simp add: narrow32_id)
  moreover have "?q \<in> ri_id ` set (cs_formed s)"
    unfolding ids using q by (auto intro: image_eqI [of _ _ "nat ?q"] simp: nat_less_iff)
  ultimately obtain ring where "ring \<in> set (cs_formed s)" "ri_id ring = vi_ringId v" by auto
  with assms(3) inv(1) calls v(1) show ?thesis by (auto simp: rings_inv_def)
qed

text \<open>The manager after the creation of its first ring, and with a volume being created.\<close>

definition ready_state :: config_state where
  "ready_state = one_ring\<lparr>cs_mgr := (cs_mgr one_ring)\<lparr>cm_rings := [(0, ring_of 0 ''a'')]\<rparr>,
     cs_outRings := []\<rparr>"

definition volume_of :: "int \<Rightarrow> VolumeInfo" where
  "volume_of i = (sample_volume ''v'')\<lparr>vi_id := i\<rparr>"

lemma ready_step: "config_step folly_dec sample_codec one_ring ready_state"
  using config_step.RingDone [of "ring_of 0 ''a''" one_ring "Inr []" _ None folly_dec sample_codec]
  by (simp add: ringCreated_def ready_state_def one_ring_def ring_of_def start_state_def ConfigMgr_new_def)

lemma ready_steps: "(config_step folly_dec sample_codec)\<^sup>*\<^sup>* start_state ready_state"
  using one_ring_steps ready_step by (rule rtranclp.rtrancl_into_rtrancl)

lemma ready_addResource:
  assumes "cm = (cs_mgr ready_state)\<lparr>cm_nextResourceId := n\<rparr>" and "0 \<le> n"
  shows "\<exists>p x. addResource folly_dec sample_codec (sample_volume ''v'') cm =
    Ok (cm\<lparr>cm_nextResourceId := n + 1\<rparr>, [CreateResource p x (volume_of n)])"
  using assms
  by (simp add: addResource_def ready_state_def one_ring_def ConfigMgr_new_def duplicateName_def
      volume_of_def Let_def narrow32_def sample_volume_def)

theorem volume_placed_on_complete_ring_witness:
  "\<exists>cm calls v. addResource folly_dec sample_codec (sample_volume ''v'') (cs_mgr ready_state) = Ok (cm, calls) \<and>
     v \<in> set (call_resources calls) \<and> vi_ringId v \<in> ri_id ` set (getRings (cs_mgr ready_state))"
proof -
  obtain p x where add: "addResource folly_dec sample_codec (sample_volume ''v'') (cs_mgr ready_state) =
      Ok ((cs_mgr ready_state)\<lparr>cm_nextResourceId := 0 + 1\<rparr>, [CreateResource p x (volume_of 0)])"
    using ready_addResource [of "cs_mgr ready_state" 0]
    by (auto simp: ready_state_def one_ring_def ConfigMgr_new_def)
  have "set (cs_formed ready_state) \<subseteq> set (getRings (cs_mgr ready_state))"
    "length (cs_formed ready_state) < 2 ^ 31"
    by (simp_all add: ready_state_def one_ring_def getRings_def)
  from volume_placed_on_complete_ring [OF start_state_init ready_steps this add] add
  show ?thesis by (auto intro: rev_image_eqI)
qed

text \<open>Two requests for a volume of the same name overlap.\<close>

definition racing_state :: config_state where
  "racing_state = ready_state\<lparr>cs_mgr := (cs_mgr ready_state)\<lparr>cm_nextResourceId := 2\<rparr>,
     cs_outResources := [volume_of 0, volume_of 1]\<rparr>"

definition raced_state :: config_state where
  "raced_state = ready_state\<lparr>cs_mgr := (cs_mgr ready_state)\<lparr>cm_nextResourceId := 2,
     cm_resources := [(0, volume_of 0), (1, volume_of 1)]\<rparr>, cs_outResources := []\<rparr>"

lemma ready_fields:
  "cm_nextResourceId (cs_mgr ready_state) = 0" "cs_outResources ready_state = []"
  "cm_resources (cs_mgr ready_state) = []"
  by (simp_all add: ready_state_def one_ring_def start_state_def ConfigMgr_new_def)

lemma racing_steps: "(config_step folly_dec sample_codec)\<^sup>*\<^sup>* start_state racing_state"
proof -
  let ?c1 = "(cs_mgr ready_state)\<lparr>cm_nextResourceId := 1\<rparr>"
  let ?s1 = "ready_state\<lparr>cs_mgr := ?c1, cs_outResources := [volume_of 0]\<rparr>"
  obtain p x where a: "addResource folly_dec sample_codec (sample_volume ''v'') (cs_mgr ready_state) =
      Ok (?c1, [CreateResource p x (volume_of 0)])"
    using ready_addResource [of "cs_mgr ready_state" 0] ready_fields by auto
  obtain q y where b: "addResource folly_dec sample_codec (sample_volume ''v'') (cs_mgr ?s1) =
      Ok ((cs_mgr ready_state)\<lparr>cm_nextResourceId := 2\<rparr>, [CreateResource q y (volume_of 1)])"
    using ready_addResource [of ?c1 1] by auto
  have "config_step folly_dec sample_codec ready_state ?s1"
    using config_step.AddResource [OF a] by (simp add: ready_fields)
  moreover have "config_step folly_dec sample_codec ?s1 racing_state"
    using config_step.AddResource [OF b] by (simp add: racing_state_def)
  ultimately show ?thesis
    using ready_steps by (auto intro: rtranclp.rtrancl_into_rtrancl)
qed

lemma raced_steps: "(config_step folly_dec sample_codec)\<^sup>*\<^sup>* start_state raced_state"
proof -
  let ?s3 = "racing_state\<lparr>cs_mgr := (cs_mgr racing_state)\<lparr>cm_resources := [(0, volume_of 0)]\<rparr>,
    cs_outResources := [volume_of 1]\<rparr>"
  have "config_step folly_dec sample_codec racing_state ?s3"
    using config_step.ResourceDone [of "volume_of 0" racing_state folly_dec sample_codec "Inr []"]
    by (simp add: resourceCreated_def volume_of_def racing_state_def ready_fields)
  moreover have "config_step folly_dec sample_codec ?s3 raced_state"
    using config_step.ResourceDone [of "volume_of 1" ?s3 folly_dec sample_codec "Inr []"]
    by (simp add: resourceCreated_def volume_of_def racing_state_def raced_state_def)
  ultimately show ?thesis
    using racing_steps by (auto intro: rtranclp.rtrancl_into_rtrancl)
qed

theorem volume_ids_unique_witness:
  "vi_id (volume_of 0) \<noteq> vi_id (volume_of 1) \<and> vi_id (volume_of 1) < 2"
  using volume_ids_unique [OF start_state_init racing_steps]
  by (simp add: racing_state_def ready_fields getResources_def)

text \<open>
  C21. Two volumes can end up with the same name although the manager refuses duplicates. It refuses
  a request for the reason of a duplicate exactly if a ring exists and a volume in its table has the
  name. But the table holds only volumes whose creation has completed: there is a run in which two
  requests overlap and both volumes of one name are created; the same request is refused afterwards.
\<close>

theorem duplicate_volume_names_reachable:
  "(addResource f C info cm = Throw (StatusException STATUS_DUPLICATE_VOLUME)) =
     (cm_rings cm \<noteq> [] \<and> vi_name info \<in> vi_name ` set (getResources cm)) \<and>
   (\<exists>s. (config_step folly_dec sample_codec)\<^sup>*\<^sup>* start_state s \<and>
     map vi_name (getResources (cs_mgr s)) = [''v'', ''v''] \<and>
     addResource folly_dec sample_codec (sample_volume ''v'') (cs_mgr s) =
       Throw (StatusException STATUS_DUPLICATE_VOLUME))"
proof
  show "(addResource f C info cm = Throw (StatusException STATUS_DUPLICATE_VOLUME)) =
     (cm_rings cm \<noteq> [] \<and> vi_name info \<in> vi_name ` set (getResources cm))"
  proof -
    have "duplicateName info cm = (vi_name info \<in> vi_name ` set (getResources cm))"
      by (auto simp: duplicateName_def list_ex_iff getResources_def image_iff intro: rev_bexI)
    then show ?thesis by (simp add: addResource_def Let_def)
  qed
  have "map vi_name (getResources (cs_mgr raced_state)) = [''v'', ''v'']"
    "addResource folly_dec sample_codec (sample_volume ''v'') (cs_mgr raced_state) =
       Throw (StatusException STATUS_DUPLICATE_VOLUME)"
    by (simp_all add: raced_state_def getResources_def volume_of_def sample_volume_def addResource_def
        duplicateName_def ready_state_def one_ring_def)
  with raced_steps show "\<exists>s. (config_step folly_dec sample_codec)\<^sup>*\<^sup>* start_state s \<and>
     map vi_name (getResources (cs_mgr s)) = [''v'', ''v''] \<and>
     addResource folly_dec sample_codec (sample_volume ''v'') (cs_mgr s) =
       Throw (StatusException STATUS_DUPLICATE_VOLUME)" by (intro exI [of _ raced_state] conjI)
qed

subsection \<open>One request at a time\<close>

text \<open>The same steps when a volume is only added while no other is being created.\<close>

definition serial_step :: "folly_ops \<Rightarrow> config_codec \<Rightarrow> config_state \<Rightarrow> config_state \<Rightarrow> bool" where
  "serial_step f C s t \<longleftrightarrow> config_step f C s t \<and>
     (cs_outResources s = [] \<or> length (cs_outResources t) \<le> length (cs_outResources s))"

definition names_inv :: "config_state \<Rightarrow> bool" where
  "names_inv s \<longleftrightarrow> config_inv s \<and> length (cs_outResources s) \<le> 1 \<and>
     distinct (map vi_name (getResources (cs_mgr s) @ cs_outResources s))"

lemma update_new: "k \<notin> fst ` set xs \<Longrightarrow> AList.update k v xs = xs @ [(k, v)]"
  by (induction xs) auto

lemma names_inv_step:
  assumes "names_inv s" and "serial_step f C s t"
  shows "names_inv t"
proof -
  have t: "config_inv t"
    using configI.step_inv assms by (auto simp: names_inv_def serial_step_def)
  have inv: "rings_inv s" "resources_inv s" "length (cs_outResources s) \<le> 1"
    "distinct (map vi_name (getResources (cs_mgr s) @ cs_outResources s))"
    using assms(1) by (auto simp: names_inv_def config_inv_def)
  have ser: "cs_outResources s = [] \<or> length (cs_outResources t) \<le> length (cs_outResources s)"
    and "config_step f C s t" using assms(2) by (auto simp: serial_step_def)
  from this(2) show ?thesis
  proof cases
    case (AddService info cm calls)
    then have "cm_resources cm = cm_resources (cs_mgr s)"
      by (auto simp: mgrAddService_def Let_def split: if_splits)
    with AddService(1) inv t show ?thesis by (simp add: names_inv_def getResources_def)
  next
    case (RingDone ring res cm e)
    from RingDone(3) show ?thesis
      by (cases rule: ringCreated_cases)
        (use RingDone(1) inv t in \<open>auto simp: names_inv_def getResources_def\<close>)
  next
    case (AddResource info cm calls)
    from AddResource(2) obtain p x v where
      cm: "cm = (cs_mgr s)\<lparr>cm_nextResourceId := cm_nextResourceId (cs_mgr s) + 1\<rparr>"
      and calls: "calls = [CreateResource p x v]" and v: "vi_name v = vi_name info"
        "\<not> duplicateName info (cs_mgr s)"
      by (rule addResource_cases)
    from AddResource(1) calls ser have out: "cs_outResources s = []" by auto
    have "vi_name v \<notin> vi_name ` snd ` set (cm_resources (cs_mgr s))"
      using v by (auto simp: duplicateName_def list_ex_iff)
    with AddResource(1) cm calls out inv t show ?thesis
      by (simp add: names_inv_def getResources_def image_image)
  next
    case (ResourceDone v res cm calls x)
    from inv(3) ResourceDone(2) have out: "cs_outResources s = [v]"
      by (cases "cs_outResources s") auto
    from ResourceDone(3) show ?thesis
    proof (cases rule: resourceCreated_cases)
      case 1
      with ResourceDone(1) out inv t show ?thesis by (simp add: names_inv_def getResources_def)
    next
      case 2
      have "vi_id v \<notin> fst ` set (cm_resources (cs_mgr s))"
        using inv(2) out by (auto simp: resources_inv_def)
      with 2 ResourceDone(1) out inv t show ?thesis
        by (simp add: names_inv_def getResources_def update_new)
    qed
  qed
qed

interpretation serialI: inv_system config_init "serial_step f C" names_inv for f C
proof unfold_locales
  show "names_inv s" if "config_init s" for s
    using that configI.init_inv [OF that]
    by (auto simp: names_inv_def config_init_def getResources_def ConfigMgr_new_def)
  show "names_inv t" if "names_inv s" "serial_step f C s t" for s t
    using that by (rule names_inv_step)
qed

text \<open>
  When volumes are added one at a time, names are unique: no reachable state has two volumes
  with the same name, counting the one being created.
\<close>

theorem serial_volume_names_unique:
  assumes "config_init s0" and "(serial_step f C)\<^sup>*\<^sup>* s0 s"
  shows "distinct (map vi_name (getResources (cs_mgr s) @ cs_outResources s))"
  using serialI.reachable_inv [OF assms] by (simp add: names_inv_def)

theorem serial_volume_names_unique_witness:
  "\<exists>s. (serial_step folly_dec sample_codec)\<^sup>*\<^sup>* start_state s \<and> cs_services s = [''a''] \<and>
     distinct (map vi_name (getResources (cs_mgr s) @ cs_outResources s))"
proof -
  have "serial_step folly_dec sample_codec start_state one_ring"
    using one_ring_step by (simp add: serial_step_def start_state_def)
  then have "(serial_step folly_dec sample_codec)\<^sup>*\<^sup>* start_state one_ring" by (rule r_into_rtranclp)
  moreover from serial_volume_names_unique [OF start_state_init this]
  have "distinct (map vi_name (getResources (cs_mgr one_ring) @ cs_outResources one_ring))" .
  ultimately show ?thesis by (auto simp: one_ring_def start_state_def)
qed

end
