(* ===== verification/Config_Service.thy ===== *)
theory Config_Service
  imports Config_Manager
begin

section \<open>The configuration service: \<open>src/configservice/ConfigService.cpp\<close>\<close>

text \<open>
  \<open>DatasphereConfigMgr\<close> keeps the services of one data sphere and its volume manager;
  \<open>ConfigService\<close> keeps the table of data spheres and \<open>ConfigApiHandler\<close> exposes it. These
  methods block until the coordination service has answered: \<open>create path payload\<close> is its
  answer to \<open>createIncludingAncestors\<close>, and the two halves of each manager operation
  (\<open>Config_Manager\<close>) run one after the other. A result is the new state with the exception
  thrown, if any; the mutexes guard single table accesses and are not modelled.
\<close>

type_synonym creator = "string \<Rightarrow> string \<Rightarrow> exn + string"

record DatasphereConfigMgr =
  dm_info :: DataSphereInfo
  dm_serviceCache :: "(string \<times> ServiceInfo) list"
  dm_volumes :: ConfigMgr

record ConfigService =
  cf_serviceEntryKey :: string
  cf_datomConfigured :: bool
  cf_datasphereTable :: "(string \<times> DatasphereConfigMgr) list"

subsection \<open>\<open>DatasphereConfigMgr\<close>\<close>

definition DatasphereConfigMgr_init :: "DataSphereInfo \<Rightarrow> DatasphereConfigMgr" where
  "DatasphereConfigMgr_init info =
     \<lparr>dm_info = info, dm_serviceCache = [], dm_volumes = ConfigMgr_new (ds_id info) PB_VOLUMES_TYPE 3\<rparr>"

text \<open>\<open>addFuture.get()\<close>: the calls of the manager are made and their answers delivered.\<close>

fun finishAddService ::
  "creator \<Rightarrow> config_call list \<Rightarrow> ConfigMgr \<Rightarrow> (ConfigMgr \<times> exn option) outcome" where
  "finishAddService create (CreateRing path payload ring # calls) cm =
     ringCreated ring (create path payload) cm"
| "finishAddService create calls cm = Ok (cm, None)"

definition dmAddService ::
  "folly_ops \<Rightarrow> config_codec \<Rightarrow> creator \<Rightarrow> ServiceInfo \<Rightarrow> DatasphereConfigMgr \<Rightarrow>
    (DatasphereConfigMgr \<times> exn option) outcome" where
  "dmAddService f C create info dm =
     (case create (SERVICE_ROOT_PATH (si_dataSphereId info) (si_id info)) (cc_service C info) of
        Inl e \<Rightarrow> Ok (dm, Some e)
      | Inr _ \<Rightarrow>
          let dm1 = dm\<lparr>dm_serviceCache := AList.update (si_id info) info (dm_serviceCache dm)\<rparr>
          in if si_type info \<noteq> VOLUME_SERVER then Ok (dm1, None)
             else
               (case mgrAddService f C info (dm_volumes dm1) of
                  Abort \<Rightarrow> Abort
                | Throw e \<Rightarrow> Ok (dm1, None)
                | Ok (cm, calls) \<Rightarrow>
                    (case finishAddService create calls cm of
                       Abort \<Rightarrow> Abort
                     | Throw e \<Rightarrow> Ok (dm1\<lparr>dm_volumes := cm\<rparr>, None)
                     | Ok (cm2, e) \<Rightarrow> Ok (dm1\<lparr>dm_volumes := cm2\<rparr>, None))))"

fun finishAddResource ::
  "folly_ops \<Rightarrow> config_codec \<Rightarrow> creator \<Rightarrow> config_call list \<Rightarrow> ConfigMgr \<Rightarrow>
    ConfigMgr \<times> config_call list \<times> (exn + VolumeInfo)" where
  "finishAddResource f C create (CreateResource path payload v # calls) cm =
     resourceCreated f C v (create path payload) cm"
| "finishAddResource f C create calls cm = (cm, [], Inl OtherException)"

definition dmAddVolume ::
  "folly_ops \<Rightarrow> config_codec \<Rightarrow> creator \<Rightarrow> VolumeInfo \<Rightarrow> DatasphereConfigMgr \<Rightarrow>
    (DatasphereConfigMgr \<times> config_call list \<times> (exn + VolumeInfo)) outcome" where
  "dmAddVolume f C create info dm =
     (case addResource f C info (dm_volumes dm) of
        Abort \<Rightarrow> Abort
      | Throw e \<Rightarrow> Ok (dm, [], Inl e)
      | Ok (cm, calls) \<Rightarrow>
          (case finishAddResource f C create calls cm of
             (cm2, published, r) \<Rightarrow> Ok (dm\<lparr>dm_volumes := cm2\<rparr>, published, r)))"

definition getServices :: "DatasphereConfigMgr \<Rightarrow> ServiceInfo list" where
  "getServices dm = map snd (dm_serviceCache dm)"

definition dmGetServiceInfo :: "string \<Rightarrow> DatasphereConfigMgr \<Rightarrow> ServiceInfo outcome" where
  "dmGetServiceInfo i dm =
     (case map_of (dm_serviceCache dm) i of None \<Rightarrow> Throw OtherException | Some s \<Rightarrow> Ok s)"

definition getVolumes :: "DatasphereConfigMgr \<Rightarrow> VolumeInfo list" where
  "getVolumes dm = getResources (dm_volumes dm)"

definition getVolumeRings :: "DatasphereConfigMgr \<Rightarrow> RingInfo list" where
  "getVolumeRings dm = getRings (dm_volumes dm)"

subsection \<open>\<open>ConfigService\<close>\<close>

definition ConfigService_new :: ConfigService where
  "ConfigService_new = \<lparr>cf_serviceEntryKey = [], cf_datomConfigured = False, cf_datasphereTable = []\<rparr>"

text \<open>
  \<open>init\<close>, after the coordination client and the connection cache: \<open>entry\<close> is the answer to the
  read of the entry key; the flag says whether the service publishes itself.
\<close>

definition ConfigService_init :: "exn + string \<Rightarrow> ConfigService \<Rightarrow> ConfigService \<times> bool \<times> exn option" where
  "ConfigService_init entry cf =
     (let cf1 = cf\<lparr>cf_serviceEntryKey := CONFIGSERVICE_ROOT\<rparr>
      in case entry of
           Inr _ \<Rightarrow> (cf1\<lparr>cf_datomConfigured := True\<rparr>, True, None)
         | Inl e \<Rightarrow>
             if e = StatusException STATUS_INVALID_KEY
             then (cf1\<lparr>cf_datomConfigured := False\<rparr>, False, None)
             else (cf1, False, Some e))"

definition getDatasphereOrThrow :: "string \<Rightarrow> ConfigService \<Rightarrow> DatasphereConfigMgr outcome" where
  "getDatasphereOrThrow i cf =
     (case map_of (cf_datasphereTable cf) i of
        None \<Rightarrow> Throw (StatusException STATUS_INVALID_DATASPHERE)
      | Some dm \<Rightarrow> Ok dm)"

definition setDatasphere :: "string \<Rightarrow> DatasphereConfigMgr \<Rightarrow> ConfigService \<Rightarrow> ConfigService" where
  "setDatasphere i dm cf = cf\<lparr>cf_datasphereTable := AList.update i dm (cf_datasphereTable cf)\<rparr>"

definition addDataSphere ::
  "config_codec \<Rightarrow> creator \<Rightarrow> DataSphereInfo \<Rightarrow> ConfigService \<Rightarrow> ConfigService \<times> exn option" where
  "addDataSphere C create info cf =
     (case create (DATASPHERE_ROOT_PATH (ds_id info)) (cc_datasphere C info) of
        Inl e \<Rightarrow> (cf, Some e)
      | Inr _ \<Rightarrow> (setDatasphere (ds_id info) (DatasphereConfigMgr_init info) cf, None))"

definition addService ::
  "folly_ops \<Rightarrow> config_codec \<Rightarrow> creator \<Rightarrow> ServiceInfo \<Rightarrow> ConfigService \<Rightarrow>
    (ConfigService \<times> exn option) outcome" where
  "addService f C create info cf =
     (case getDatasphereOrThrow (si_dataSphereId info) cf of
        Abort \<Rightarrow> Abort
      | Throw e \<Rightarrow> Ok (cf, Some e)
      | Ok dm \<Rightarrow>
          obind (dmAddService f C create info dm) (\<lambda>(dm1, e).
          Ok (setDatasphere (si_dataSphereId info) dm1 cf, e)))"

definition addVolume ::
  "folly_ops \<Rightarrow> config_codec \<Rightarrow> creator \<Rightarrow> VolumeInfo \<Rightarrow> ConfigService \<Rightarrow>
    (ConfigService \<times> config_call list \<times> (exn + VolumeInfo)) outcome" where
  "addVolume f C create info cf =
     (case getDatasphereOrThrow (vi_datasphereId info) cf of
        Abort \<Rightarrow> Abort
      | Throw e \<Rightarrow> Ok (cf, [], Inl e)
      | Ok dm \<Rightarrow>
          obind (dmAddVolume f C create info dm) (\<lambda>(dm1, published, r).
          Ok (setDatasphere (vi_datasphereId info) dm1 cf, published, r)))"

definition listServices :: "string \<Rightarrow> ConfigService \<Rightarrow> ServiceInfo list outcome" where
  "listServices i cf = obind (getDatasphereOrThrow i cf) (\<lambda>dm. Ok (getServices dm))"

definition listVolumes :: "string \<Rightarrow> ConfigService \<Rightarrow> VolumeInfo list outcome" where
  "listVolumes i cf = obind (getDatasphereOrThrow i cf) (\<lambda>dm. Ok (getVolumes dm))"

definition listVolumeRings :: "string \<Rightarrow> ConfigService \<Rightarrow> RingInfo list outcome" where
  "listVolumeRings i cf = obind (getDatasphereOrThrow i cf) (\<lambda>dm. Ok (getVolumeRings dm))"

definition getServiceInfo :: "string \<Rightarrow> string \<Rightarrow> ConfigService \<Rightarrow> ServiceInfo outcome" where
  "getServiceInfo ds i cf = obind (getDatasphereOrThrow ds cf) (dmGetServiceInfo i)"

subsection \<open>Bringing up a data sphere\<close>

text \<open>Services added one after the other; the first exception stops.\<close>

fun addServices ::
  "folly_ops \<Rightarrow> config_codec \<Rightarrow> creator \<Rightarrow> ServiceInfo list \<Rightarrow> ConfigService \<Rightarrow>
    (ConfigService \<times> exn option) outcome" where
  "addServices f C create [] cf = Ok (cf, None)"
| "addServices f C create (i # infos) cf =
     obind (addService f C create i cf) (\<lambda>(cf1, e).
       case e of None \<Rightarrow> addServices f C create infos cf1 | Some x \<Rightarrow> Ok (cf1, Some x))"

definition volumeServers :: "ServiceInfo list \<Rightarrow> string list" where
  "volumeServers infos = map si_id (filter (\<lambda>i. si_type i = VOLUME_SERVER) infos)"

definition grouped :: "string list \<Rightarrow> ConfigMgr \<Rightarrow> bool" where
  "grouped vs cm \<longleftrightarrow> cm_replicaFactor cm = 3 \<and> length (cm_pendingServices cm) < 3 \<and>
     concat (map ri_memberIds (getRings cm)) @ cm_pendingServices cm = vs \<and>
     (\<forall>r \<in> set (getRings cm). length (ri_memberIds r) = 3) \<and>
     map ri_id (getRings cm) = map int [0..<length (getRings cm)] \<and>
     map fst (cm_rings cm) = map int [0..<length (cm_rings cm)] \<and>
     cm_nextAddRingId cm = int (length (cm_rings cm))"

lemma length_concat_3: "\<forall>r \<in> set rs. length (ri_memberIds r) = 3 \<Longrightarrow>
    length (concat (map ri_memberIds rs)) = 3 * length rs"
  by (induction rs) auto

lemma grouped_rings:
  assumes "grouped vs cm"
  shows "length (getRings cm) = length vs div 3"
    and "concat (map ri_memberIds (getRings cm)) = take (3 * (length vs div 3)) vs"
proof -
  have c: "length (concat (map ri_memberIds (getRings cm))) = 3 * length (getRings cm)"
    using assms length_concat_3 by (auto simp: grouped_def)
  have vs: "vs = concat (map ri_memberIds (getRings cm)) @ cm_pendingServices cm"
    using assms by (simp add: grouped_def)
  have "length vs = 3 * length (getRings cm) + length (cm_pendingServices cm)"
    by (subst vs) (simp only: length_append c)
  with assms show n: "length (getRings cm) = length vs div 3" by (simp add: grouped_def)
  show "concat (map ri_memberIds (getRings cm)) = take (3 * (length vs div 3)) vs"
    by (subst (2) vs) (simp add: c n [symmetric])
qed

lemma grouped_add:
  assumes "grouped vs cm" and "\<forall>p s. \<exists>d. create p s = Inr d"
  shows "\<exists>cm1 calls cm2. mgrAddService f C info cm = Ok (cm1, calls) \<and>
    finishAddService create calls cm1 = Ok (cm2, None) \<and> grouped (vs @ [si_id info]) cm2"
proof -
  have inv: "0 < cm_replicaFactor cm" "cm_replicaFactor cm < 2 ^ 31"
    "int (length (cm_pendingServices cm)) < cm_replicaFactor cm"
    using assms(1) by (auto simp: grouped_def)
  then have "as_u64 (cm_replicaFactor cm) = cm_replicaFactor cm"
    by (rule_tac as_u64_replicaFactor)
  then have "\<exists>cm1 calls. mgrAddService f C info cm = Ok (cm1, calls)"
    using assms(1) inv(3)
    by (cases "length (cm_pendingServices cm) = 2") (auto simp: mgrAddService_def grouped_def Let_def)
  then obtain cm1 calls where op: "mgrAddService f C info cm = Ok (cm1, calls)" by blast
  from op inv show ?thesis
  proof (cases rule: mgrAddService_cases)
    case wait
    with op assms(1) show ?thesis by (auto simp: grouped_def getRings_def)
  next
    case (form p s)
    let ?ring = "\<lparr>ri_id = cm_nextAddRingId cm, ri_memberIds = cm_pendingServices cm @ [si_id info]\<rparr>"
    have fresh: "cm_nextAddRingId cm \<notin> fst ` set (cm_rings cm)"
    proof -
      have "map fst (cm_rings cm) = map int [0..<length (cm_rings cm)]"
        using assms(1) by (simp add: grouped_def)
      then have "set (map fst (cm_rings cm)) = set (map int [0..<length (cm_rings cm)])" by (rule arg_cong)
      then have "fst ` set (cm_rings cm) = int ` {0..<length (cm_rings cm)}" by simp
      moreover have "cm_nextAddRingId cm = int (length (cm_rings cm))"
        using assms(1) by (simp add: grouped_def)
      ultimately show ?thesis by auto
    qed
    from assms(2) obtain d where "create p s = Inr d" by blast
    with form(3) have "finishAddService create calls cm1 =
        Ok (cm1\<lparr>cm_rings := cm_rings cm @ [(cm_nextAddRingId cm, ?ring)]\<rparr>, None)"
      by (simp add: ringCreated_def form(1) update_new [OF fresh])
    moreover have "grouped (vs @ [si_id info]) (cm1\<lparr>cm_rings := cm_rings cm @ [(cm_nextAddRingId cm, ?ring)]\<rparr>)"
      using assms(1) form(2) by (auto simp: grouped_def getRings_def form(1))
    ultimately show ?thesis using op by blast
  qed
qed

lemma dmAddService_grouped:
  assumes "grouped vs (dm_volumes dm)" and "\<forall>p s. \<exists>d. create p s = Inr d"
  shows "\<exists>dm'. dmAddService f C create info dm = Ok (dm', None) \<and>
    dm_serviceCache dm' = AList.update (si_id info) info (dm_serviceCache dm) \<and>
    grouped (vs @ volumeServers [info]) (dm_volumes dm')"
proof -
  from assms(2) obtain d where
    d: "create (SERVICE_ROOT_PATH (si_dataSphereId info) (si_id info)) (cc_service C info) = Inr d" by blast
  show ?thesis
  proof (cases "si_type info = VOLUME_SERVER")
    case False
    with assms(1) d show ?thesis by (simp add: dmAddService_def volumeServers_def)
  next
    case True
    with grouped_add [OF assms, of f C info] d show ?thesis
      by (auto simp: dmAddService_def volumeServers_def)
  qed
qed

lemma volumeServers_Cons: "volumeServers (i # infos) = volumeServers [i] @ volumeServers infos"
  by (simp add: volumeServers_def)

lemma addServices_grouped:
  assumes "map_of (cf_datasphereTable cf) d = Some dm" and "grouped vs (dm_volumes dm)"
    and "\<forall>p s. \<exists>x. create p s = Inr x" and "\<forall>i \<in> set infos. si_dataSphereId i = d"
  shows "\<exists>cf' dm'. addServices f C create infos cf = Ok (cf', None) \<and>
    map_of (cf_datasphereTable cf') d = Some dm' \<and> grouped (vs @ volumeServers infos) (dm_volumes dm') \<and>
    dm_serviceCache dm' = fold (\<lambda>i. AList.update (si_id i) i) infos (dm_serviceCache dm)"
  using assms
proof (induction infos arbitrary: cf dm vs)
  case Nil
  then show ?case by (simp add: volumeServers_def)
next
  case (Cons i infos)
  obtain dm1 where dm1: "dmAddService f C create i dm = Ok (dm1, None)"
    "dm_serviceCache dm1 = AList.update (si_id i) i (dm_serviceCache dm)"
    "grouped (vs @ volumeServers [i]) (dm_volumes dm1)"
    using dmAddService_grouped [OF Cons.prems(2,3)] by blast
  let ?cf = "setDatasphere d dm1 cf"
  have step: "addService f C create i cf = Ok (?cf, None)"
    using Cons.prems(1,4) dm1(1) by (simp add: addService_def getDatasphereOrThrow_def)
  have "map_of (cf_datasphereTable ?cf) d = Some dm1"
    by (simp add: setDatasphere_def update_conv')
  from Cons.IH [OF this dm1(3) Cons.prems(3)] Cons.prems(4) step dm1(2) show ?case
    by (simp add: volumeServers_Cons [of i infos])
qed

lemma map_of_fold_services:
  assumes "distinct (map si_id infos)" and "i \<in> set infos"
  shows "map_of (fold (\<lambda>i. AList.update (si_id i) i) infos xs) (si_id i) = Some i"
  using assms
proof (induction infos arbitrary: xs rule: rev_induct)
  case (snoc j infos)
  then show ?case by (auto simp: update_conv' image_iff)
qed simp

text \<open>
  A data sphere comes up as documented: after it is created and services are added to it one
  after the other, with a coordination service that accepts every node, the volume servers among
  them form rings of exactly three in the order they were added, numbered from 0, with the last
  one or two waiting; every service, of whatever type, can be looked up.
\<close>

theorem datasphere_bring_up:
  assumes "\<forall>p s. \<exists>x. create p s = Inr x" and "\<forall>i \<in> set infos. si_dataSphereId i = d"
    and "distinct (map si_id infos)"
  shows "\<exists>cf' rings. addServices f C create infos (fst (addDataSphere C create \<lparr>ds_id = d\<rparr> cf)) = Ok (cf', None) \<and>
    listVolumeRings d cf' = Ok rings \<and>
    map ri_id rings = map int [0..<length (volumeServers infos) div 3] \<and>
    (\<forall>r \<in> set rings. length (ri_memberIds r) = 3) \<and>
    concat (map ri_memberIds rings) =
      take (3 * (length (volumeServers infos) div 3)) (volumeServers infos) \<and>
    (\<forall>i \<in> set infos. getServiceInfo d (si_id i) cf' = Ok i)"
proof -
  let ?cf = "fst (addDataSphere C create \<lparr>ds_id = d\<rparr> cf)"
  let ?dm = "DatasphereConfigMgr_init \<lparr>ds_id = d\<rparr>"
  from assms(1) obtain x where "create (DATASPHERE_ROOT_PATH d) (cc_datasphere C \<lparr>ds_id = d\<rparr>) = Inr x" by blast
  then have "map_of (cf_datasphereTable ?cf) d = Some ?dm"
    by (simp add: addDataSphere_def setDatasphere_def update_conv')
  moreover have "grouped [] (dm_volumes ?dm)"
    by (simp add: grouped_def DatasphereConfigMgr_init_def ConfigMgr_new_def getRings_def)
  ultimately obtain cf' dm' where r: "addServices f C create infos ?cf = Ok (cf', None)"
    "map_of (cf_datasphereTable cf') d = Some dm'" "grouped (volumeServers infos) (dm_volumes dm')"
    "dm_serviceCache dm' = fold (\<lambda>i. AList.update (si_id i) i) infos []"
    using addServices_grouped [OF _ _ assms(1,2), of ?cf ?dm "[]"]
    by (fastforce simp: DatasphereConfigMgr_init_def)
  have "map ri_id (getRings (dm_volumes dm')) = map int [0..<length (getRings (dm_volumes dm'))]"
    "\<forall>x \<in> set (getRings (dm_volumes dm')). length (ri_memberIds x) = 3"
    using r(3) unfolding grouped_def by blast+
  with r grouped_rings [OF r(3)] map_of_fold_services [OF assms(3)] show ?thesis
    by (simp add: listVolumeRings_def getServiceInfo_def getDatasphereOrThrow_def getVolumeRings_def
        dmGetServiceInfo_def)
qed

theorem datasphere_bring_up_witness:
  "\<exists>cf' rings. addServices folly_dec sample_codec (\<lambda>p s. Inr p) (map sample_service [''a'', ''b'', ''c'', ''x''])
       (fst (addDataSphere sample_codec (\<lambda>p s. Inr p) \<lparr>ds_id = ''d''\<rparr> ConfigService_new)) = Ok (cf', None) \<and>
     listVolumeRings ''d'' cf' = Ok rings \<and> concat (map ri_memberIds rings) = [''a'', ''b'', ''c'']"
proof -
  have vs: "volumeServers (map sample_service [''a'', ''b'', ''c'', ''x'']) = [''a'', ''b'', ''c'', ''x'']"
    by (simp add: volumeServers_def sample_service_def)
  have "\<forall>i \<in> set (map sample_service [''a'', ''b'', ''c'', ''x'']). si_dataSphereId i = ''d''"
    "distinct (map si_id (map sample_service [''a'', ''b'', ''c'', ''x'']))"
    by (simp_all add: sample_service_def)
  from datasphere_bring_up [OF _ this, of "\<lambda>p s. Inr p" folly_dec sample_codec ConfigService_new]
  show ?thesis unfolding vs by auto
qed

text \<open>
  A restarted configuration service does not know the data spheres it configured: if Datom is
  already configured, \<open>init\<close> reports it configured but the table stays empty, so adding a service
  or a volume to any data sphere fails with \<open>STATUS_INVALID_DATASPHERE\<close> and changes nothing.
\<close>

theorem restart_forgets_dataspheres:
  "ConfigService_init (Inr v) ConfigService_new =
     (ConfigService_new\<lparr>cf_serviceEntryKey := CONFIGSERVICE_ROOT, cf_datomConfigured := True\<rparr>, True, None) \<and>
   addService f C create info (fst (ConfigService_init (Inr v) ConfigService_new)) =
     Ok (fst (ConfigService_init (Inr v) ConfigService_new), Some (StatusException STATUS_INVALID_DATASPHERE)) \<and>
   addVolume f C create vol (fst (ConfigService_init (Inr v) ConfigService_new)) =
     Ok (fst (ConfigService_init (Inr v) ConfigService_new), [], Inl (StatusException STATUS_INVALID_DATASPHERE))"
  by (simp add: ConfigService_init_def addService_def addVolume_def getDatasphereOrThrow_def
      ConfigService_new_def)

end
