(* ===== verification/Coordination_Client.thy ===== *)
theory Coordination_Client
  imports Datom_Types
begin

section \<open>The coordination client: \<open>src/infra/ZooKafkaClient.cpp\<close>\<close>

text \<open>
  \<open>ZooKafkaClient\<close> wraps the C client of ZooKeeper. ZooKeeper itself is not part of the
  repository: it is the record \<open>zookeeper\<close>, an argument, whose calls change its state \<open>'z\<close> and
  give a return code and the data of the completion. \<open>zk_ok\<close> states the documented behaviour of
  persistent nodes, \<open>mem_zk\<close> is an instance. Each operation of the client is the call, the
  immediate failure if the call is refused, and the completion callback, composed.
\<close>

subsection \<open>Error codes\<close>

definition ZOK :: int where "ZOK = 0"
definition ZBADARGUMENTS :: int where "ZBADARGUMENTS = -8"
definition ZINVALIDSTATE :: int where "ZINVALIDSTATE = -9"
definition ZNONODE :: int where "ZNONODE = -101"
definition ZNODEEXISTS :: int where "ZNODEEXISTS = -110"
definition ZOO_EPHEMERAL :: int where "ZOO_EPHEMERAL = 1"
definition ZOO_SEQUENCE :: int where "ZOO_SEQUENCE = 2"
definition ZOO_CONNECTED_STATE :: int where "ZOO_CONNECTED_STATE = 3"
definition ZOO_CONNECTING_STATE :: int where "ZOO_CONNECTING_STATE = 1"
definition ZOO_ASSOCIATING_STATE :: int where "ZOO_ASSOCIATING_STATE = 2"
definition ZOO_EXPIRED_SESSION_STATE :: int where "ZOO_EXPIRED_SESSION_STATE = -112"
definition ZOO_AUTH_FAILED_STATE :: int where "ZOO_AUTH_FAILED_STATE = -113"
definition ZOO_CREATED_EVENT :: int where "ZOO_CREATED_EVENT = 1"
definition ZOO_DELETED_EVENT :: int where "ZOO_DELETED_EVENT = 2"
definition ZOO_CHANGED_EVENT :: int where "ZOO_CHANGED_EVENT = 3"
definition ZOO_CHILD_EVENT :: int where "ZOO_CHILD_EVENT = 4"
definition ZOO_SESSION_EVENT :: int where "ZOO_SESSION_EVENT = -1"
definition ZOO_NOTWATCHING_EVENT :: int where "ZOO_NOTWATCHING_EVENT = -2"
definition ZCONNECTIONLOSS :: int where "ZCONNECTIONLOSS = -4"
definition ZOPERATIONTIMEOUT :: int where "ZOPERATIONTIMEOUT = -7"
definition ZNOTEMPTY :: int where "ZNOTEMPTY = -111"

definition toStatusException :: "int \<Rightarrow> exn" where
  "toStatusException zkError =
     StatusException
       (if zkError = ZNONODE then STATUS_INVALID_KEY
        else if zkError = ZNODEEXISTS then STATUS_DUPLICATE_KEY
        else STATUS_INVALID)"

lemmas zk_codes = ZOK_def ZBADARGUMENTS_def ZINVALIDSTATE_def ZNONODE_def ZNODEEXISTS_def ZCONNECTIONLOSS_def
  ZOPERATIONTIMEOUT_def ZNOTEMPTY_def

lemmas zk_events = ZOO_CREATED_EVENT_def ZOO_DELETED_EVENT_def ZOO_CHANGED_EVENT_def
  ZOO_CHILD_EVENT_def ZOO_SESSION_EVENT_def ZOO_NOTWATCHING_EVENT_def

lemmas zk_states = ZOO_CONNECTED_STATE_def ZOO_CONNECTING_STATE_def ZOO_ASSOCIATING_STATE_def
  ZOO_EXPIRED_SESSION_STATE_def ZOO_AUTH_FAILED_STATE_def

subsection \<open>ZooKeeper\<close>

text \<open>
  A call either is refused with a code (\<open>Inl\<close>) or completes with a code and data (\<open>Inr\<close>).
  Stored data is bytes; \<open>zk_nodes\<close> gives the value and the version of each node, \<open>zk_ephemeral\<close>
  says which nodes are ephemeral.
\<close>

type_synonym 'd zk_answer = "int + int \<times> 'd"

record 'z zookeeper =
  zk_create :: "string \<Rightarrow> string \<Rightarrow> int \<Rightarrow> 'z \<Rightarrow> 'z \<times> string zk_answer"
  zk_set :: "string \<Rightarrow> string \<Rightarrow> int \<Rightarrow> 'z \<Rightarrow> 'z \<times> int zk_answer"
  zk_delete :: "string \<Rightarrow> int \<Rightarrow> 'z \<Rightarrow> 'z \<times> unit zk_answer"
  zk_get :: "string \<Rightarrow> 'z \<Rightarrow> 'z \<times> (bytes \<times> int) zk_answer"
  zk_children :: "string \<Rightarrow> bool \<Rightarrow> 'z \<Rightarrow> 'z \<times> string list zk_answer"
  zk_nodes :: "'z \<Rightarrow> string \<Rightarrow> (string \<times> int) option"
  zk_ephemeral :: "'z \<Rightarrow> string \<Rightarrow> bool"

text \<open>The node a path is created under: everything before its last slash.\<close>

definition parent_path :: "string \<Rightarrow> string" where
  "parent_path p = rev (tl (dropWhile (\<lambda>c. c \<noteq> CHR ''/'') (rev p)))"

text \<open>
  The paths of ZooKeeper. A path is absolute, and its names, between the slashes, are not empty, not
  \<open>.\<close> or \<open>..\<close>, and have no control characters; \<open>zookeeper\<close> is reserved at the root. \<open>zk_path\<close> holds
  for such paths in ASCII, without the root itself. The client refuses a path that is relative or
  has an empty name (\<open>zk_bad_path\<close>). A request must be smaller than the limit of the server,
  1048575 bytes unless it is configured; \<open>zk_small\<close> leaves half of that to the rest of the request.
\<close>

fun segments :: "string \<Rightarrow> string list" where
  "segments [] = [[]]"
| "segments (c # cs) =
     (if c = CHR ''/'' then [] # segments cs
      else case segments cs of [] \<Rightarrow> [[c]] | s # ss \<Rightarrow> (c # s) # ss)"

definition zk_name :: "string \<Rightarrow> bool" where
  "zk_name s \<longleftrightarrow> s \<noteq> [] \<and> s \<noteq> ''.'' \<and> s \<noteq> ''..'' \<and> list_all (\<lambda>c. 32 \<le> (of_char c :: nat) \<and> (of_char c :: nat) < 127) s"

definition zk_path :: "string \<Rightarrow> bool" where
  "zk_path p \<longleftrightarrow> (case p of
     [] \<Rightarrow> False
   | c # cs \<Rightarrow> c = CHR ''/'' \<and> list_all zk_name (segments cs) \<and> hd (segments cs) \<noteq> ''zookeeper'')"

definition zk_bad_path :: "string \<Rightarrow> bool" where
  "zk_bad_path p \<longleftrightarrow> (case p of
     [] \<Rightarrow> True
   | c # cs \<Rightarrow> c \<noteq> CHR ''/'' \<or> (cs \<noteq> [] \<and> [] \<in> set (segments cs)))"

definition zk_small :: "string \<Rightarrow> string \<Rightarrow> bool" where
  "zk_small p v \<longleftrightarrow> length p + length v < 2 ^ 19"

text \<open>
  Creating persistent nodes: a node that is there, a missing parent, a new node (its parent is the
  root or a persistent node), and a malformed path.
\<close>

definition zk_ok :: "'z zookeeper \<Rightarrow> bool" where
  "zk_ok Z \<longleftrightarrow>
     (\<forall>p v z. zk_path p \<longrightarrow> zk_small p v \<longrightarrow> zk_nodes Z z p \<noteq> None \<longrightarrow>
        (\<exists>d. zk_create Z p v 0 z = (z, Inr (ZNODEEXISTS, d)))) \<and>
     (\<forall>p v z. zk_path p \<longrightarrow> zk_small p v \<longrightarrow> zk_nodes Z z p = None \<longrightarrow> parent_path p \<noteq> [] \<longrightarrow>
        zk_nodes Z z (parent_path p) = None \<longrightarrow>
        (\<exists>d. zk_create Z p v 0 z = (z, Inr (ZNONODE, d)))) \<and>
     (\<forall>p v z. zk_path p \<longrightarrow> zk_small p v \<longrightarrow> zk_nodes Z z p = None \<longrightarrow>
        parent_path p = [] \<or> (zk_nodes Z z (parent_path p) \<noteq> None \<and> \<not> zk_ephemeral Z z (parent_path p)) \<longrightarrow>
        (\<exists>z'. zk_create Z p v 0 z = (z', Inr (ZOK, p)) \<and>
              zk_nodes Z z' = (zk_nodes Z z)(p \<mapsto> (v, 0)) \<and> zk_ephemeral Z z' = zk_ephemeral Z z)) \<and>
     (\<forall>p v z. zk_bad_path p \<longrightarrow> zk_create Z p v 0 z = (z, Inl ZBADARGUMENTS))"

subsection \<open>Operations\<close>

text \<open>The shape of every asynchronous operation: refused, failed, or completed.\<close>

definition complete :: "'z \<times> 'd zk_answer \<Rightarrow> ('d \<Rightarrow> 'r) \<Rightarrow> 'z \<times> (exn + 'r)" where
  "complete za f =
     (fst za,
      case snd za of
        Inl rc \<Rightarrow> Inl (toStatusException rc)
      | Inr (rc, d) \<Rightarrow> if rc \<noteq> ZOK then Inl (toStatusException rc) else Inr (f d))"

definition createCommon ::
  "'z zookeeper \<Rightarrow> string \<Rightarrow> string \<Rightarrow> int \<Rightarrow> 'z \<Rightarrow> 'z \<times> (exn + string)" where
  "createCommon Z key val flags z = complete (zk_create Z key val flags z) (\<lambda>v. v)"

definition zkc_create :: "'z zookeeper \<Rightarrow> string \<Rightarrow> string \<Rightarrow> 'z \<Rightarrow> 'z \<times> (exn + string)" where
  "zkc_create Z key val z = createCommon Z key val 0 z"

definition createEphemeral ::
  "'z zookeeper \<Rightarrow> string \<Rightarrow> string \<Rightarrow> bool \<Rightarrow> 'z \<Rightarrow> 'z \<times> (exn + string)" where
  "createEphemeral Z key val sequential z =
     createCommon Z key val (if sequential then ZOO_EPHEMERAL + ZOO_SEQUENCE else ZOO_EPHEMERAL) z"

text \<open>
  The paths \<open>createIncludingAncestors\<close> visits: the key cut before every slash from its second
  character on, then the key.
\<close>

fun pathsFrom :: "string \<Rightarrow> string \<Rightarrow> string list" where
  "pathsFrom pre [] = [pre]"
| "pathsFrom pre (c # cs) =
     (if c = CHR ''/'' then pre # pathsFrom (pre @ [c]) cs else pathsFrom (pre @ [c]) cs)"

definition ancestorPaths :: "string \<Rightarrow> string list" where
  "ancestorPaths key = pathsFrom (take 1 key) (drop 1 key)"

text \<open>
  The chain of futures: a failure other than \<open>STATUS_DUPLICATE_KEY\<close> of the previous create ends
  it, otherwise the next path is created, always with the key's value.
\<close>

fun createChain ::
  "'z zookeeper \<Rightarrow> string \<Rightarrow> string list \<Rightarrow> exn + string \<Rightarrow> 'z \<Rightarrow> 'z \<times> (exn + string)" where
  "createChain Z val [] prev z = (z, prev)"
| "createChain Z val (path # paths) prev z =
     (case prev of
        Inl e \<Rightarrow>
          if e \<noteq> StatusException STATUS_DUPLICATE_KEY then createChain Z val paths (Inl e) z
          else (case zkc_create Z path val z of (z1, r) \<Rightarrow> createChain Z val paths r z1)
      | Inr _ \<Rightarrow> (case zkc_create Z path val z of (z1, r) \<Rightarrow> createChain Z val paths r z1))"

definition createIncludingAncestors ::
  "'z zookeeper \<Rightarrow> string \<Rightarrow> string \<Rightarrow> 'z \<Rightarrow> 'z \<times> (exn + string)" where
  "createIncludingAncestors Z key val z = createChain Z val (ancestorPaths key) (Inr []) z"

definition zkc_set :: "'z zookeeper \<Rightarrow> string \<Rightarrow> string \<Rightarrow> int \<Rightarrow> 'z \<Rightarrow> 'z \<times> (exn + int)" where
  "zkc_set Z key val version z = complete (zk_set Z key val version z) (\<lambda>v. v)"

definition zkc_del :: "'z zookeeper \<Rightarrow> string \<Rightarrow> int \<Rightarrow> 'z \<Rightarrow> 'z \<times> (exn + unit)" where
  "zkc_del Z key version z = complete (zk_delete Z key version z) (\<lambda>v. v)"

definition zkc_get :: "'z zookeeper \<Rightarrow> folly_ops \<Rightarrow> string \<Rightarrow> 'z \<Rightarrow> 'z \<times> (exn + KVBuffer)" where
  "zkc_get Z f key z =
     complete (zk_get Z key z)
       (\<lambda>(val, version). (setVersion f KVBuffer_new version)\<lparr>kv_payload := Some val\<rparr>)"

definition getChildrenSimple ::
  "'z zookeeper \<Rightarrow> string \<Rightarrow> bool \<Rightarrow> 'z \<Rightarrow> 'z \<times> (exn + string list)" where
  "getChildrenSimple Z key watch z = complete (zk_children Z key watch z) (\<lambda>cs. cs)"

fun getChildrenLoop ::
  "'z zookeeper \<Rightarrow> folly_ops \<Rightarrow> string \<Rightarrow> string list \<Rightarrow> KVBuffer list \<Rightarrow> 'z \<Rightarrow> 'z \<times> (exn + KVBuffer list)" where
  "getChildrenLoop Z f key [] ret z = (z, Inr ret)"
| "getChildrenLoop Z f key (c # cs) ret z =
     (case zkc_get Z f (key @ ''/'' @ c) z of
        (z1, Inl e) \<Rightarrow> (z1, Inl e)
      | (z1, Inr data) \<Rightarrow> getChildrenLoop Z f key cs (ret @ [setId data c]) z1)"

definition getChildrenSync ::
  "'z zookeeper \<Rightarrow> folly_ops \<Rightarrow> string \<Rightarrow> 'z \<Rightarrow> 'z \<times> (exn + KVBuffer list)" where
  "getChildrenSync Z f key z =
     (case getChildrenSimple Z key False z of
        (z1, Inl e) \<Rightarrow> (z1, Inl e)
      | (z1, Inr children) \<Rightarrow> getChildrenLoop Z f key children [] z1)"

subsection \<open>Connecting\<close>

text \<open>
  The wait for the connection: \<open>st n\<close> is the state \<open>zoo_state\<close> reports after \<open>n\<close> sleeps of two
  seconds. The result is the number of sleeps.
\<close>

function waitConnected :: "(nat \<Rightarrow> int) \<Rightarrow> int \<Rightarrow> int \<Rightarrow> nat \<Rightarrow> nat" where
  "waitConnected st seconds secondsElapsed n =
     (if st n = ZOO_CONNECTED_STATE \<or> st n = 0 \<or> secondsElapsed > seconds then n
      else waitConnected st seconds (secondsElapsed + 2) (n + 1))"
  by auto

termination
  by (relation "measure (\<lambda>(st, s, e, n). nat (s - e + 1))") auto

declare waitConnected.simps [simp del]

text \<open>\<open>zoo_state\<close> is read once more after the loop: \<open>final\<close> is that reading.\<close>

definition blockUntilConnectedOrTimedOut :: "(nat \<Rightarrow> int) \<Rightarrow> int \<Rightarrow> int \<Rightarrow> nat \<times> unit outcome" where
  "blockUntilConnectedOrTimedOut st final seconds =
     (waitConnected st seconds 0 0,
      if final \<noteq> ZOO_CONNECTED_STATE then Throw (toStatusException ZINVALIDSTATE) else Ok ())"

text \<open>
  \<open>init\<close> retries for ever; \<open>attempts\<close> are the successive handles (None when \<open>zookeeper_init\<close>
  fails, which is fatal) with their states. None as a result: still trying.
\<close>

fun zkc_init :: "((nat \<Rightarrow> int) \<times> int) option list \<Rightarrow> nat \<Rightarrow> nat outcome option" where
  "zkc_init [] tries = None"
| "zkc_init (a # attempts) tries =
     (case a of
        None \<Rightarrow> Some Abort
      | Some (st, final) \<Rightarrow>
          (case blockUntilConnectedOrTimedOut st final 5 of
             (_, Ok _) \<Rightarrow> Some (Ok tries)
           | _ \<Rightarrow> zkc_init attempts (tries + 1)))"

subsection \<open>Which nodes a create with ancestors makes\<close>

lemma parent_path_snoc: "parent_path (p @ [c]) = (if c = CHR ''/'' then p else parent_path p)"
  by (simp add: parent_path_def)

fun linked :: "string \<Rightarrow> string list \<Rightarrow> bool" where
  "linked q [] = True"
| "linked q (p # ps) = (parent_path p = q \<and> linked p ps)"

lemma linked_pathsFrom: "linked (parent_path pre) (pathsFrom pre cs)"
  by (induction pre cs rule: pathsFrom.induct) (auto simp: parent_path_snoc)

lemma pathsFrom_length: "p \<in> set (pathsFrom pre cs) \<Longrightarrow> length pre \<le> length p"
  by (induction pre cs rule: pathsFrom.induct) (auto split: if_splits)

lemma distinct_pathsFrom: "distinct (pathsFrom pre cs)"
proof (induction pre cs rule: pathsFrom.induct)
  case (2 pre c cs)
  have "pre \<notin> set (pathsFrom (pre @ [c]) cs)"
    using pathsFrom_length [of pre "pre @ [c]" cs] by auto
  with 2 show ?case by auto
qed simp

lemma pathsFrom_not_Nil [simp]: "pathsFrom pre cs \<noteq> []"
  by (induction pre cs rule: pathsFrom.induct) auto

lemma last_pathsFrom: "last (pathsFrom pre cs) = pre @ cs"
  by (induction pre cs rule: pathsFrom.induct) auto

lemma last_ancestorPaths: "last (ancestorPaths key) = key"
  by (simp add: ancestorPaths_def last_pathsFrom)

text \<open>One create of a persistent node whose parent exists.\<close>

definition with_node ::
  "string \<Rightarrow> string \<Rightarrow> (string \<Rightarrow> (string \<times> int) option) \<Rightarrow> string \<Rightarrow> (string \<times> int) option" where
  "with_node v p m = (if m p = None then m(p \<mapsto> (v, 0)) else m)"

definition create_answer :: "(string \<Rightarrow> (string \<times> int) option) \<Rightarrow> string \<Rightarrow> exn + string" where
  "create_answer m p = (if m p = None then Inr p else Inl (StatusException STATUS_DUPLICATE_KEY))"

lemma with_node_apply:
  "with_node v p m q = (if q = p \<and> m q = None then Some (v, 0) else m q)"
  by (auto simp: with_node_def)

lemma fold_with_node_apply:
  "fold (with_node v) ps m q = (if q \<in> set ps \<and> m q = None then Some (v, 0) else m q)"
  by (induction ps arbitrary: m) (auto simp: with_node_apply)

text \<open>Cutting a path before a slash.\<close>

lemma segments_ne [simp]: "segments xs \<noteq> []"
  by (cases xs) (auto split: list.split)

lemma segments_append: "segments (xs @ CHR ''/'' # ys) = segments xs @ segments ys"
proof (induction xs)
  case (Cons x xs)
  then show ?case by (cases "segments xs") auto
qed simp

lemma zk_path_prefix:
  assumes "zk_path (p @ CHR ''/'' # ys)" and "p \<noteq> []"
  shows "zk_path p"
proof -
  obtain c cs where "p = c # cs" using assms(2) by (cases p) auto
  with assms(1) show ?thesis by (simp add: zk_path_def segments_append)
qed

lemma zk_bad_path_snoc: "p \<noteq> [] \<Longrightarrow> zk_bad_path (p @ ''/'')"
  by (cases p) (simp_all add: zk_bad_path_def segments_append)

lemma pathsFrom_prefix:
  "p \<in> set (pathsFrom pre cs) \<Longrightarrow> p = pre @ cs \<or> (\<exists>ys. pre @ cs = p @ CHR ''/'' # ys)"
  by (induction pre cs rule: pathsFrom.induct) (auto split: if_splits)

lemma ancestor_zk_path:
  assumes "zk_path key" and "p \<in> set (ancestorPaths key)"
  shows "zk_path p" and "length p \<le> length key"
proof -
  have "key \<noteq> []" using assms(1) by (auto simp: zk_path_def)
  then have "p \<noteq> []"
    using pathsFrom_length [of p "take 1 key" "drop 1 key"] assms(2) by (auto simp: ancestorPaths_def)
  moreover have "p = key \<or> (\<exists>ys. key = p @ CHR ''/'' # ys)"
    using pathsFrom_prefix [of p "take 1 key" "drop 1 key"] assms(2) by (simp add: ancestorPaths_def)
  ultimately show "zk_path p" "length p \<le> length key" using assms(1) zk_path_prefix by auto
qed

text \<open>Where a node can be created: under the root and under persistent nodes.\<close>

definition zk_hosts :: "'z zookeeper \<Rightarrow> 'z \<Rightarrow> string \<Rightarrow> bool" where
  "zk_hosts Z z p \<longleftrightarrow> p = [] \<or> (zk_nodes Z z p \<noteq> None \<and> \<not> zk_ephemeral Z z p)"

lemma zkc_create_ok:
  assumes "zk_ok Z" and "zk_path p" and "zk_small p v" and "zk_hosts Z z (parent_path p) \<or> zk_nodes Z z p \<noteq> None"
  obtains z' where "zkc_create Z p v z = (z', create_answer (zk_nodes Z z) p)"
    and "zk_nodes Z z' = with_node v p (zk_nodes Z z)" and "zk_ephemeral Z z' = zk_ephemeral Z z"
proof (cases "zk_nodes Z z p")
  case None
  with assms obtain z' where "zk_create Z p v 0 z = (z', Inr (ZOK, p))"
    "zk_nodes Z z' = (zk_nodes Z z)(p \<mapsto> (v, 0))" "zk_ephemeral Z z' = zk_ephemeral Z z"
    unfolding zk_ok_def zk_hosts_def by blast
  with None that show ?thesis
    by (simp add: zkc_create_def createCommon_def complete_def create_answer_def with_node_def)
next
  case (Some x)
  then obtain d where "zk_create Z p v 0 z = (z, Inr (ZNODEEXISTS, d))"
    using assms(1-3) unfolding zk_ok_def by blast
  with Some that show ?thesis
    by (simp add: zkc_create_def createCommon_def complete_def create_answer_def with_node_def
        toStatusException_def zk_codes)
qed

lemma createChain_ok:
  assumes "zk_ok Z" and "linked q ps" and "zk_hosts Z z q" and "distinct ps" and "ps \<noteq> []"
    and "\<forall>e. prev = Inl e \<longrightarrow> e = StatusException STATUS_DUPLICATE_KEY"
    and "\<forall>p \<in> set ps. zk_path p \<and> zk_small p v" and "\<forall>p \<in> set (butlast ps). \<not> zk_ephemeral Z z p"
  shows "\<exists>z'. createChain Z v ps prev z = (z', create_answer (zk_nodes Z z) (last ps)) \<and>
    zk_nodes Z z' = fold (with_node v) ps (zk_nodes Z z)"
  using assms(2-)
proof (induction ps arbitrary: q z prev)
  case (Cons p ps)
  from Cons.prems(1,2) have par: "zk_hosts Z z (parent_path p)" by simp
  obtain z1 where z1: "zkc_create Z p v z = (z1, create_answer (zk_nodes Z z) p)"
    and n1: "zk_nodes Z z1 = with_node v p (zk_nodes Z z)" and e1: "zk_ephemeral Z z1 = zk_ephemeral Z z"
    by (rule zkc_create_ok [OF assms(1)]) (use Cons.prems(6) par in auto)
  have step: "createChain Z v (p # ps) prev z = createChain Z v ps (create_answer (zk_nodes Z z) p) z1"
    using Cons.prems(5) z1 by (auto split: sum.splits)
  show ?case
  proof (cases "ps = []")
    case True
    with step n1 show ?thesis by simp
  next
    case False
    then have "last ps \<noteq> p" using Cons.prems(3) by auto
    then have ans: "create_answer (zk_nodes Z z1) (last ps) = create_answer (zk_nodes Z z) (last ps)"
      by (simp add: create_answer_def n1 with_node_apply)
    have "zk_hosts Z z1 p" using Cons.prems(7) False by (simp add: zk_hosts_def n1 e1 with_node_apply)
    moreover have "\<forall>e. create_answer (zk_nodes Z z) p = Inl e \<longrightarrow> e = StatusException STATUS_DUPLICATE_KEY"
      by (simp add: create_answer_def)
    ultimately show ?thesis
      using Cons.IH [of p z1 "create_answer (zk_nodes Z z) p"] Cons.prems(1,3,6,7) False step ans n1 e1 by simp
  qed
qed simp

lemma linked_ancestors: "key = CHR ''/'' # rest \<Longrightarrow> linked [] (ancestorPaths key)"
  using linked_pathsFrom [of "take 1 key" "drop 1 key"] by (simp add: ancestorPaths_def parent_path_def)

lemma distinct_ancestors: "distinct (ancestorPaths key)" and ancestors_ne [simp]: "ancestorPaths key \<noteq> []"
  by (simp_all add: ancestorPaths_def distinct_pathsFrom)

lemma create_with_ancestors:
  assumes "zk_ok Z" and "zk_path key" and "zk_small key v"
    and "list_all (\<lambda>p. \<not> zk_ephemeral Z z p) (butlast (ancestorPaths key))"
  shows "\<exists>z'. createIncludingAncestors Z key v z =
      (z', if zk_nodes Z z key = None then Inr key else Inl (StatusException STATUS_DUPLICATE_KEY)) \<and>
    (\<forall>p. zk_nodes Z z' p =
       (if p \<in> set (ancestorPaths key) \<and> zk_nodes Z z p = None then Some (v, 0) else zk_nodes Z z p))"
proof -
  obtain rest where key: "key = CHR ''/'' # rest" using assms(2) by (auto simp: zk_path_def split: list.splits)
  have "\<forall>p \<in> set (ancestorPaths key). zk_path p \<and> zk_small p v"
    using ancestor_zk_path [OF assms(2)] assms(3) by (force simp: zk_small_def)
  then show ?thesis
    using createChain_ok [OF assms(1) linked_ancestors [OF key], of z "Inr []" v] assms(4) distinct_ancestors
    by (auto simp: createIncludingAncestors_def last_ancestorPaths create_answer_def
        fold_with_node_apply zk_hosts_def list_all_iff)
qed

text \<open>
  C28. \<open>createIncludingAncestors\<close> on a healthy ZooKeeper that nobody else changes meanwhile, for a key
  that is a path of ZooKeeper and small enough for a request, none of whose ancestors is an
  ephemeral node: it creates the key and every missing ancestor, with the key's value, leaves every
  node that existed as it was and touches nothing else; it succeeds with the key if the key itself was
  missing, and fails with \<open>STATUS_DUPLICATE_KEY\<close> if it was there (having then created whatever
  ancestors were missing).
\<close>

theorem createIncludingAncestors_creates:
  assumes "zk_ok Z" and "zk_path key" and "zk_small key v"
    and "list_all (\<lambda>p. \<not> zk_ephemeral Z z p) (butlast (ancestorPaths key))"
  shows "\<exists>z'. createIncludingAncestors Z key v z =
      (z', if zk_nodes Z z key = None then Inr key else Inl (StatusException STATUS_DUPLICATE_KEY)) \<and>
    (\<forall>p. zk_nodes Z z' p =
       (if p \<in> set (ancestorPaths key) \<and> zk_nodes Z z p = None then Some (v, 0) else zk_nodes Z z p))"
  by (rule create_with_ancestors [OF assms])

text \<open>
  A key with a slash at its end is created up to that slash, and then the call fails: ZooKeeper
  refuses the last path.
\<close>

lemma createChain_snoc:
  "createChain Z v (ps @ [p]) prev z =
     (case createChain Z v ps prev z of (z1, r) \<Rightarrow> createChain Z v [p] r z1)"
  by (induction ps arbitrary: prev z) (auto split: sum.split prod.split)

lemma pathsFrom_snoc: "pathsFrom pre (cs @ ''/'') = pathsFrom pre cs @ [pre @ cs @ ''/'']"
  by (induction pre cs rule: pathsFrom.induct) simp_all

theorem trailing_slash_fails:
  assumes "zk_ok Z" and "zk_path key" and "zk_small key v"
    and "list_all (\<lambda>p. \<not> zk_ephemeral Z z p) (butlast (ancestorPaths key))"
  shows "\<exists>z'. createIncludingAncestors Z (key @ ''/'') v z = (z', Inl (StatusException STATUS_INVALID)) \<and>
    zk_nodes Z z' key \<noteq> None"
proof -
  have "key \<noteq> []" using assms(2) by (auto simp: zk_path_def)
  then have anc: "ancestorPaths (key @ ''/'') = ancestorPaths key @ [key @ ''/'']"
    by (cases key) (simp_all add: ancestorPaths_def pathsFrom_snoc)
  obtain z' where z': "createIncludingAncestors Z key v z =
      (z', if zk_nodes Z z key = None then Inr key else Inl (StatusException STATUS_DUPLICATE_KEY))"
    "\<forall>p. zk_nodes Z z' p =
       (if p \<in> set (ancestorPaths key) \<and> zk_nodes Z z p = None then Some (v, 0) else zk_nodes Z z p)"
    using create_with_ancestors [OF assms] by blast
  have "key \<in> set (ancestorPaths key)" by (metis ancestors_ne last_ancestorPaths last_in_set)
  with z'(2) have "zk_nodes Z z' key \<noteq> None" by auto
  moreover have "zkc_create Z (key @ ''/'') v z' = (z', Inl (StatusException STATUS_INVALID))"
    using assms(1) zk_bad_path_snoc [OF \<open>key \<noteq> []\<close>]
    by (simp add: zk_ok_def zkc_create_def createCommon_def complete_def toStatusException_def zk_codes)
  ultimately show ?thesis
    using z'(1) by (auto simp: createIncludingAncestors_def anc createChain_snoc)
qed

text \<open>A ZooKeeper of persistent nodes in memory.\<close>

type_synonym mem_tree = "string \<Rightarrow> (string \<times> int) option"

definition mem_zk :: "mem_tree zookeeper" where
  "mem_zk =
     \<lparr>zk_create = (\<lambda>p v flags t.
        if zk_bad_path p then (t, Inl ZBADARGUMENTS)
        else if t p \<noteq> None then (t, Inr (ZNODEEXISTS, []))
        else if parent_path p \<noteq> [] \<and> t (parent_path p) = None then (t, Inr (ZNONODE, []))
        else (t(p \<mapsto> (v, 0)), Inr (ZOK, p))),
      zk_set = (\<lambda>p v version t.
        case t p of None \<Rightarrow> (t, Inr (ZNONODE, 0)) | Some (_, n) \<Rightarrow> (t(p \<mapsto> (v, n + 1)), Inr (ZOK, n + 1))),
      zk_delete = (\<lambda>p version t.
        if t p = None then (t, Inr (ZNONODE, ())) else (t(p := None), Inr (ZOK, ()))),
      zk_get = (\<lambda>p t.
        if zk_bad_path p then (t, Inl ZBADARGUMENTS)
        else case t p of None \<Rightarrow> (t, Inr (ZNONODE, ([], 0))) | Some (_, n) \<Rightarrow> (t, Inr (ZOK, ([], n)))),
      zk_children = (\<lambda>p watch t. (t, Inr (ZOK, []))),
      zk_nodes = (\<lambda>t. t), zk_ephemeral = (\<lambda>t p. False)\<rparr>"

lemma zk_path_not_bad: "zk_path p \<Longrightarrow> \<not> zk_bad_path p"
  by (auto simp: zk_path_def zk_bad_path_def zk_name_def list_all_iff split: list.splits)

lemma mem_zk_ok: "zk_ok mem_zk"
  by (auto simp: zk_ok_def mem_zk_def dest: zk_path_not_bad)

theorem createIncludingAncestors_creates_witness:
  "\<exists>t. createIncludingAncestors mem_zk ''/a/b'' ''v'' [''/a'' \<mapsto> (''old'', 3)] = (t, Inr ''/a/b'') \<and>
     t ''/a/b'' = Some (''v'', 0) \<and> t ''/a'' = Some (''old'', 3) \<and> t ''/x'' = None"
proof -
  let ?t = "[''/a'' \<mapsto> (''old'', 3)] :: mem_tree"
  have "zk_path ''/a/b''" "zk_small ''/a/b'' ''v''" by (simp_all add: zk_path_def zk_name_def zk_small_def)
  moreover have "list_all (\<lambda>p. \<not> zk_ephemeral mem_zk ?t p) (butlast (ancestorPaths ''/a/b''))"
    by (simp add: mem_zk_def list_all_iff)
  ultimately obtain t where t: "createIncludingAncestors mem_zk ''/a/b'' ''v'' ?t =
      (t, if zk_nodes mem_zk ?t ''/a/b'' = None then Inr ''/a/b'' else Inl (StatusException STATUS_DUPLICATE_KEY))"
    "\<forall>p. zk_nodes mem_zk t p =
       (if p \<in> set (ancestorPaths ''/a/b'') \<and> zk_nodes mem_zk ?t p = None then Some (''v'', 0) else zk_nodes mem_zk ?t p)"
    using createIncludingAncestors_creates [OF mem_zk_ok] by blast
  have nodes: "zk_nodes mem_zk = (\<lambda>t. t)" by (simp add: mem_zk_def)
  show ?thesis
    using t(1) t(2) [rule_format, of "''/a/b''"] t(2) [rule_format, of "''/a''"] t(2) [rule_format, of "''/x''"]
    by (intro exI [of _ t]) (simp add: nodes ancestorPaths_def)
qed

text \<open>
  Waiting for the connection always ends, after at most three sleeps, whatever states
  ZooKeeper reports; it ends at once when the connection is up.
\<close>

theorem waitConnected_bounded:
  "fst (blockUntilConnectedOrTimedOut st final 5) \<le> 3 \<and>
   (st 0 = ZOO_CONNECTED_STATE \<longrightarrow> fst (blockUntilConnectedOrTimedOut st final 5) = 0) \<and>
   (snd (blockUntilConnectedOrTimedOut st final 5) = Ok () \<longleftrightarrow> final = ZOO_CONNECTED_STATE)"
  by (simp add: blockUntilConnectedOrTimedOut_def waitConnected.simps [of st 5 0]
      waitConnected.simps [of st 5 2] waitConnected.simps [of st 5 4] waitConnected.simps [of st 5 6])

theorem waitConnected_bounded_witness:
  "fst (blockUntilConnectedOrTimedOut (\<lambda>n. if n = 0 then ZOO_CONNECTED_STATE else 1) 1 5) = 0"
  using waitConnected_bounded [of "\<lambda>n. if n = 0 then ZOO_CONNECTED_STATE else 1" 1] by simp

text \<open>
  \<open>getChildrenSync\<close> returns one buffer per child, in the order ZooKeeper lists them, and each
  carries the child's name as its id, whatever else it holds.
\<close>

theorem getChildrenSync_ids:
  assumes "getChildrenSync Z f key z = (z', Inr ret)"
  shows "\<exists>z1 children. getChildrenSimple Z key False z = (z1, Inr children) \<and>
    map getIdProp ret = map Ok children"
proof -
  have loop: "map getIdProp out = map getIdProp ret @ map Ok cs"
    if "getChildrenLoop Z f key cs ret z = (z', Inr out)" for cs ret out and z z'
    using that
  proof (induction Z f key cs ret z rule: getChildrenLoop.induct)
    case (2 Z f key c cs ret z)
    obtain z1 data where get: "zkc_get Z f (key @ ''/'' @ c) z = (z1, Inr data)"
      using 2(2) by (cases "zkc_get Z f (key @ ''/'' @ c) z"; cases "snd (zkc_get Z f (key @ ''/'' @ c) z)") auto
    then have "kvb_ok data"
      by (auto simp: zkc_get_def complete_def kvb_ok_def setVersion_def setProp_def KVBuffer_new_def
          smap_ok_def split: sum.splits if_splits prod.splits)
    then have "getIdProp (setId data c) = Ok c"
      by (simp add: getIdProp_def setId_def getProp_setProp)
    with 2 get show ?case by simp
  qed simp
  from assms obtain z1 children where "getChildrenSimple Z key False z = (z1, Inr children)"
    "getChildrenLoop Z f key children [] z1 = (z', Inr ret)"
    by (auto simp: getChildrenSync_def split: sum.splits prod.splits)
  with loop [of children "[]"] show ?thesis by auto
qed

definition two_children :: "mem_tree zookeeper" where
  "two_children = mem_zk\<lparr>zk_children := (\<lambda>p watch t. (t, Inr (ZOK, [''0'', ''1'']))),
     zk_get := (\<lambda>p t. (t, Inr (ZOK, ([7], 2))))\<rparr>"

theorem getChildrenSync_ids_witness:
  "\<exists>ret z'. getChildrenSync two_children folly_dec ''/rings'' Map.empty = (z', Inr ret) \<and>
     map getIdProp ret = [Ok ''0'', Ok ''1'']"
proof -
  have ch: "getChildrenSimple two_children ''/rings'' False Map.empty = (Map.empty, Inr [''0'', ''1''])"
    by (simp add: getChildrenSimple_def two_children_def complete_def ZOK_def)
  obtain z' ret where r: "getChildrenSync two_children folly_dec ''/rings'' Map.empty = (z', Inr ret)"
    unfolding getChildrenSync_def ch
    by (simp add: zkc_get_def two_children_def complete_def ZOK_def)
  from getChildrenSync_ids [OF r] ch r show ?thesis by auto
qed

end
