(* ===== verification/Connection_Cache.thy ===== *)
theory Connection_Cache
  imports Config_Tree
begin

section \<open>Cached connections to services: \<open>src/infra/ConnectionCache.cpp\<close>\<close>

text \<open>
  \<open>ConnectionCache\<close> keeps one \<open>ConnectionItem\<close> per service id, filled from the coordination
  service on a miss (\<open>getHeaderClientChannel\<close>) and updated by messages on the services topic
  (\<open>serviceTopicMessage\<close>). A channel is represented by the address it was opened to. The entry
  of a service is JSON, read by \<open>parse\<close>, an argument; \<open>entry\<close> is the answer of the coordination
  service.
\<close>

type_synonym channel = "string \<times> int"

record ConnectionItem =
  ci_version :: int
  ci_channel :: "channel option"

type_synonym ConnectionCache = "(string \<times> ConnectionItem) list"

definition ConnectionItem_new :: ConnectionItem where
  "ConnectionItem_new = \<lparr>ci_version = - 1, ci_channel = None\<rparr>"

text \<open>
  The new channel replaces the old one, which is closed; \<open>version_\<close> is compared but nowhere set.
\<close>

definition ci_update :: "int \<Rightarrow> ServiceInfo \<Rightarrow> ConnectionItem \<Rightarrow> ConnectionItem" where
  "ci_update version info item =
     (if version \<le> ci_version item then item
      else item\<lparr>ci_channel := Some (si_ip info, si_port info)\<rparr>)"

definition getChannel :: "ConnectionItem \<Rightarrow> channel option" where
  "getChannel item = ci_channel item"

definition getConnectionId :: "ServiceInfo \<Rightarrow> string" where
  "getConnectionId info = si_dataSphereId info @ ''.'' @ si_id info"

definition updateConnection ::
  "folly_ops \<Rightarrow> (bytes \<Rightarrow> ServiceInfo option) \<Rightarrow> KVBuffer \<Rightarrow> bool \<Rightarrow> ConnectionCache \<Rightarrow>
    (ConnectionCache \<times> channel option) outcome" where
  "updateConnection f parse kvb createIfMissing cc =
     obind (getPayload parse kvb) (\<lambda>info.
     obind (getVersion f kvb) (\<lambda>version.
       case map_of cc (si_id info) of
         None \<Rightarrow>
           if \<not> createIfMissing then Ok (cc, None)
           else let item = ci_update version info ConnectionItem_new
                in Ok (AList.update (si_id info) item cc, ci_channel item)
       | Some old \<Rightarrow>
           let item = ci_update version info old
           in Ok (AList.update (si_id info) item cc, ci_channel item)))"

definition serviceTopicMessage ::
  "folly_ops \<Rightarrow> (bytes \<Rightarrow> ServiceInfo option) \<Rightarrow> (string \<Rightarrow> KVBuffer option) \<Rightarrow> string \<Rightarrow>
    ConnectionCache \<Rightarrow> ConnectionCache outcome" where
  "serviceTopicMessage f parse parseKvb payload cc =
     (case parseKvb payload of
        None \<Rightarrow> Throw OtherException
      | Some kvb \<Rightarrow> obind (updateConnection f parse kvb False cc) (\<lambda>(cc1, ch). Ok cc1))"

text \<open>The flag says whether the coordination service was asked.\<close>

definition getHeaderClientChannel ::
  "folly_ops \<Rightarrow> (bytes \<Rightarrow> ServiceInfo option) \<Rightarrow> string \<Rightarrow> (string \<Rightarrow> exn + KVBuffer) \<Rightarrow> string \<Rightarrow>
    ConnectionCache \<Rightarrow> (ConnectionCache \<times> channel option \<times> bool) outcome" where
  "getHeaderClientChannel f parse datasphere entry serviceId cc =
     (case map_of cc serviceId of
        Some item \<Rightarrow> Ok (cc, getChannel item, False)
      | None \<Rightarrow>
          (case entry (SERVICE_ROOT_PATH datasphere serviceId) of
             Inl e \<Rightarrow> Throw e
           | Inr data \<Rightarrow>
               obind (updateConnection f parse data True cc) (\<lambda>(cc1, ch). Ok (cc1, ch, True))))"

definition getHeaderClientChannelFromCache :: "string \<Rightarrow> ConnectionCache \<Rightarrow> channel option" where
  "getHeaderClientChannelFromCache serviceId cc =
     (case map_of cc serviceId of Some item \<Rightarrow> getChannel item | None \<Rightarrow> None)"

definition existsInCache :: "string \<Rightarrow> ConnectionCache \<Rightarrow> bool" where
  "existsInCache serviceId cc \<longleftrightarrow> map_of cc serviceId \<noteq> None"

subsection \<open>Properties\<close>

text \<open>The buffer an entry of version \<open>v\<close> is read as.\<close>

definition entryBuffer :: "folly_ops \<Rightarrow> (ServiceInfo \<Rightarrow> bytes) \<Rightarrow> int \<Rightarrow> ServiceInfo \<Rightarrow> KVBuffer" where
  "entryBuffer f ser v info = setPayload ser (setVersion f KVBuffer_new v) info"

lemma updateConnection_entry:
  assumes "to_int64 f (of_int64 f v) = Some v" and "parse (ser info) = Some info"
  shows "updateConnection f parse (entryBuffer f ser v info) c cc =
    (case map_of cc (si_id info) of
       None \<Rightarrow> if \<not> c then Ok (cc, None)
         else Ok (AList.update (si_id info) (ci_update v info ConnectionItem_new) cc,
                  ci_channel (ci_update v info ConnectionItem_new))
     | Some old \<Rightarrow> Ok (AList.update (si_id info) (ci_update v info old) cc, ci_channel (ci_update v info old)))"
  using assms
  by (simp add: updateConnection_def entryBuffer_def kvb_simps Let_def split: option.split)

text \<open>
  A lookup opens a connection once: on a miss the entry of the service is fetched from the
  coordination service and a channel to its address returned; the next lookup of the same
  service returns the same channel without asking again, and no other service is affected.
\<close>

theorem lookup_caches:
  assumes "folly_ok f" and "parse (ser info) = Some info" and "0 \<le> v" and "v < 2 ^ 63"
    and "map_of cc (si_id info) = None"
    and "entry (SERVICE_ROOT_PATH ds (si_id info)) = Inr (entryBuffer f ser v info)"
  shows "\<exists>cc1. getHeaderClientChannel f parse ds entry (si_id info) cc =
      Ok (cc1, Some (si_ip info, si_port info), True) \<and>
    getHeaderClientChannel f parse ds entry2 (si_id info) cc1 =
      Ok (cc1, Some (si_ip info, si_port info), False) \<and>
    (\<forall>i. i \<noteq> si_id info \<longrightarrow> map_of cc1 i = map_of cc i)"
proof -
  have "to_int64 f (of_int64 f v) = Some v"
    by (rule folly_int64) (use assms in simp_all)
  from updateConnection_entry [of f v parse ser info, OF this assms(2)] assms(3,5,6)
  show ?thesis
    by (simp add: getHeaderClientChannel_def ci_update_def ConnectionItem_new_def getChannel_def
        update_conv')
qed

definition sample_info :: "string \<Rightarrow> ServiceInfo" where
  "sample_info ip = \<lparr>si_id = ''v1'', si_dataSphereId = ''d'', si_nodeId = ''n'', si_type = VOLUME_SERVER,
     si_ip = ip, si_port = 8090, si_rootPath = ''/tmp''\<rparr>"

theorem lookup_caches_witness:
  "\<exists>cc1. getHeaderClientChannel folly_dec (\<lambda>b. Some (sample_info ''h1'')) ''d''
      (\<lambda>_. Inr (entryBuffer folly_dec (\<lambda>_. []) 3 (sample_info ''h1''))) ''v1'' [] =
      Ok (cc1, Some (''h1'', 8090), True)"
  using lookup_caches [OF folly_dec_ok, of "\<lambda>b. Some (sample_info ''h1'')" "\<lambda>_. []" "sample_info ''h1''" 3
      "[]" "\<lambda>_. Inr (entryBuffer folly_dec (\<lambda>_. []) 3 (sample_info ''h1''))" "''d''"]
  by (auto simp: sample_info_def)

text \<open>Updates of one service, in the order they are delivered.\<close>

fun ci_updates :: "(int \<times> ServiceInfo) list \<Rightarrow> ConnectionItem \<Rightarrow> ConnectionItem" where
  "ci_updates [] item = item"
| "ci_updates ((v, info) # us) item = ci_updates us (ci_update v info item)"

lemma ci_updates_version [simp]: "ci_version (ci_updates us item) = ci_version item"
  by (induction us item rule: ci_updates.induct) (auto simp: ci_update_def)

lemma ci_updates_append: "ci_updates (us @ vs) item = ci_updates vs (ci_updates us item)"
  by (induction us item rule: ci_updates.induct) auto

text \<open>
  The version check of a connection is dead: whatever updates an item has seen, an update of
  any non-negative version replaces its channel, also one older than an update already applied,
  so a message delivered late points the cache back at the service's old address.
\<close>

theorem stale_update_replaces_channel:
  assumes "0 \<le> v"
  shows "ci_channel (ci_updates (us @ [(v, info)]) ConnectionItem_new) = Some (si_ip info, si_port info)"
proof -
  have "ci_version (ci_updates us ConnectionItem_new) = - 1"
    by (simp add: ConnectionItem_new_def)
  with assms show ?thesis by (simp add: ci_updates_append ci_update_def)
qed

theorem stale_update_replaces_channel_witness:
  "ci_channel (ci_updates [(9, sample_info ''new''), (2, sample_info ''old'')] ConnectionItem_new) = Some (''old'', 8090)"
  using stale_update_replaces_channel [of 2 "[(9, sample_info ''new'')]" "sample_info ''old''"]
  by (simp add: sample_info_def)

end
