(* ===== verification/Kafka_Client.thy ===== *)
theory Kafka_Client
  imports Datom_Types
begin

section \<open>Topics: \<open>src/infra/KafkaClient.cpp\<close>\<close>

text \<open>
  \<open>KafkaClient\<close> publishes messages to topics and delivers messages of subscribed topics to
  callbacks. The Kafka library is not part of the repository: the creation of a topic handle,
  \<open>produce\<close> and \<open>subscribe\<close> are arguments. Both tables are unordered maps; the locks guard
  single operations.
\<close>

record ('t, 'cb) KafkaClient =
  kc_subscriptionCbs :: "(string \<times> 'cb) list"
  kc_publishTopics :: "(string \<times> 't) list"
  kc_aborted :: bool

definition KafkaClient_new :: "('t, 'cb) KafkaClient" where
  "KafkaClient_new = \<lparr>kc_subscriptionCbs = [], kc_publishTopics = [], kc_aborted = False\<rparr>"

text \<open>
  The third component is what was handed to the producer. An empty message only creates the
  topic.
\<close>

definition publishMessage ::
  "(string \<Rightarrow> 't option) \<Rightarrow> ('t \<Rightarrow> string \<Rightarrow> bool) \<Rightarrow> string \<Rightarrow> string \<Rightarrow> ('t, 'cb) KafkaClient \<Rightarrow>
    ('t, 'cb) KafkaClient \<times> status \<times> ('t \<times> string) list" where
  "publishMessage newTopic produce topic message kc =
     (let found = map_of (kc_publishTopics kc) topic;
          handle = (case found of Some t \<Rightarrow> Some t | None \<Rightarrow> newTopic topic)
      in case handle of
           None \<Rightarrow> (kc, STATUS_PUBLISH_FAILED, [])
         | Some t \<Rightarrow>
             let kc1 = (if found = None
                        then kc\<lparr>kc_publishTopics := AList.update topic t (kc_publishTopics kc)\<rparr> else kc)
             in if message = [] then (kc1, STATUS_OK, [])
                else if \<not> produce t message then (kc1, STATUS_PUBLISH_FAILED, [(t, message)])
                else (kc1, STATUS_OK, [(t, message)]))"

text \<open>\<open>subscribe\<close> is given all the topics and answers whether it failed.\<close>

definition subscribeToTopic ::
  "(string list \<Rightarrow> bool) \<Rightarrow> string \<Rightarrow> 'cb \<Rightarrow> ('t, 'cb) KafkaClient \<Rightarrow> ('t, 'cb) KafkaClient \<times> status" where
  "subscribeToTopic fails topic cb kc =
     (if map_of (kc_subscriptionCbs kc) topic \<noteq> None then (kc, STATUS_INVALID)
      else
        let kc1 = kc\<lparr>kc_subscriptionCbs := AList.update topic cb (kc_subscriptionCbs kc)\<rparr>
        in if fails (map fst (kc_subscriptionCbs kc1)) then (kc1, STATUS_SUBSCRIBE_FAILED)
           else (kc1, STATUS_OK))"

datatype kafka_message =
    TimedOut
  | Message string int string       \<comment> \<open>topic, offset, payload\<close>
  | PartitionEof
  | UnknownTopic
  | UnknownPartition
  | OtherError

text \<open>The callback to run, with its arguments.\<close>

definition consumeMessage :: "kafka_message \<Rightarrow> ('t, 'cb) KafkaClient \<Rightarrow> ('cb \<times> int \<times> string) option" where
  "consumeMessage msg kc =
     (case msg of
        Message topic offset payload \<Rightarrow>
          (case map_of (kc_subscriptionCbs kc) topic of
             None \<Rightarrow> None
           | Some cb \<Rightarrow> Some (cb, offset, payload))
      | _ \<Rightarrow> None)"

text \<open>\<open>rebalanceCallback\<close>: assign or unassign the partitions.\<close>

definition ERR_ASSIGN_PARTITIONS :: int where "ERR_ASSIGN_PARTITIONS = -175"

definition rebalanceCallback :: "int \<Rightarrow> 'p list \<Rightarrow> 'p list" where
  "rebalanceCallback err partitions = (if err = ERR_ASSIGN_PARTITIONS then partitions else [])"

subsection \<open>Properties\<close>

fun publishAll ::
  "(string \<Rightarrow> 't option) \<Rightarrow> ('t \<Rightarrow> string \<Rightarrow> bool) \<Rightarrow> (string \<times> string) list \<Rightarrow> ('t, 'cb) KafkaClient \<Rightarrow>
    ('t, 'cb) KafkaClient \<times> (string \<times> 't \<times> string) list" where
  "publishAll newTopic produce [] kc = (kc, [])"
| "publishAll newTopic produce ((topic, m) # ms) kc =
     (case publishMessage newTopic produce topic m kc of
        (kc1, s, out) \<Rightarrow>
          (case publishAll newTopic produce ms kc1 of
             (kc2, outs) \<Rightarrow> (kc2, map (\<lambda>(t, x). (topic, t, x)) out @ outs)))"

lemma publishMessage_keeps:
  "publishMessage newTopic produce topic m kc = (kc1, s, out) \<Longrightarrow>
     map_of (kc_publishTopics kc) \<subseteq>\<^sub>m map_of (kc_publishTopics kc1) \<and>
     (\<forall>(t, x) \<in> set out. map_of (kc_publishTopics kc1) topic = Some t)"
  by (auto simp: publishMessage_def Let_def map_le_def update_conv' split: option.splits if_splits)

lemma publishAll_keeps:
  "publishAll newTopic produce ms kc = (kc2, outs) \<Longrightarrow>
     map_of (kc_publishTopics kc) \<subseteq>\<^sub>m map_of (kc_publishTopics kc2) \<and>
     (\<forall>(topic, t, x) \<in> set outs. map_of (kc_publishTopics kc2) topic = Some t)"
proof (induction ms arbitrary: kc outs)
  case (Cons p ms)
  obtain topic m where p: "p = (topic, m)" by (cases p)
  obtain kc1 s out where pm: "publishMessage newTopic produce topic m kc = (kc1, s, out)"
    by (metis prod_cases3)
  obtain outs' where rest: "publishAll newTopic produce ms kc1 = (kc2, outs')"
    and outs: "outs = map (\<lambda>(t, x). (topic, t, x)) out @ outs'"
    using Cons.prems by (auto simp: p pm split: prod.splits)
  from publishMessage_keeps [OF pm] Cons.IH [OF rest] show ?case
    by (force simp: outs map_le_def dom_def)
qed simp

text \<open>
  A topic is opened once: whatever messages are published, and whichever of them fail, every
  message of one topic goes to the same handle, even if the library would hand out another one.
\<close>

theorem one_handle_per_topic:
  assumes "publishAll newTopic produce ms kc = (kc2, outs)"
    and "(topic, t, x) \<in> set outs" and "(topic, t', x') \<in> set outs"
  shows "t = t'"
proof -
  have "\<forall>(topic, t, x) \<in> set outs. map_of (kc_publishTopics kc2) topic = Some t"
    using publishAll_keeps [OF assms(1)] by blast
  from bspec [OF this assms(2)] bspec [OF this assms(3)] show ?thesis by simp
qed

theorem one_handle_per_topic_witness:
  "\<exists>kc outs. publishAll (\<lambda>s. Some (length s)) (\<lambda>t m. m \<noteq> ''bad'') [(''ab'', ''x''), (''ab'', ''bad'')]
       (KafkaClient_new :: (nat, unit) KafkaClient) = (kc, outs) \<and> (''ab'', 2, ''x'') \<in> set outs \<and>
     (\<forall>t. (''ab'', t, ''bad'') \<in> set outs \<longrightarrow> 2 = t)"
proof -
  obtain kc :: "(nat, unit) KafkaClient" and outs where
    r: "publishAll (\<lambda>s. Some (length s)) (\<lambda>t m. m \<noteq> ''bad'') [(''ab'', ''x''), (''ab'', ''bad'')]
       KafkaClient_new = (kc, outs)" and m: "(''ab'', 2, ''x'') \<in> set outs"
    by (simp add: publishMessage_def KafkaClient_new_def numeral_2_eq_2)
  from one_handle_per_topic [OF r m] r m show ?thesis by blast
qed

text \<open>
  A subscription that fails cannot be retried: after the library refuses it, every later
  attempt for the topic, with any callback and however healthy the library, is answered
  \<open>STATUS_INVALID\<close> without asking the library, and the first callback stays registered.
\<close>

theorem failed_subscription_is_final:
  assumes "map_of (kc_subscriptionCbs kc) topic = None"
    and "fails (map fst (AList.update topic cb (kc_subscriptionCbs kc)))"
  shows "snd (subscribeToTopic fails topic cb kc) = STATUS_SUBSCRIBE_FAILED \<and>
    subscribeToTopic fails2 topic cb2 (fst (subscribeToTopic fails topic cb kc)) =
      (fst (subscribeToTopic fails topic cb kc), STATUS_INVALID) \<and>
    consumeMessage (Message topic off payload) (fst (subscribeToTopic fails topic cb kc)) = Some (cb, off, payload)"
  using assms by (simp add: subscribeToTopic_def consumeMessage_def update_conv')

theorem failed_subscription_is_final_witness:
  "subscribeToTopic (\<lambda>_. False) ''t'' 2 (fst (subscribeToTopic (\<lambda>_. True) ''t'' (1 :: nat) (KafkaClient_new :: (unit, nat) KafkaClient))) =
     (fst (subscribeToTopic (\<lambda>_. True) ''t'' 1 KafkaClient_new), STATUS_INVALID)"
  using failed_subscription_is_final [of "KafkaClient_new :: (unit, nat) KafkaClient" "''t''" "\<lambda>_. True" 1 "\<lambda>_. False" 2]
  by (simp add: KafkaClient_new_def)

end
