(* ===== verification/Service_Core.thy ===== *)
theory Service_Core
  imports Config_Service Coordination_Client Connection_Cache
begin

section \<open>Services: \<open>src/infra/Service.cpp\<close>\<close>

text \<open>
  \<open>Service\<close> is the base class of the servers: it connects to the coordination service, checks that
  the service is configured, subscribes to the services topic and publishes itself. It works
  through the interface \<open>CoordinationClient\<close> (a record of its operations here, and the locale
  \<open>coordination_client\<close> for what a service relies on), which \<open>ZooKafkaClient\<close> implements.
  \<open>ser\<close> is the generated JSON serializer of \<open>ServiceInfo\<close>, \<open>serKvb\<close> that of \<open>KVBuffer\<close>; \<open>up\<close> is
  the failure of the client's own \<open>init\<close>, if it fails. The result of \<open>publishMessage\<close> and of
  \<open>subscribeToTopic\<close> is ignored by the code. \<open>ConfigService\<close> overrides \<open>init\<close>.
\<close>

subsection \<open>The interface of the coordination service\<close>

record 'z CoordinationClient =
  co_get :: "string \<Rightarrow> 'z \<Rightarrow> 'z \<times> (exn + KVBuffer)"
  co_create :: "string \<Rightarrow> string \<Rightarrow> 'z \<Rightarrow> 'z \<times> (exn + string)"
  co_set :: "string \<Rightarrow> string \<Rightarrow> int \<Rightarrow> 'z \<Rightarrow> 'z \<times> (exn + int)"

text \<open>\<open>ZooKafkaClient\<close> as such a client.\<close>

definition zooKafka :: "'z zookeeper \<Rightarrow> folly_ops \<Rightarrow> 'z CoordinationClient" where
  "zooKafka Z f = \<lparr>co_get = zkc_get Z f, co_create = zkc_create Z, co_set = zkc_set Z\<rparr>"

subsection \<open>The node's directory\<close>

definition getVolumesPath :: "string \<Rightarrow> string" where
  "getVolumesPath basePath = basePath @ ''/volumes''"

definition getDataPath :: "string \<Rightarrow> string" where
  "getDataPath basePath = basePath @ ''/data''"

text \<open>The commands given to the shell.\<close>

definition makeNodeRootTree :: "string \<Rightarrow> string list" where
  "makeNodeRootTree basePath =
     [''mkdir -p '' @ basePath, ''mkdir -p '' @ getVolumesPath basePath,
      ''mkdir -p '' @ getDataPath basePath]"

definition cleanNodeRootTree :: "string \<Rightarrow> string list" where
  "cleanNodeRootTree basePath = [''rm -rf '' @ basePath]"

subsection \<open>State and small operations\<close>

record Service =
  sv_info :: ServiceInfo
  sv_serviceEntryKey :: string
  sv_coordinationClient :: bool        \<comment> \<open>is there one?\<close>
  sv_server :: bool                    \<comment> \<open>is there one?\<close>
  sv_serverThread :: bool              \<comment> \<open>does the server run on its own thread?\<close>
  sv_ioThreads :: "int option"

definition Service_new :: "ServiceInfo \<Rightarrow> bool \<Rightarrow> bool \<Rightarrow> Service" where
  "Service_new info handler coordinationClient =
     \<lparr>sv_info = info, sv_serviceEntryKey = [], sv_coordinationClient = coordinationClient,
      sv_server = handler, sv_serverThread = False, sv_ioThreads = None\<rparr>"

definition newDefaultService :: "ServiceInfo \<Rightarrow> Service" where
  "newDefaultService info = Service_new info False True"

definition getDatasphereId :: "Service \<Rightarrow> string" where
  "getDatasphereId sv = si_dataSphereId (sv_info sv)"

definition getServiceId :: "Service \<Rightarrow> string" where
  "getServiceId sv = si_id (sv_info sv)"

definition getNodeId :: "Service \<Rightarrow> string" where
  "getNodeId sv = si_nodeId (sv_info sv)"

definition initIOThreadpool :: "int \<Rightarrow> Service \<Rightarrow> Service" where
  "initIOThreadpool n sv = sv\<lparr>sv_ioThreads := Some n\<rparr>"

text \<open>\<open>run\<close> dereferences the server; \<open>shutdown\<close> may be called again, as the destructor does.\<close>

definition Service_run :: "bool \<Rightarrow> Service \<Rightarrow> Service outcome" where
  "Service_run async sv =
     (if \<not> sv_server sv then Abort
      else Ok (if async then sv\<lparr>sv_serverThread := True\<rparr> else sv))"

definition Service_shutdown :: "Service \<Rightarrow> Service" where
  "Service_shutdown sv =
     (let sv1 = sv\<lparr>sv_ioThreads := None\<rparr>
      in if sv_server sv1 then sv1\<lparr>sv_server := False, sv_serverThread := False\<rparr> else sv1)"

subsection \<open>Starting up\<close>

text \<open>What a start does besides reading and writing the configuration database.\<close>

datatype service_event =
    Subscribed string              \<comment> \<open>\<open>ConnectionCache::init\<close>\<close>
  | Published string string        \<comment> \<open>topic, message\<close>

definition copyBuffer :: "string \<Rightarrow> bytes" where
  "copyBuffer s = map of_char s"

definition ConnectionCache_init :: "service_event list" where
  "ConnectionCache_init = [Subscribed TOPIC_SERVICES]"

definition ensureDatasphereMembership ::
  "'z CoordinationClient \<Rightarrow> Service \<Rightarrow> 'z \<Rightarrow> 'z \<times> exn option" where
  "ensureDatasphereMembership CC sv z =
     (case co_get CC (sv_serviceEntryKey sv) z of
        (z1, Inl e) \<Rightarrow> (z1, Some e)
      | (z1, Inr _) \<Rightarrow> (z1, None))"

text \<open>The message on the services topic: the information with the version of the entry.\<close>

definition announcement ::
  "folly_ops \<Rightarrow> (ServiceInfo \<Rightarrow> string) \<Rightarrow> (KVBuffer \<Rightarrow> string) \<Rightarrow> ServiceInfo \<Rightarrow> int \<Rightarrow> service_event" where
  "announcement f ser serKvb info version =
     Published TOPIC_SERVICES
       (serKvb (setVersion f (KVBuffer_new\<lparr>kv_payload := Some (copyBuffer (ser info))\<rparr>) version))"

text \<open>The entry is written under the key \<open>key\<close>; any version of it is overwritten.\<close>

definition publishServiceInfomation ::
  "'z CoordinationClient \<Rightarrow> folly_ops \<Rightarrow> (ServiceInfo \<Rightarrow> string) \<Rightarrow> (KVBuffer \<Rightarrow> string) \<Rightarrow> string \<Rightarrow>
    ServiceInfo \<Rightarrow> 'z \<Rightarrow> 'z \<times> service_event list \<times> exn option" where
  "publishServiceInfomation CC f ser serKvb key info z =
     (case co_set CC key (ser info) (- 1) z of
        (z1, Inl e) \<Rightarrow> (z1, [], Some e)
      | (z1, Inr version) \<Rightarrow> (z1, [announcement f ser serKvb info version], None))"

definition Service_init ::
  "'z CoordinationClient \<Rightarrow> folly_ops \<Rightarrow> (ServiceInfo \<Rightarrow> string) \<Rightarrow> (KVBuffer \<Rightarrow> string) \<Rightarrow>
    exn option \<Rightarrow> Service \<Rightarrow> 'z \<Rightarrow> 'z \<times> Service \<times> service_event list \<times> exn option" where
  "Service_init CC f ser serKvb up sv z =
     (let sv1 = sv\<lparr>sv_serviceEntryKey := SERVICE_ROOT_PATH (getDatasphereId sv) (getServiceId sv)\<rparr>
      in if \<not> sv_coordinationClient sv1 then (z, sv1, [], None)
         else case up of
           Some e \<Rightarrow> (z, sv1, [], Some e)
         | None \<Rightarrow>
             (case ensureDatasphereMembership CC sv1 z of
                (z1, Some e) \<Rightarrow> (z1, sv1, [], Some e)
              | (z1, None) \<Rightarrow>
                  (case publishServiceInfomation CC f ser serKvb (sv_serviceEntryKey sv1) (sv_info sv1) z1 of
                     (z2, evs, e) \<Rightarrow> (z2, sv1, ConnectionCache_init @ evs, e))))"

subsection \<open>Starting the configuration service\<close>

text \<open>
  \<open>ConfigService::init\<close> with the read of its entry and the publication (\<open>ConfigService_init\<close> is
  the decision between them), and the one-time bootstrap \<open>createDatom\<close>, which does not wait for
  the answer to its \<open>create\<close>.
\<close>

definition ConfigService_start ::
  "'z CoordinationClient \<Rightarrow> folly_ops \<Rightarrow> (ServiceInfo \<Rightarrow> string) \<Rightarrow> (KVBuffer \<Rightarrow> string) \<Rightarrow>
    exn option \<Rightarrow> ServiceInfo \<Rightarrow> ConfigService \<Rightarrow> 'z \<Rightarrow>
    'z \<times> ConfigService \<times> service_event list \<times> exn option" where
  "ConfigService_start CC f ser serKvb up info cf z =
     (case up of
        Some e \<Rightarrow> (z, cf\<lparr>cf_serviceEntryKey := CONFIGSERVICE_ROOT\<rparr>, [], Some e)
      | None \<Rightarrow>
          (case co_get CC CONFIGSERVICE_ROOT z of
             (z1, entry) \<Rightarrow>
               (case ConfigService_init (map_sum id (\<lambda>_. []) entry) cf of
                  (cf1, publish, e) \<Rightarrow>
                    if \<not> publish then (z1, cf1, ConnectionCache_init, e)
                    else (case publishServiceInfomation CC f ser serKvb (cf_serviceEntryKey cf1) info z1 of
                            (z2, evs, e2) \<Rightarrow> (z2, cf1, ConnectionCache_init @ evs, e2)))))"

definition createPublishableTopics :: "service_event list" where
  "createPublishableTopics =
     [Published TOPIC_SERVICES [], Published (TOPIC_PB_SPHERE_RESOURCES PB_VOLUMES_TYPE) []]"

definition createDatom ::
  "'z CoordinationClient \<Rightarrow> folly_ops \<Rightarrow> (ServiceInfo \<Rightarrow> string) \<Rightarrow> (KVBuffer \<Rightarrow> string) \<Rightarrow>
    ServiceInfo \<Rightarrow> ConfigService \<Rightarrow> 'z \<Rightarrow> 'z \<times> service_event list \<times> exn option" where
  "createDatom CC f ser serKvb info cf z =
     (case co_create CC (cf_serviceEntryKey cf) [] z of
        (z1, ignored) \<Rightarrow>
          (case publishServiceInfomation CC f ser serKvb (cf_serviceEntryKey cf) info z1 of
             (z2, evs, e) \<Rightarrow> (z2, createPublishableTopics @ evs, e)))"

subsection \<open>What a service relies on\<close>

text \<open>
  The contract of the coordination service, if it is \<open>ok\<close>: \<open>nodes\<close> are its entries with
  their versions, \<open>good\<close> are the keys and values it accepts. A read does not change the entries; a
  write of an entry stores the value under the next version; a create makes a missing entry at the
  root.
\<close>

locale coordination_client =
  fixes CC :: "'z CoordinationClient"
    and nodes :: "'z \<Rightarrow> string \<Rightarrow> (string \<times> int) option"
    and ok :: bool
    and good :: "string \<Rightarrow> string \<Rightarrow> bool"
  assumes get_present: "ok \<Longrightarrow> good p [] \<Longrightarrow> nodes z p = Some (v, n) \<Longrightarrow>
      \<exists>kvb z'. co_get CC p z = (z', Inr kvb) \<and> nodes z' = nodes z"
    and get_absent: "ok \<Longrightarrow> good p [] \<Longrightarrow> nodes z p = None \<Longrightarrow>
      \<exists>z'. co_get CC p z = (z', Inl (StatusException STATUS_INVALID_KEY)) \<and> nodes z' = nodes z"
    and set_present: "ok \<Longrightarrow> good p v' \<Longrightarrow> nodes z p = Some (v, n) \<Longrightarrow>
      \<exists>z'. co_set CC p v' (- 1) z = (z', Inr (n + 1)) \<and> nodes z' = (nodes z)(p \<mapsto> (v', n + 1))"
    and create_absent: "ok \<Longrightarrow> good p v \<Longrightarrow> nodes z p = None \<Longrightarrow> parent_path p = [] \<Longrightarrow>
      \<exists>z'. co_create CC p v z = (z', Inr p) \<and> nodes z' = (nodes z)(p \<mapsto> (v, 0))"
    and create_present: "ok \<Longrightarrow> good p v \<Longrightarrow> nodes z p \<noteq> None \<Longrightarrow>
      \<exists>e z'. co_create CC p v z = (z', Inl e) \<and> nodes z' = nodes z"
begin

lemma publish_present:
  assumes "ok" and "good key (ser info)" and "nodes z key = Some (v, n)"
  obtains z' where "publishServiceInfomation CC f ser serKvb key info z =
      (z', [announcement f ser serKvb info (n + 1)], None)"
    and "nodes z' = (nodes z)(key \<mapsto> (ser info, n + 1))"
proof -
  obtain z' where "co_set CC key (ser info) (- 1) z = (z', Inr (n + 1))"
    "nodes z' = (nodes z)(key \<mapsto> (ser info, n + 1))"
    using set_present [OF assms] by blast
  with that show thesis by (simp add: publishServiceInfomation_def)
qed

lemma membership:
  assumes "ok" and "good (sv_serviceEntryKey sv) []"
  obtains z' where "ensureDatasphereMembership CC sv z =
      (z', if nodes z (sv_serviceEntryKey sv) = None then Some (StatusException STATUS_INVALID_KEY) else None)"
    and "nodes z' = nodes z"
proof (cases "nodes z (sv_serviceEntryKey sv)")
  case None
  with get_absent [OF assms None] that show thesis by (auto simp: ensureDatasphereMembership_def)
next
  case (Some x)
  then obtain kvb z' where "co_get CC (sv_serviceEntryKey sv) z = (z', Inr kvb)" "nodes z' = nodes z"
    using get_present [OF assms, of z "fst x" "snd x"] by auto
  with Some that show thesis by (simp add: ensureDatasphereMembership_def)
qed

lemma start_present:
  assumes "ok" and "sv_coordinationClient sv"
    and "key = SERVICE_ROOT_PATH (getDatasphereId sv) (getServiceId sv)"
    and "good key []" and "good key (ser (sv_info sv))" and "nodes z key = Some (v, n)"
  shows "\<exists>z'. Service_init CC f ser serKvb None sv z =
      (z', sv\<lparr>sv_serviceEntryKey := key\<rparr>,
       [Subscribed TOPIC_SERVICES, announcement f ser serKvb (sv_info sv) (n + 1)], None) \<and>
    nodes z' = (nodes z)(key \<mapsto> (ser (sv_info sv), n + 1))"
proof -
  let ?sv = "sv\<lparr>sv_serviceEntryKey := key\<rparr>"
  obtain z1 where z1: "ensureDatasphereMembership CC ?sv z = (z1, None)" "nodes z1 = nodes z"
    using membership [OF assms(1), of ?sv z] assms(4,6) by auto
  with assms(6) have "nodes z1 key = Some (v, n)" by simp
  from publish_present [where ser = ser and info = "sv_info sv", OF assms(1,5) this] obtain z2 where z2:
    "publishServiceInfomation CC f ser serKvb key (sv_info sv) z1 =
      (z2, [announcement f ser serKvb (sv_info sv) (n + 1)], None)"
    "nodes z2 = (nodes z1)(key \<mapsto> (ser (sv_info sv), n + 1))"
    by blast
  show ?thesis
    unfolding Service_init_def
    using assms(2) z1 z2 by (simp add: Let_def assms(3) [symmetric] ConnectionCache_init_def)
qed

lemma start_absent:
  assumes "ok" and "sv_coordinationClient sv"
    and "key = SERVICE_ROOT_PATH (getDatasphereId sv) (getServiceId sv)"
    and "good key []" and "nodes z key = None"
  shows "\<exists>z'. Service_init CC f ser serKvb None sv z =
      (z', sv\<lparr>sv_serviceEntryKey := key\<rparr>, [], Some (StatusException STATUS_INVALID_KEY)) \<and>
    nodes z' = nodes z"
proof -
  let ?sv = "sv\<lparr>sv_serviceEntryKey := key\<rparr>"
  obtain z1 where "ensureDatasphereMembership CC ?sv z = (z1, Some (StatusException STATUS_INVALID_KEY))"
    "nodes z1 = nodes z"
    using membership [OF assms(1), of ?sv z] assms(4,5) by auto
  then show ?thesis
    unfolding Service_init_def using assms(2) by (simp add: Let_def assms(3) [symmetric])
qed

end

subsection \<open>ZooKeeper keeps the contract\<close>

text \<open>
  The documented behaviour of ZooKeeper's reads and writes, beside \<open>zk_ok\<close>, for paths and values
  that it accepts; a read of a malformed path is refused.
\<close>

definition zk_good :: "string \<Rightarrow> string \<Rightarrow> bool" where
  "zk_good p v \<longleftrightarrow> zk_path p \<and> zk_small p v"

definition zk_entries_ok :: "'z zookeeper \<Rightarrow> bool" where
  "zk_entries_ok Z \<longleftrightarrow>
     (\<forall>p z. zk_good p [] \<longrightarrow> (case zk_nodes Z z p of
        Some (v, n) \<Rightarrow> \<exists>val z'. zk_get Z p z = (z', Inr (ZOK, (val, n))) \<and> zk_nodes Z z' = zk_nodes Z z
      | None \<Rightarrow> \<exists>d z'. zk_get Z p z = (z', Inr (ZNONODE, d)) \<and> zk_nodes Z z' = zk_nodes Z z)) \<and>
     (\<forall>p v n w z. zk_good p v \<longrightarrow> zk_nodes Z z p = Some (w, n) \<longrightarrow>
        (\<exists>z'. zk_set Z p v (- 1) z = (z', Inr (ZOK, n + 1)) \<and>
              zk_nodes Z z' = (zk_nodes Z z)(p \<mapsto> (v, n + 1)))) \<and>
     (\<forall>p z. zk_bad_path p \<longrightarrow> zk_get Z p z = (z, Inl ZBADARGUMENTS))"

definition zk_serves :: "'z zookeeper \<Rightarrow> bool" where
  "zk_serves Z \<longleftrightarrow> zk_ok Z \<and> zk_entries_ok Z"

lemma zk_serves_get:
  assumes "zk_serves Z" and "zk_good p []"
  shows "zk_nodes Z z p = Some (v, n) \<Longrightarrow>
      \<exists>val z'. zk_get Z p z = (z', Inr (ZOK, (val, n))) \<and> zk_nodes Z z' = zk_nodes Z z"
    and "zk_nodes Z z p = None \<Longrightarrow>
      \<exists>d z'. zk_get Z p z = (z', Inr (ZNONODE, d)) \<and> zk_nodes Z z' = zk_nodes Z z"
proof -
  from assms have "case zk_nodes Z z p of
      Some (v, n) \<Rightarrow> \<exists>val z'. zk_get Z p z = (z', Inr (ZOK, (val, n))) \<and> zk_nodes Z z' = zk_nodes Z z
    | None \<Rightarrow> \<exists>d z'. zk_get Z p z = (z', Inr (ZNONODE, d)) \<and> zk_nodes Z z' = zk_nodes Z z"
    unfolding zk_serves_def zk_entries_ok_def by blast
  then show "zk_nodes Z z p = Some (v, n) \<Longrightarrow>
      \<exists>val z'. zk_get Z p z = (z', Inr (ZOK, (val, n))) \<and> zk_nodes Z z' = zk_nodes Z z"
    and "zk_nodes Z z p = None \<Longrightarrow>
      \<exists>d z'. zk_get Z p z = (z', Inr (ZNONODE, d)) \<and> zk_nodes Z z' = zk_nodes Z z"
    by simp_all
qed

lemma zk_serves_bad_get: "zk_serves Z \<Longrightarrow> zk_bad_path p \<Longrightarrow> zk_get Z p z = (z, Inl ZBADARGUMENTS)"
  unfolding zk_serves_def zk_entries_ok_def by blast

lemma zk_serves_set:
  "zk_serves Z \<Longrightarrow> zk_good p v \<Longrightarrow> zk_nodes Z z p = Some (w, n) \<Longrightarrow>
     \<exists>z'. zk_set Z p v (- 1) z = (z', Inr (ZOK, n + 1)) \<and> zk_nodes Z z' = (zk_nodes Z z)(p \<mapsto> (v, n + 1))"
  unfolding zk_serves_def zk_entries_ok_def by blast

lemma zk_serves_create:
  assumes "zk_serves Z" and "zk_good p v" and "parent_path p = [] \<or> zk_nodes Z z p \<noteq> None"
  shows "\<exists>z'. zkc_create Z p v z = (z', create_answer (zk_nodes Z z) p) \<and>
    zk_nodes Z z' = with_node v p (zk_nodes Z z)"
  by (rule zkc_create_ok [of Z p v z]) (use assms in \<open>auto simp: zk_serves_def zk_good_def zk_hosts_def\<close>)

interpretation zkc: coordination_client "zooKafka Z f" "zk_nodes Z" "zk_serves Z" zk_good for Z f
proof unfold_locales
  fix z p v n
  assume ok: "zk_serves Z"
  show "\<exists>kvb z'. co_get (zooKafka Z f) p z = (z', Inr kvb) \<and> zk_nodes Z z' = zk_nodes Z z"
    if "zk_good p []" "zk_nodes Z z p = Some (v, n)"
    using zk_serves_get(1) [OF ok that] by (auto simp: zooKafka_def zkc_get_def complete_def)
  show "\<exists>z'. co_get (zooKafka Z f) p z = (z', Inl (StatusException STATUS_INVALID_KEY)) \<and>
      zk_nodes Z z' = zk_nodes Z z" if "zk_good p []" "zk_nodes Z z p = None"
    using zk_serves_get(2) [OF ok that]
    by (auto simp: zooKafka_def zkc_get_def complete_def zk_codes toStatusException_def)
  show "\<exists>z'. co_set (zooKafka Z f) p v' (- 1) z = (z', Inr (n + 1)) \<and>
      zk_nodes Z z' = (zk_nodes Z z)(p \<mapsto> (v', n + 1))"
    if "zk_good p v'" "zk_nodes Z z p = Some (v, n)" for v'
    using zk_serves_set [OF ok that] by (auto simp: zooKafka_def zkc_set_def complete_def)
  show "\<exists>z'. co_create (zooKafka Z f) p v z = (z', Inr p) \<and> zk_nodes Z z' = (zk_nodes Z z)(p \<mapsto> (v, 0))"
    if "zk_good p v" "zk_nodes Z z p = None" "parent_path p = []" for v
    using zk_serves_create [OF ok that(1), of z] that(2,3)
    by (auto simp: zooKafka_def create_answer_def with_node_def)
  show "\<exists>e z'. co_create (zooKafka Z f) p v z = (z', Inl e) \<and> zk_nodes Z z' = zk_nodes Z z"
    if "zk_good p v" "zk_nodes Z z p \<noteq> None" for v
    using zk_serves_create [OF ok that(1), of z] that(2)
    by (auto simp: zooKafka_def create_answer_def with_node_def)
qed

subsection \<open>Properties\<close>

text \<open>
  A service whose entry has a valid path and is small enough for a request starts exactly if it is
  configured: with its entry in the configuration database,
  the entry gets the service's own information under the next version, that version and
  information are announced on the services topic, after the connection cache has subscribed to
  it, and no other entry changes; without its entry the start fails with \<open>STATUS_INVALID_KEY\<close>,
  nothing is written, announced or subscribed to.
\<close>

theorem service_starts_iff_configured:
  assumes "zk_serves Z" and "sv_coordinationClient sv"
    and "key = SERVICE_ROOT_PATH (getDatasphereId sv) (getServiceId sv)"
    and "zk_good key []" and "zk_good key (ser (sv_info sv))"
  shows "\<exists>z' evs e. Service_init (zooKafka Z f) f ser serKvb None sv z =
      (z', sv\<lparr>sv_serviceEntryKey := key\<rparr>, evs, e) \<and>
    (case zk_nodes Z z key of
       None \<Rightarrow> e = Some (StatusException STATUS_INVALID_KEY) \<and> evs = [] \<and> zk_nodes Z z' = zk_nodes Z z
     | Some (v, n) \<Rightarrow> e = None \<and>
         evs = [Subscribed TOPIC_SERVICES, announcement f ser serKvb (sv_info sv) (n + 1)] \<and>
         zk_nodes Z z' = (zk_nodes Z z)(key \<mapsto> (ser (sv_info sv), n + 1)))"
proof (cases "zk_nodes Z z key")
  case None
  with zkc.start_absent [where f = f and ser = ser, OF assms(1-4) None] show ?thesis by auto
next
  case (Some x)
  obtain v n where "x = (v, n)" by (cases x)
  with Some zkc.start_present [where f = f and ser = ser, OF assms, of z v n] show ?thesis by auto
qed

definition sample_store :: mem_tree where
  "sample_store = [SERVICE_ROOT_PATH ''d'' ''s1'' \<mapsto> (''old'', 4)]"

definition sample_service_info :: ServiceInfo where
  "sample_service_info = \<lparr>si_id = ''s1'', si_dataSphereId = ''d'', si_nodeId = ''n'',
     si_type = VOLUME_SERVER, si_ip = ''h'', si_port = 7, si_rootPath = ''/r''\<rparr>"

lemma mem_zk_serves: "zk_serves mem_zk"
  using mem_zk_ok
  by (auto simp: zk_serves_def zk_entries_ok_def zk_good_def mem_zk_def dest: zk_path_not_bad split: option.splits)

lemma sample_key_good:
  "length v < 100 \<Longrightarrow> zk_good (SERVICE_ROOT_PATH ''d'' ''s1'') v"
  by (simp add: zk_good_def zk_path_def zk_name_def zk_small_def SERVICE_ROOT_PATH_def SERVICES_ROOT_PATH_def
      DATASPHERE_ROOT_PATH_def)

theorem service_starts_iff_configured_witness:
  "\<exists>z'. Service_init (zooKafka mem_zk folly_dec) folly_dec si_ip (\<lambda>_. ''k'') None
      (newDefaultService sample_service_info) sample_store =
    (z', (newDefaultService sample_service_info)\<lparr>sv_serviceEntryKey := SERVICE_ROOT_PATH ''d'' ''s1''\<rparr>,
     [Subscribed TOPIC_SERVICES, Published TOPIC_SERVICES ''k''], None) \<and>
    z' (SERVICE_ROOT_PATH ''d'' ''s1'') = Some (''h'', 5)"
proof -
  have "zk_good (SERVICE_ROOT_PATH ''d'' ''s1'') []" "zk_good (SERVICE_ROOT_PATH ''d'' ''s1'') ''h''"
    by (simp_all add: sample_key_good)
  then show ?thesis
    using service_starts_iff_configured [OF mem_zk_serves, of "newDefaultService sample_service_info"
        "SERVICE_ROOT_PATH ''d'' ''s1''" si_ip folly_dec "\<lambda>_. ''k''" sample_store]
    by (auto simp: newDefaultService_def Service_new_def sample_service_info_def getDatasphereId_def
        getServiceId_def sample_store_def announcement_def mem_zk_def)
qed

text \<open>
  The bootstrap of the configuration service: on a database without its entry it comes up
  unconfigured, having announced nothing; \<open>createDatom\<close> then creates its entry and the two topics
  and announces version 1; and from then on every restart finds the service configured and
  announces the next version.
\<close>

theorem datom_bootstrap:
  assumes "zk_serves Z" and "zk_nodes Z z CONFIGSERVICE_ROOT = None"
    and "zk_small CONFIGSERVICE_ROOT (ser info)"
  shows "\<exists>z1 cf1 z2 z3 cf3.
    ConfigService_start (zooKafka Z f) f ser serKvb None info ConfigService_new z =
      (z1, cf1, [Subscribed TOPIC_SERVICES], None) \<and>
    \<not> cf_datomConfigured cf1 \<and> zk_nodes Z z1 = zk_nodes Z z \<and>
    createDatom (zooKafka Z f) f ser serKvb info cf1 z1 =
      (z2, [Published TOPIC_SERVICES [], Published (TOPIC_PB_SPHERE_RESOURCES PB_VOLUMES_TYPE) [],
            announcement f ser serKvb info 1], None) \<and>
    zk_nodes Z z2 = (zk_nodes Z z)(CONFIGSERVICE_ROOT \<mapsto> (ser info, 1)) \<and>
    ConfigService_start (zooKafka Z f) f ser serKvb None info ConfigService_new z2 =
      (z3, cf3, [Subscribed TOPIC_SERVICES, announcement f ser serKvb info 2], None) \<and>
    cf_datomConfigured cf3 \<and> cf_datasphereTable cf3 = []"
proof -
  let ?C = "zooKafka Z f" and ?k = CONFIGSERVICE_ROOT
  have root: "parent_path ?k = []" by (simp add: parent_path_def CONFIGSERVICE_ROOT_def)
  have good: "zk_good ?k []" "zk_good ?k (ser info)"
    using assms(3) by (simp_all add: zk_good_def zk_path_def zk_name_def zk_small_def CONFIGSERVICE_ROOT_def)
  obtain z1 where z1: "co_get ?C ?k z = (z1, Inl (StatusException STATUS_INVALID_KEY))"
    "zk_nodes Z z1 = zk_nodes Z z"
    using zkc.get_absent [OF assms(1) good(1) assms(2)] by blast
  obtain zc where zc: "co_create ?C ?k [] z1 = (zc, Inr ?k)" "zk_nodes Z zc = (zk_nodes Z z1)(?k \<mapsto> ([], 0))"
    using zkc.create_absent [OF assms(1) good(1), of z1 f] assms(2) z1(2) root by auto
  have "zk_nodes Z zc ?k = Some ([], 0)" using zc(2) by simp
  from zkc.publish_present [where ser = ser and info = info, OF assms(1) good(2) this] obtain z2 where
    z2: "publishServiceInfomation ?C f ser serKvb ?k info zc = (z2, [announcement f ser serKvb info 1], None)"
      "zk_nodes Z z2 = (zk_nodes Z zc)(?k \<mapsto> (ser info, 1))"
    by (metis add_0)
  have p2: "zk_nodes Z z2 ?k = Some (ser info, 1)" using z2(2) by simp
  obtain kvb zg where zg: "co_get ?C ?k z2 = (zg, Inr kvb)" "zk_nodes Z zg = zk_nodes Z z2"
    using zkc.get_present [OF assms(1) good(1) p2] by blast
  from p2 zg(2) have "zk_nodes Z zg ?k = Some (ser info, 1)" by simp
  from zkc.publish_present [where ser = ser and info = info, OF assms(1) good(2) this] obtain z3 where
    z3: "publishServiceInfomation ?C f ser serKvb ?k info zg = (z3, [announcement f ser serKvb info 2], None)"
    by (metis one_add_one)
  show ?thesis
    using z1 zc z2 zg z3
    by (simp add: ConfigService_start_def ConfigService_init_def ConfigService_new_def Let_def
        createDatom_def createPublishableTopics_def ConnectionCache_init_def)
qed

theorem datom_bootstrap_witness:
  "\<exists>z1 cf1. ConfigService_start (zooKafka mem_zk folly_dec) folly_dec si_ip (\<lambda>_. ''k'') None
      sample_service_info ConfigService_new (Map.empty :: mem_tree) =
    (z1, cf1, [Subscribed TOPIC_SERVICES], None) \<and> \<not> cf_datomConfigured cf1"
  using datom_bootstrap [OF mem_zk_serves, of Map.empty si_ip sample_service_info folly_dec "\<lambda>_. ''k''"]
  by (auto simp: mem_zk_def zk_small_def CONFIGSERVICE_ROOT_def sample_service_info_def)

end
