(* ===== verification/Properties_Cache.thy ===== *)
theory Properties_Cache
  imports Service_Core
begin

section \<open>Cached properties: \<open>src/infra/PropertiesCache.cpp\<close>, \<open>.tcc\<close>\<close>

text \<open>
  \<open>PropertiesCache\<close> reads a map of properties from the configuration database once and answers
  lookups from it. The entry is JSON, read by \<open>parse\<close>, an argument. \<open>getProp\<close> has no \<open>return\<close>
  statement: when the lookup succeeds, control flows off the end of a non-void function, which
  is undefined behaviour (\<open>Abort\<close>); when it fails, \<open>at\<close> throws.
\<close>

type_synonym PropertiesCache = "(string \<times> string) list"

fun copyProps :: "(string \<times> string) list \<Rightarrow> PropertiesCache \<Rightarrow> PropertiesCache" where
  "copyProps [] cache = cache"
| "copyProps (kv # kvs) cache = copyProps kvs (AList.update (fst kv) (snd kv) cache)"

definition PropertiesCache_init ::
  "'z CoordinationClient \<Rightarrow> (bytes \<Rightarrow> (string \<times> string) list option) \<Rightarrow> PropertiesCache \<Rightarrow> 'z \<Rightarrow>
    'z \<times> PropertiesCache outcome" where
  "PropertiesCache_init CC parse cache z =
     (case co_get CC ''properties/static'' z of
        (z1, Inl e) \<Rightarrow> (z1, Throw e)
      | (z1, Inr kvb) \<Rightarrow> (z1, obind (getPayload parse kvb) (\<lambda>props. Ok (copyProps props cache))))"

definition getPropT :: "string \<Rightarrow> PropertiesCache \<Rightarrow> 't outcome" where
  "getPropT key cache = (case map_of cache key of None \<Rightarrow> Throw OtherException | Some v \<Rightarrow> Abort)"

definition getPropOr :: "string \<Rightarrow> 't \<Rightarrow> PropertiesCache \<Rightarrow> 't outcome" where
  "getPropOr key fallback cache =
     (case getPropT key cache of Throw e \<Rightarrow> Ok fallback | r \<Rightarrow> r)"

lemma map_of_copyProps: "map_of (copyProps kvs cache) k =
    (case map_of (rev kvs) k of None \<Rightarrow> map_of cache k | Some v \<Rightarrow> Some v)"
proof (induction kvs cache rule: copyProps.induct)
  case (2 kv kvs cache)
  then show ?case
    by (auto simp: update_conv' map_add_def split: option.splits)
qed simp

text \<open>
  No property can be read: after the cache is filled from an entry, a lookup with a fallback
  answers the fallback for every key the entry does not have (nor the cache had), and is
  undefined behaviour for every key it has.
\<close>

theorem present_property_is_undefined:
  assumes "co_get CC ''properties/static'' z = (z1, Inr kvb)" and "getPayload parse kvb = Ok props"
  shows "\<exists>cache. PropertiesCache_init CC parse [] z = (z1, Ok cache) \<and>
    (\<forall>key fallback. getPropOr key fallback cache =
       (if key \<in> fst ` set props then Abort else Ok (fallback :: 't)))"
proof -
  have "map_of (copyProps props []) key = None \<longleftrightarrow> key \<notin> fst ` set props" for key
    using map_of_eq_None_iff [of "rev props" key]
    by (auto simp: map_of_copyProps split: option.splits)
  note missing = this
  have "getPropOr key fallback (copyProps props []) =
      (if key \<in> fst ` set props then Abort else Ok (fallback :: 't))" for key fallback
    using missing [of key]
    by (cases "map_of (copyProps props []) key") (simp_all add: getPropOr_def getPropT_def)
  with assms show ?thesis by (simp add: PropertiesCache_init_def)
qed

text \<open>A client that finds the entry.\<close>

definition sample_client :: "unit CoordinationClient" where
  "sample_client = \<lparr>co_get = (\<lambda>key z. (z, Inr (KVBuffer_new\<lparr>kv_payload := Some []\<rparr>))),
     co_create = (\<lambda>key v z. (z, Inr key)), co_set = (\<lambda>key v n z. (z, Inr 0))\<rparr>"

theorem present_property_is_undefined_witness:
  "\<exists>cache. snd (PropertiesCache_init sample_client (\<lambda>_. Some [(''a'', ''1'')]) [] ()) = Ok cache \<and>
    getPropOr ''a'' (0 :: int) cache = Abort \<and> getPropOr ''b'' (0 :: int) cache = Ok 0"
proof -
  let ?kvb = "KVBuffer_new\<lparr>kv_payload := Some []\<rparr>"
  have "co_get sample_client ''properties/static'' () = ((), Inr ?kvb)"
    by (simp add: sample_client_def)
  moreover have "getPayload (\<lambda>_. Some [(''a'', ''1'')]) ?kvb = Ok [(''a'', ''1'')]"
    by (simp add: getPayload_def)
  ultimately show ?thesis
    using present_property_is_undefined [where ?'t = int and CC = sample_client and z = "()"
        and parse = "\<lambda>_. Some [(''a'', ''1'')]"]
    by fastforce
qed

text \<open>
  C40. The properties are never loaded: the key that \<open>PropertiesCache::init\<close> reads,
  \<open>properties/static\<close>, is not absolute. A ZooKeeper that keeps its contract (with no chroot in the
  connect string) refuses the read, whatever is stored, and \<open>init\<close> throws \<open>STATUS_INVALID\<close>.
\<close>

theorem properties_never_load:
  assumes "zk_serves Z"
  shows "PropertiesCache_init (zooKafka Z f) parse cache z = (z, Throw (StatusException STATUS_INVALID))"
proof -
  have "zk_bad_path ''properties/static''" by (simp add: zk_bad_path_def)
  then have "co_get (zooKafka Z f) ''properties/static'' z = (z, Inl (StatusException STATUS_INVALID))"
    using zk_serves_bad_get [OF assms]
    by (simp add: zooKafka_def zkc_get_def complete_def toStatusException_def zk_codes)
  then show ?thesis by (simp add: PropertiesCache_init_def)
qed

theorem properties_never_load_witness:
  "PropertiesCache_init (zooKafka mem_zk folly_dec) (\<lambda>_. Some [(''a'', ''1'')]) []
     [''/properties'' \<mapsto> (''x'', 2), ''/properties/static'' \<mapsto> (''y'', 0)] =
   ([''/properties'' \<mapsto> (''x'', 2), ''/properties/static'' \<mapsto> (''y'', 0)],
    Throw (StatusException STATUS_INVALID))"
  using properties_never_load [OF mem_zk_serves] by blast

end
