(* ===== verification/Resource_Mgr.thy ===== *)
theory Resource_Mgr
  imports Config_Tree
begin

section \<open>The replicas a service owns: \<open>src/infra/PBResourceMgr.tcc\<close>\<close>

text \<open>
  \<open>PBResourceMgr\<close> reads the ring table and the resource table of the configuration database when
  the service starts, creates a replica for every resource whose ring the service is a member
  of, and adds resources announced later. The table of rings is an unordered map read with
  \<open>operator[]\<close>, which inserts an empty ring for a missing key. \<open>mk members quorum info\<close> stands for
  the construction and \<open>init\<close> of a replica (\<open>Volume_Server\<close> supplies the volume replica); the
  JSON decoders are arguments. What the manager does to its environment is a list of \<open>mgr_event\<close>s,
  in their order.
\<close>

record 'r PBResourceMgr =
  rm_datasphereId :: string
  rm_serviceId :: string
  rm_id :: string
  rm_ringTable :: "(int \<times> RingInfo) list"
  rm_resourceTable :: "(int \<times> 'r) list"

type_synonym ('r, 'e) replica_maker = "string list \<Rightarrow> 32 word \<Rightarrow> VolumeInfo \<Rightarrow> ('r \<times> 'e list) outcome"

datatype 'e mgr_event =
    TableRead string              \<comment> \<open>the children of a path of the configuration tree\<close>
  | ReplicaAdded int              \<comment> \<open>to the resource table\<close>
  | ReplicaDoes int 'e            \<comment> \<open>an effect of its \<open>init\<close>\<close>
  | TopicSubscribed string

definition PBResourceMgr_new :: "string \<Rightarrow> string \<Rightarrow> string \<Rightarrow> 'r PBResourceMgr" where
  "PBResourceMgr_new ds service i =
     \<lparr>rm_datasphereId = ds, rm_serviceId = service, rm_id = i, rm_ringTable = [], rm_resourceTable = []\<rparr>"

definition getResourceOrThrow :: "int \<Rightarrow> 'r PBResourceMgr \<Rightarrow> 'r outcome" where
  "getResourceOrThrow i rm =
     (case map_of (rm_resourceTable rm) i of
        None \<Rightarrow> Throw (StatusException STATUS_INVALID_RESOURCE)
      | Some r \<Rightarrow> Ok r)"

text \<open>\<open>ringTable_[k]\<close>: the ring and the table after the access.\<close>

definition ringAt :: "int \<Rightarrow> (int \<times> RingInfo) list \<Rightarrow> RingInfo \<times> (int \<times> RingInfo) list" where
  "ringAt k t =
     (case map_of t k of
        Some ring \<Rightarrow> (ring, t)
      | None \<Rightarrow> (RingInfo_default, AList.update k RingInfo_default t))"

definition addResourceReplicaIfOwned ::
  "('r, 'e) replica_maker \<Rightarrow> VolumeInfo \<Rightarrow> 'r PBResourceMgr \<Rightarrow> ('r PBResourceMgr \<times> 'e mgr_event list) outcome" where
  "addResourceReplicaIfOwned mk info rm =
     (let (ring, t) = ringAt (as_u64 (vi_ringId info)) (rm_ringTable rm);
          rm1 = rm\<lparr>rm_ringTable := t\<rparr>
      in if isRingMember ring (rm_serviceId rm)
         then obind (mk (ri_memberIds ring) 2 info) (\<lambda>(r, effs).
                Ok (rm1\<lparr>rm_resourceTable := AList.update (getId info) r (rm_resourceTable rm1)\<rparr>,
                    ReplicaAdded (getId info) # map (ReplicaDoes (getId info)) effs))
         else Ok (rm1, []))"

fun pullRings ::
  "folly_ops \<Rightarrow> (bytes \<Rightarrow> RingInfo option) \<Rightarrow> KVBuffer list \<Rightarrow> (int \<times> RingInfo) list \<Rightarrow>
    (int \<times> RingInfo) list outcome" where
  "pullRings f parse [] t = Ok t"
| "pullRings f parse (kvb # kvbs) t =
     obind (getIdProp kvb) (\<lambda>s.
       case to_int64 f s of
         None \<Rightarrow> Throw OtherException
       | Some i \<Rightarrow>
           obind (getPayload parse kvb) (\<lambda>ring.
           pullRings f parse kvbs (AList.update (as_u64 i) ring t)))"

fun pullResources ::
  "folly_ops \<Rightarrow> (bytes \<Rightarrow> VolumeInfo option) \<Rightarrow> ('r, 'e) replica_maker \<Rightarrow> KVBuffer list \<Rightarrow>
    'r PBResourceMgr \<Rightarrow> ('r PBResourceMgr \<times> 'e mgr_event list) outcome" where
  "pullResources f parse mk [] rm = Ok (rm, [])"
| "pullResources f parse mk (kvb # kvbs) rm =
     obind (getPayload parse kvb) (\<lambda>info.
     obind (getVersion f kvb) (\<lambda>version.
     obind (addResourceReplicaIfOwned mk info rm) (\<lambda>(rm1, effs1).
     obind (pullResources f parse mk kvbs rm1) (\<lambda>(rm2, effs2).
     Ok (rm2, effs1 @ effs2)))))"

text \<open>
  \<open>children path\<close> is the answer of \<open>getChildrenSync\<close>; a missing resource table is an empty one.
\<close>

definition pullResourceConfigTable ::
  "folly_ops \<Rightarrow> (bytes \<Rightarrow> RingInfo option) \<Rightarrow> (bytes \<Rightarrow> VolumeInfo option) \<Rightarrow> ('r, 'e) replica_maker \<Rightarrow>
    (string \<Rightarrow> exn + KVBuffer list) \<Rightarrow> 'r PBResourceMgr \<Rightarrow> ('r PBResourceMgr \<times> 'e mgr_event list) outcome" where
  "pullResourceConfigTable f parseRing parseVolume mk children rm =
     (let ringsRoot = PB_SPHERE_RINGS_ROOT_PATH (rm_datasphereId rm) (rm_id rm);
          resourcesRoot = PB_SPHERE_RESOURCES_ROOT_PATH (rm_datasphereId rm) (rm_id rm)
      in case children ringsRoot of
           Inl e \<Rightarrow> Throw e
         | Inr rings \<Rightarrow>
             obind (pullRings f parseRing rings (rm_ringTable rm)) (\<lambda>t.
             obind (case children resourcesRoot of
                      Inl e \<Rightarrow> if e = StatusException STATUS_INVALID_KEY then Ok [] else Throw e
                    | Inr resources \<Rightarrow> Ok resources) (\<lambda>resources.
             obind (pullResources f parseVolume mk resources (rm\<lparr>rm_ringTable := t\<rparr>)) (\<lambda>(rm1, evs).
             Ok (rm1, TableRead ringsRoot # TableRead resourcesRoot # evs @
                        [TopicSubscribed (TOPIC_PB_SPHERE_RESOURCES (rm_id rm))])))))"

text \<open>
  A message on the resources topic. For a resource in the table the message goes to
  \<open>applyResourceUpdate\<close>, which is not implemented (a \<open>DCHECK\<close>) and does nothing.
\<close>

definition handleResourceConfigTableUpdate ::
  "folly_ops \<Rightarrow> (bytes \<Rightarrow> VolumeInfo option) \<Rightarrow> ('r, 'e) replica_maker \<Rightarrow> KVBuffer \<Rightarrow>
    'r PBResourceMgr \<Rightarrow> ('r PBResourceMgr \<times> 'e mgr_event list) outcome" where
  "handleResourceConfigTableUpdate f parse mk kvb rm =
     obind (getVersion f kvb) (\<lambda>version.
     obind (getPayload parse kvb) (\<lambda>info.
       case map_of (rm_resourceTable rm) (getId info) of
         None \<Rightarrow> addResourceReplicaIfOwned mk info rm
       | Some resource \<Rightarrow> Ok (rm, [])))"

subsection \<open>Owned resources\<close>

lemma ringAt_snd: "map_of (snd (ringAt k t)) j =
    (if j = k \<and> map_of t k = None then Some RingInfo_default else map_of t j)"
  by (simp add: ringAt_def update_conv' split: option.split)

text \<open>A service is a member of the ring a volume was placed on, by the table.\<close>

definition owns :: "string \<Rightarrow> (int \<times> RingInfo) list \<Rightarrow> VolumeInfo \<Rightarrow> bool" where
  "owns service t info \<longleftrightarrow>
     (\<exists>ring. map_of t (as_u64 (vi_ringId info)) = Some ring \<and> service \<in> set (ri_memberIds ring))"

definition ring_view :: "(int \<times> RingInfo) list \<Rightarrow> int \<Rightarrow> string list" where
  "ring_view t k = (case map_of t k of None \<Rightarrow> [] | Some ring \<Rightarrow> ri_memberIds ring)"

lemma owns_ring_view: "owns service t info \<longleftrightarrow> service \<in> set (ring_view t (as_u64 (vi_ringId info)))"
  by (cases "map_of t (as_u64 (vi_ringId info))") (simp_all add: owns_def ring_view_def)

lemma ring_view_ringAt: "ring_view (snd (ringAt k t)) = ring_view t"
  by (simp add: fun_eq_iff ring_view_def ringAt_snd RingInfo_default_def split: option.split)

lemma addReplica_cases:
  assumes "addResourceReplicaIfOwned mk info rm = Ok (rm', effs)"
  shows "ring_view (rm_ringTable rm') = ring_view (rm_ringTable rm)"
    and "rm_serviceId rm' = rm_serviceId rm"
    and "\<not> owns (rm_serviceId rm) (rm_ringTable rm) info \<Longrightarrow>
           rm_resourceTable rm' = rm_resourceTable rm \<and> effs = []"
    and "owns (rm_serviceId rm) (rm_ringTable rm) info \<Longrightarrow>
           \<exists>r es. mk (ring_view (rm_ringTable rm) (as_u64 (vi_ringId info))) 2 info = Ok (r, es) \<and>
               effs = ReplicaAdded (vi_id info) # map (ReplicaDoes (vi_id info)) es \<and>
               rm_resourceTable rm' = AList.update (vi_id info) r (rm_resourceTable rm)"
proof -
  let ?k = "as_u64 (vi_ringId info)"
  obtain ring t where rt: "ringAt ?k (rm_ringTable rm) = (ring, t)" by (cases "ringAt ?k (rm_ringTable rm)")
  then have mem: "isRingMember ring (rm_serviceId rm) \<longleftrightarrow> owns (rm_serviceId rm) (rm_ringTable rm) info"
    and mems: "ri_memberIds ring = ring_view (rm_ringTable rm) ?k"
    by (auto simp: ringAt_def isRingMember_def owns_def ring_view_def RingInfo_default_def
        split: option.splits)
  have t: "ring_view t = ring_view (rm_ringTable rm)"
    using ring_view_ringAt [of ?k "rm_ringTable rm"] rt by simp
  note op = assms [unfolded addResourceReplicaIfOwned_def rt mem mems Let_def prod.case]
  show "ring_view (rm_ringTable rm') = ring_view (rm_ringTable rm)"
    and "rm_serviceId rm' = rm_serviceId rm"
    using op t by (auto simp: obind_Ok_iff split: if_splits)
  show "rm_resourceTable rm' = rm_resourceTable rm \<and> effs = []"
    if "\<not> owns (rm_serviceId rm) (rm_ringTable rm) info"
    using op that by auto
  show "\<exists>r es. mk (ring_view (rm_ringTable rm) ?k) 2 info = Ok (r, es) \<and>
               effs = ReplicaAdded (vi_id info) # map (ReplicaDoes (vi_id info)) es \<and>
               rm_resourceTable rm' = AList.update (vi_id info) r (rm_resourceTable rm)"
    if "owns (rm_serviceId rm) (rm_ringTable rm) info"
    using op that by (auto simp: obind_Ok_iff getId_def)
qed

lemma addReplica_succeeds:
  assumes "owns (rm_serviceId rm) (rm_ringTable rm) info \<Longrightarrow>
      \<exists>r es. mk (ring_view (rm_ringTable rm) (as_u64 (vi_ringId info))) 2 info = Ok (r, es)"
  shows "\<exists>rm' evs. addResourceReplicaIfOwned mk info rm = Ok (rm', evs)"
proof (cases "map_of (rm_ringTable rm) (as_u64 (vi_ringId info))")
  case None
  then show ?thesis by (simp add: addResourceReplicaIfOwned_def ringAt_def isRingMember_def RingInfo_default_def)
next
  case (Some ring)
  with assms show ?thesis
    by (auto simp: addResourceReplicaIfOwned_def ringAt_def isRingMember_def owns_def ring_view_def)
qed

text \<open>Announcements of resources, one after the other.\<close>

fun addAll ::
  "('r, 'e) replica_maker \<Rightarrow> VolumeInfo list \<Rightarrow> 'r PBResourceMgr \<Rightarrow> ('r PBResourceMgr \<times> 'e mgr_event list) outcome" where
  "addAll mk [] rm = Ok (rm, [])"
| "addAll mk (info # infos) rm =
     obind (addResourceReplicaIfOwned mk info rm) (\<lambda>(rm1, effs1).
     obind (addAll mk infos rm1) (\<lambda>(rm2, effs2). Ok (rm2, effs1 @ effs2)))"

text \<open>The replicas that a list of events adds, in order.\<close>

definition addedReplicas :: "'e mgr_event list \<Rightarrow> int list" where
  "addedReplicas evs = concat (map (\<lambda>e. case e of ReplicaAdded i \<Rightarrow> [i] | _ \<Rightarrow> []) evs)"

lemma addedReplicas_simps [simp]:
  "addedReplicas [] = []" "addedReplicas (xs @ ys) = addedReplicas xs @ addedReplicas ys"
  "addedReplicas (ReplicaAdded i # map (ReplicaDoes i) es) = [i]"
  by (induction es) (simp_all add: addedReplicas_def)

lemma addAll_owned:
  assumes "addAll mk infos rm = Ok (rm', effs)"
  shows "dom (map_of (rm_resourceTable rm')) = dom (map_of (rm_resourceTable rm)) \<union>
      vi_id ` {info \<in> set infos. owns (rm_serviceId rm) (rm_ringTable rm) info} \<and>
    ring_view (rm_ringTable rm') = ring_view (rm_ringTable rm) \<and> rm_serviceId rm' = rm_serviceId rm \<and>
    addedReplicas effs = map vi_id (filter (owns (rm_serviceId rm) (rm_ringTable rm)) infos)"
  using assms
proof (induction infos arbitrary: rm effs)
  case (Cons info infos)
  obtain rm1 e1 e2 where add: "addResourceReplicaIfOwned mk info rm = Ok (rm1, e1)"
    and rest: "addAll mk infos rm1 = Ok (rm', e2)" and effs: "effs = e1 @ e2"
    using Cons.prems by (auto simp: obind_Ok_iff)
  note one = addReplica_cases [OF add]
  let ?P = "owns (rm_serviceId rm) (rm_ringTable rm)"
  have same: "owns (rm_serviceId rm1) (rm_ringTable rm1) = ?P"
    using one(1,2) by (simp add: fun_eq_iff owns_ring_view)
  have "dom (map_of (rm_resourceTable rm1)) =
      dom (map_of (rm_resourceTable rm)) \<union> (if ?P info then {vi_id info} else {})"
    using one(3,4) by (auto simp: update_conv' split: if_splits)
  moreover have "vi_id ` {i \<in> set (info # infos). ?P i} =
      (if ?P info then {vi_id info} else {}) \<union> vi_id ` {i \<in> set infos. ?P i}"
    by auto
  moreover have "addedReplicas e1 = (if ?P info then [vi_id info] else [])"
    using one(3,4) by auto
  ultimately show ?case
    using Cons.IH [OF rest] one(1,2) unfolding same by (simp add: Un_assoc effs)
qed simp

text \<open>Adding succeeds if the replicas can be made.\<close>

lemma addAll_succeeds:
  assumes "\<forall>info \<in> set infos. owns (rm_serviceId rm) (rm_ringTable rm) info \<longrightarrow>
      (\<exists>r es. mk (ring_view (rm_ringTable rm) (as_u64 (vi_ringId info))) 2 info = Ok (r, es))"
  obtains rm' evs where "addAll mk infos rm = Ok (rm', evs)"
  using assms
proof (induction infos arbitrary: rm thesis)
  case (Cons info infos)
  obtain rm1 e1 where add: "addResourceReplicaIfOwned mk info rm = Ok (rm1, e1)"
    using addReplica_succeeds [of rm info mk] Cons.prems(2) by auto
  note one = addReplica_cases(1,2) [OF add]
  have "\<forall>info \<in> set infos. owns (rm_serviceId rm1) (rm_ringTable rm1) info \<longrightarrow>
      (\<exists>r es. mk (ring_view (rm_ringTable rm1) (as_u64 (vi_ringId info))) 2 info = Ok (r, es))"
    using Cons.prems(2) by (simp add: one owns_ring_view)
  then obtain rm2 e2 where "addAll mk infos rm1 = Ok (rm2, e2)" using Cons.IH by blast
  with add Cons.prems(1) show ?case by simp
qed simp

lemma pullResources_addAll:
  assumes "\<forall>kvb \<in> set kvbs. \<exists>v. getVersion f kvb = Ok v"
    and "map (getPayload parse) kvbs = map Ok infos"
  shows "pullResources f parse mk kvbs rm = addAll mk infos rm"
  using assms
proof (induction kvbs arbitrary: infos rm)
  case (Cons kvb kvbs)
  then obtain v info infos' where "getVersion f kvb = Ok v" "infos = info # infos'"
    "getPayload parse kvb = Ok info" "map (getPayload parse) kvbs = map Ok infos'"
    by (cases infos) auto
  with Cons show ?case
    by (cases "addResourceReplicaIfOwned mk info rm") auto
qed simp

lemma owned_at_startup:
  assumes "pullResourceConfigTable f parseRing parse mk children (PBResourceMgr_new ds service type) = Ok (rm, effs)"
    and "children (PB_SPHERE_RINGS_ROOT_PATH ds type) = Inr rings"
    and "children (PB_SPHERE_RESOURCES_ROOT_PATH ds type) = Inr kvbs"
    and "\<forall>kvb \<in> set kvbs. \<exists>v. getVersion f kvb = Ok v"
    and "map (getPayload parse) kvbs = map Ok infos"
  shows "\<exists>t. pullRings f parseRing rings [] = Ok t \<and>
    dom (map_of (rm_resourceTable rm)) = vi_id ` {info \<in> set infos. owns service t info}"
proof -
  let ?rm = "PBResourceMgr_new ds service type"
  have new: "rm_datasphereId ?rm = ds" "rm_id ?rm = type" "rm_ringTable ?rm = []"
    by (simp_all add: PBResourceMgr_new_def)
  from assms(1) obtain t evs where t: "pullRings f parseRing rings [] = Ok t"
    and "pullResources f parse mk kvbs (?rm\<lparr>rm_ringTable := t\<rparr>) = Ok (rm, evs)"
    by (auto simp: pullResourceConfigTable_def assms(2,3) new obind_Ok_iff Let_def)
  then have "addAll mk infos (?rm\<lparr>rm_ringTable := t\<rparr>) = Ok (rm, evs)"
    by (simp add: pullResources_addAll [OF assms(4,5)])
  from addAll_owned [OF this] t show ?thesis
    by (simp add: PBResourceMgr_new_def)
qed

text \<open>The start succeeds if the tables can be read and the owned replicas can be made.\<close>

lemma startup_succeeds:
  fixes mk :: "('r, 'e) replica_maker"
  assumes "children (PB_SPHERE_RINGS_ROOT_PATH ds type) = Inr rings" and "pullRings f parseRing rings [] = Ok t"
    and "children (PB_SPHERE_RESOURCES_ROOT_PATH ds type) = Inr kvbs"
    and "\<forall>kvb \<in> set kvbs. \<exists>v. getVersion f kvb = Ok v"
    and "map (getPayload parse) kvbs = map Ok infos"
    and "\<forall>info \<in> set infos. owns service t info \<longrightarrow>
      (\<exists>r es. mk (ring_view t (as_u64 (vi_ringId info))) 2 info = Ok (r, es))"
  obtains rm evs where "pullResourceConfigTable f parseRing parse mk children (PBResourceMgr_new ds service type) =
      Ok (rm, TableRead (PB_SPHERE_RINGS_ROOT_PATH ds type) # TableRead (PB_SPHERE_RESOURCES_ROOT_PATH ds type) #
         evs @ [TopicSubscribed (TOPIC_PB_SPHERE_RESOURCES type)])"
    and "addedReplicas evs = map vi_id (filter (owns service t) infos)"
    and "dom (map_of (rm_resourceTable rm)) = vi_id ` {info \<in> set infos. owns service t info}"
proof -
  let ?rm = "PBResourceMgr_new ds service type :: 'r PBResourceMgr"
  let ?rm1 = "?rm\<lparr>rm_ringTable := t\<rparr>"
  have new: "rm_datasphereId ?rm = ds" "rm_id ?rm = type" "rm_ringTable ?rm = []" "rm_serviceId ?rm1 = service"
    "rm_resourceTable ?rm1 = []" "rm_ringTable ?rm1 = t"
    by (simp_all add: PBResourceMgr_new_def)
  obtain rm evs where add: "addAll mk infos ?rm1 = Ok (rm, evs)"
    using addAll_succeeds [of infos ?rm1 mk] assms(6) new by auto
  then have "pullResources f parse mk kvbs ?rm1 = Ok (rm, evs)"
    by (simp add: pullResources_addAll [OF assms(4,5)])
  then have "pullResourceConfigTable f parseRing parse mk children ?rm =
      Ok (rm, TableRead (PB_SPHERE_RINGS_ROOT_PATH ds type) # TableRead (PB_SPHERE_RESOURCES_ROOT_PATH ds type) #
         evs @ [TopicSubscribed (TOPIC_PB_SPHERE_RESOURCES type)])"
    by (simp add: pullResourceConfigTable_def new assms(1-3) Let_def)
  with that addAll_owned [OF add] new show thesis by simp
qed

text \<open>
  A service owns exactly the resources of its rings: after start-up its resource table holds a
  replica for precisely those resources of the configuration database whose ring, as the ring
  table of the database has it, lists the service as a member.
\<close>

theorem startup_owns_ring_resources:
  assumes "pullResourceConfigTable f parseRing parse mk children (PBResourceMgr_new ds service type) = Ok (rm, effs)"
    and "children (PB_SPHERE_RINGS_ROOT_PATH ds type) = Inr rings"
    and "children (PB_SPHERE_RESOURCES_ROOT_PATH ds type) = Inr kvbs"
    and "\<forall>kvb \<in> set kvbs. \<exists>v. getVersion f kvb = Ok v"
    and "map (getPayload parse) kvbs = map Ok infos"
  shows "\<exists>t. pullRings f parseRing rings [] = Ok t \<and>
    dom (map_of (rm_resourceTable rm)) = vi_id ` {info \<in> set infos. owns service t info}"
  by (rule owned_at_startup [OF assms])

text \<open>Tables of one ring and one volume, for evaluation.\<close>

definition table_kvb :: "string \<Rightarrow> KVBuffer" where
  "table_kvb i = (setVersion folly_dec (setId KVBuffer_new i) 0)\<lparr>kv_payload := Some []\<rparr>"

definition sample_children :: "string \<Rightarrow> exn + KVBuffer list" where
  "sample_children path = Inr [table_kvb ''0'']"

definition sample_mk :: "(string list, unit) replica_maker" where
  "sample_mk ms q info = Ok (ms, [])"

lemma table_kvb_parses:
  "getIdProp (table_kvb ''0'') = Ok ''0''" "getVersion folly_dec (table_kvb ''0'') = Ok 0"
  "getPayload (\<lambda>_. Some x) (table_kvb ''0'') = Ok x" "to_int64 folly_dec ''0'' = Some 0"
  by (simp_all add: table_kvb_def getIdProp_def getProp_def setVersion_def setId_def setProp_def
      KVBuffer_new_def kvb_keys getPayload_def getVersion_def folly_dec_def dec_of_int_def
      dec_of_nat.simps digit_char_def int_of_dec_def nat_of_dec_def is_digit_def dec_value_def)

theorem startup_owns_ring_resources_witness:
  "\<exists>rm effs. pullResourceConfigTable folly_dec (\<lambda>_. Some \<lparr>ri_id = 0, ri_memberIds = [''a'', ''b'']\<rparr>)
      (\<lambda>_. Some \<lparr>vi_id = 5, vi_name = ''v'', vi_datasphereId = ''d'', vi_ringId = 0\<rparr>) sample_mk sample_children
      (PBResourceMgr_new ''d'' ''b'' ''volumes'') = Ok (rm, effs) \<and>
    dom (map_of (rm_resourceTable rm)) = {5}"
proof -
  let ?ring = "\<lparr>ri_id = 0, ri_memberIds = [''a'', ''b'']\<rparr>"
  let ?v = "\<lparr>vi_id = 5, vi_name = ''v'', vi_datasphereId = ''d'', vi_ringId = 0\<rparr>"
  have rings: "pullRings folly_dec (\<lambda>_. Some ?ring) [table_kvb ''0''] [] = Ok [(0, ?ring)]"
    by (simp add: table_kvb_parses as_u64_def)
  have own: "owns ''b'' [(0, ?ring)] ?v" by (simp add: owns_def as_u64_def)
  obtain rm effs where r: "pullResourceConfigTable folly_dec (\<lambda>_. Some ?ring) (\<lambda>_. Some ?v) sample_mk
      sample_children (PBResourceMgr_new ''d'' ''b'' ''volumes'') = Ok (rm, effs)"
    by (simp add: pullResourceConfigTable_def sample_children_def table_kvb_parses as_u64_def
        PBResourceMgr_new_def addResourceReplicaIfOwned_def ringAt_def isRingMember_def sample_mk_def)
  from startup_owns_ring_resources [OF r, of "[table_kvb ''0'']" "[table_kvb ''0'']" "[?v]"] rings own r
  show ?thesis by (auto simp: sample_children_def table_kvb_parses)
qed

text \<open>
  A service never learns of rings formed after it started: the announcement of a resource on a
  ring that is missing from its table is ignored although the service may be one of that ring's
  members, and so is every later announcement for that ring.
\<close>

theorem late_ring_resources_ignored:
  assumes "map_of (rm_ringTable rm) (as_u64 k) = None"
    and "\<forall>info \<in> set infos. vi_ringId info = k"
  shows "\<exists>rm'. addAll mk infos rm = Ok (rm', []) \<and> rm_resourceTable rm' = rm_resourceTable rm"
proof -
  have "ring_view (rm_ringTable rm) (as_u64 k) = []" using assms(1) by (simp add: ring_view_def)
  with assms(2) show ?thesis
  proof (induction infos arbitrary: rm)
    case (Cons info infos)
    then have no: "\<not> owns (rm_serviceId rm) (rm_ringTable rm) info" by (simp add: owns_ring_view)
    obtain ring t where rt: "ringAt (as_u64 k) (rm_ringTable rm) = (ring, t)"
      by (cases "ringAt (as_u64 k) (rm_ringTable rm)")
    with Cons.prems(2) have "\<not> isRingMember ring (rm_serviceId rm)"
      by (auto simp: ringAt_def ring_view_def isRingMember_def RingInfo_default_def split: option.splits)
    with rt Cons.prems(1) have add: "addResourceReplicaIfOwned mk info rm = Ok (rm\<lparr>rm_ringTable := t\<rparr>, [])"
      by (simp add: addResourceReplicaIfOwned_def)
    from addReplica_cases(1) [OF add] Cons.prems have "ring_view t (as_u64 k) = []" by simp
    with Cons.IH [of "rm\<lparr>rm_ringTable := t\<rparr>"] Cons.prems(1) add show ?case by auto
  qed simp
qed

theorem late_ring_resources_ignored_witness:
  "\<exists>rm'. addAll sample_mk [\<lparr>vi_id = 5, vi_name = ''v'', vi_datasphereId = ''d'', vi_ringId = 1\<rparr>]
      (PBResourceMgr_new ''d'' ''b'' ''volumes'') = Ok (rm', []) \<and> rm_resourceTable rm' = []"
  using late_ring_resources_ignored [of "PBResourceMgr_new ''d'' ''b'' ''volumes''" 1
      "[\<lparr>vi_id = 5, vi_name = ''v'', vi_datasphereId = ''d'', vi_ringId = 1\<rparr>]" sample_mk]
  by (simp add: PBResourceMgr_new_def)

end
