(* ===== verification/Volume_Server.thy ===== *)
theory Volume_Server
  imports Volume_Sync Resource_Mgr Service_Core
begin

section \<open>The volume server: \<open>src/volumeserver/VolumeServer.cpp\<close>\<close>

text \<open>
  \<open>VolumeServer\<close> owns a resource manager of volume replicas and registers one handler per
  message type: each finds the replica the message names and calls the method of the same name.
  The state of the handlers is the resource manager; an effect carries the id of the replica it
  belongs to. An exception of a method that runs on the replica's event base is carried by the
  future; one of a one-way handler is dropped.
\<close>

record volume_codec =
  vc_getMemberState :: "bytes \<Rightarrow> GetMemberStateMsg option"
  vc_becomeLeader :: "bytes \<Rightarrow> BecomeLeaderMsg option"
  vc_addToGroup :: "bytes \<Rightarrow> AddToGroupMsg option"
  vc_groupInfo :: "bytes \<Rightarrow> GroupInfoUpdateMsg option"
  vc_pull :: "bytes \<Rightarrow> PullJournalEntriesMsg option"
  vc_update :: "bytes \<Rightarrow> UpdateBlobMetaMsg option"
  vc_getMemberStateResp :: "GetMemberStateRespMsg \<Rightarrow> bytes"
  vc_addToGroupResp :: "AddToGroupRespMsg \<Rightarrow> bytes"
  vc_pullResp :: "PullJournalEntriesRespMsg \<Rightarrow> bytes"
  vc_updateResp :: "unit \<Rightarrow> bytes"

type_synonym 'db replicas = "'db VolumeReplica PBResourceMgr"
type_synonym server_effect = "int \<times> pb_effect"

definition setReplica :: "int \<Rightarrow> 'r \<Rightarrow> 'r PBResourceMgr \<Rightarrow> 'r PBResourceMgr" where
  "setReplica i r rm = rm\<lparr>rm_resourceTable := AList.update i r (rm_resourceTable rm)\<rparr>"

text \<open>The replica a resource manager creates for a volume.\<close>

definition volumeReplicaMaker ::
  "'db rocksdb \<Rightarrow> folly_ops \<Rightarrow> string \<Rightarrow> string \<Rightarrow> string \<Rightarrow> int \<Rightarrow> int \<Rightarrow>
    ('db VolumeReplica, pb_effect) replica_maker" where
  "volumeReplicaMaker R f datasphere me volumesPath anyVersion anyOpId members q info =
     obind (VolumeReplica_new R f datasphere me volumesPath members q info anyVersion anyOpId)
       (\<lambda>r. Ok (PBMember_init r))"

subsection \<open>The handlers\<close>

text \<open>A method that only answers, and one that changes the replica; both run on its event base.\<close>

definition answering ::
  "int \<Rightarrow> ('db VolumeReplica \<Rightarrow> 'resp outcome) \<Rightarrow> 'db replicas \<Rightarrow>
    ('db replicas \<times> server_effect list \<times> (exn + 'resp)) outcome" where
  "answering i g rm =
     obind (getResourceOrThrow i rm) (\<lambda>r.
       case g r of Ok resp \<Rightarrow> Ok (rm, [], Inr resp) | Throw e \<Rightarrow> Ok (rm, [], Inl e) | Abort \<Rightarrow> Abort)"

definition changing ::
  "int \<Rightarrow> ('db VolumeReplica \<Rightarrow> ('db VolumeReplica \<times> (exn + 'resp)) outcome) \<Rightarrow> 'db replicas \<Rightarrow>
    ('db replicas \<times> server_effect list \<times> (exn + 'resp)) outcome" where
  "changing i g rm =
     obind (getResourceOrThrow i rm) (\<lambda>r.
       case g r of Ok (r1, x) \<Rightarrow> Ok (setReplica i r1 rm, [], x) | Throw e \<Rightarrow> Ok (rm, [], Inl e) | Abort \<Rightarrow> Abort)"

definition oneway ::
  "int \<Rightarrow> ('db VolumeReplica \<Rightarrow> 'db VolumeReplica pb_result) \<Rightarrow> 'db replicas \<Rightarrow>
    ('db replicas \<times> server_effect list) outcome" where
  "oneway i g rm =
     obind (getResourceOrThrow i rm) (\<lambda>r.
       case g r of
         Ok (r1, effs) \<Rightarrow> Ok (setReplica i r1 rm, map (\<lambda>e. (i, e)) effs)
       | Throw e \<Rightarrow> Ok (rm, [])
       | Abort \<Rightarrow> Abort)"

definition registerHandlers ::
  "'db rocksdb \<Rightarrow> volume_codec \<Rightarrow> (string \<times> ('db replicas, server_effect) kvb_handler) list \<Rightarrow>
    (string \<times> ('db replicas, server_effect) kvb_handler) list" where
  "registerHandlers R C hs =
     (let h1 = registerKVBMessageHandler ''GetMemberStateMsg''
            (kvbHandler (vc_getMemberState C) (vc_getMemberStateResp C) ''GetMemberStateRespMsg''
               (\<lambda>req buffer. answering (gm_resourceId req) (handleGetMemberStateMsg req))) hs;
          h2 = registerKVBMessageHandler ''BecomeLeaderMsg''
            (kvbOnewayHandler (vc_becomeLeader C)
               (\<lambda>req. oneway (bl_resourceId req) (handleBecomeLeaderMsg req))) h1;
          h3 = registerKVBMessageHandler ''AddToGroupMsg''
            (kvbHandler (vc_addToGroup C) (vc_addToGroupResp C) ''AddToGroupRespMsg''
               (\<lambda>req buffer. changing (ag_resourceId req)
                  (\<lambda>r. obind (handleAddToGroupMsg req r) (\<lambda>(r1, resp). Ok (r1, Inr resp))))) h2;
          h4 = registerKVBMessageHandler ''GroupInfoUpdateMsg''
            (kvbOnewayHandler (vc_groupInfo C)
               (\<lambda>req. oneway (gi_resourceId req) (handleGroupInfoUpdateMsg req))) h3;
          h5 = registerKVBMessageHandler ''PullJournalEntriesMsg''
            (kvbHandler (vc_pull C) (vc_pullResp C) ''PullJournalEntriesRespMsg''
               (\<lambda>req buffer. answering (pj_resourceId req) (handlePullJournalEntriesMsg req))) h4
      in registerKVBMessageHandler UPDATE_BLOB_META
            (kvbHandler (vc_update C) (vc_updateResp C) ''UpdateBlobMetaRespMsg''
               (\<lambda>req buffer. changing (ub_resourceId req) (handleMetadataWrite R req buffer))) h5)"

definition serverMessage ::
  "'db rocksdb \<Rightarrow> volume_codec \<Rightarrow> ('db replicas, server_effect) kvb_handler" where
  "serverMessage R C = handleKVBMessage (registerHandlers R C [])"

subsection \<open>Which replica a message reaches\<close>

text \<open>The resource a message names, by its type.\<close>

definition addressed :: "volume_codec \<Rightarrow> KVBuffer \<Rightarrow> int option" where
  "addressed C kvb =
     (case (getType kvb, kv_payload kvb) of
        (Ok t, Some b) \<Rightarrow>
          if t = ''GetMemberStateMsg'' then map_option gm_resourceId (vc_getMemberState C b)
          else if t = ''BecomeLeaderMsg'' then map_option bl_resourceId (vc_becomeLeader C b)
          else if t = ''AddToGroupMsg'' then map_option ag_resourceId (vc_addToGroup C b)
          else if t = ''GroupInfoUpdateMsg'' then map_option gi_resourceId (vc_groupInfo C b)
          else if t = ''PullJournalEntriesMsg'' then map_option pj_resourceId (vc_pull C b)
          else if t = UPDATE_BLOB_META then map_option ub_resourceId (vc_update C b)
          else None
      | _ \<Rightarrow> None)"

text \<open>What a handler may do when it is run for replica \<open>i\<close>.\<close>

definition only_replica :: "int \<Rightarrow> 'db replicas \<Rightarrow> 'db replicas \<Rightarrow> server_effect list \<Rightarrow> bool" where
  "only_replica i rm rm' effs \<longleftrightarrow>
     map_of (rm_resourceTable rm) i \<noteq> None \<and>
     (\<forall>j. j \<noteq> i \<longrightarrow> map_of (rm_resourceTable rm') j = map_of (rm_resourceTable rm) j) \<and>
     dom (map_of (rm_resourceTable rm')) = dom (map_of (rm_resourceTable rm)) \<and>
     rm_ringTable rm' = rm_ringTable rm \<and> fst ` set effs \<subseteq> {i}"

lemma answering_only: "answering i g rm = Ok (rm', effs, x) \<Longrightarrow> only_replica i rm rm' effs"
  by (auto simp: answering_def only_replica_def getResourceOrThrow_def obind_Ok_iff
      split: option.splits outcome.splits)

lemma changing_only: "changing i g rm = Ok (rm', effs, x) \<Longrightarrow> only_replica i rm rm' effs"
  by (auto simp: changing_def only_replica_def getResourceOrThrow_def obind_Ok_iff setReplica_def
      update_conv' split: option.splits outcome.splits if_splits)

lemma oneway_only: "oneway i g rm = Ok (rm', effs) \<Longrightarrow> only_replica i rm rm' effs"
  by (auto simp: oneway_def only_replica_def getResourceOrThrow_def obind_Ok_iff setReplica_def
      update_conv' split: option.splits outcome.splits if_splits)

lemmas handler_only = answering_only changing_only oneway_only

lemma kvbHandler_Ok:
  assumes "kvbHandler parse ser t h kvb s = Ok (s', effs, r)"
  obtains req buffer x where "kv_payload kvb = Some buffer" and "parse buffer = Some req"
    and "h req buffer s = Ok (s', effs, x)"
  using assms by (auto simp: kvbHandler_def getPayload_def obind_Ok_iff split: option.splits)

lemma kvbOnewayHandler_Ok:
  assumes "kvbOnewayHandler parse h kvb s = Ok (s', effs, r)"
  obtains req buffer where "kv_payload kvb = Some buffer" and "parse buffer = Some req"
    and "h req s = Ok (s', effs)"
  using assms by (auto simp: kvbOnewayHandler_def getPayload_def obind_Ok_iff split: option.splits)

lemmas registered = registerHandlers_def Let_def registered_last UPDATE_BLOB_META_def

lemma serverMessage_Ok:
  assumes "serverMessage R C kvb rm = Ok (rm', effs, reply)"
  obtains i where "addressed C kvb = Some i" and "only_replica i rm rm' effs"
proof -
  from assms obtain t h where t: "getType kvb = Ok t" and h: "map_of (registerHandlers R C []) t = Some h"
    and run: "h kvb rm = Ok (rm', effs, reply)"
    by (auto simp: serverMessage_def handleKVBMessage_def obind_Ok_iff split: option.splits)
  from h run t that show thesis
    by (auto simp: registered addressed_def elim!: kvbHandler_Ok kvbOnewayHandler_Ok
        dest: handler_only split: if_splits)
qed

text \<open>
  C25. A message reaches one replica: whatever the server accepts names a replica it owns, leaves
  every other replica and the set of replicas as they were, and starts effects of that replica
  only; and a message for a resource the server does not own is refused with
  \<open>STATUS_INVALID_RESOURCE\<close> without any effect.
\<close>

theorem message_reaches_one_replica:
  "(\<forall>rm' effs reply. serverMessage R C kvb rm = Ok (rm', effs, reply) \<longrightarrow>
      (\<exists>i. addressed C kvb = Some i \<and> map_of (rm_resourceTable rm) i \<noteq> None \<and>
         (\<forall>j. j \<noteq> i \<longrightarrow> map_of (rm_resourceTable rm') j = map_of (rm_resourceTable rm) j) \<and>
         dom (map_of (rm_resourceTable rm')) = dom (map_of (rm_resourceTable rm)) \<and>
         fst ` set effs \<subseteq> {i})) \<and>
   (\<forall>i. addressed C kvb = Some i \<longrightarrow> map_of (rm_resourceTable rm) i = None \<longrightarrow>
      serverMessage R C kvb rm = Throw (StatusException STATUS_INVALID_RESOURCE))"
proof (intro conjI allI impI)
  fix rm' effs reply
  assume "serverMessage R C kvb rm = Ok (rm', effs, reply)"
  then show "\<exists>i. addressed C kvb = Some i \<and> map_of (rm_resourceTable rm) i \<noteq> None \<and>
         (\<forall>j. j \<noteq> i \<longrightarrow> map_of (rm_resourceTable rm') j = map_of (rm_resourceTable rm) j) \<and>
         dom (map_of (rm_resourceTable rm')) = dom (map_of (rm_resourceTable rm)) \<and>
         fst ` set effs \<subseteq> {i}"
    by (rule serverMessage_Ok) (auto simp: only_replica_def)
next
  fix i
  assume addr: "addressed C kvb = Some i" and none: "map_of (rm_resourceTable rm) i = None"
  then obtain t b where "getType kvb = Ok t" "kv_payload kvb = Some b"
    by (auto simp: addressed_def split: outcome.splits option.splits)
  with addr none show "serverMessage R C kvb rm = Throw (StatusException STATUS_INVALID_RESOURCE)"
    by (auto simp: serverMessage_def handleKVBMessage_def registered addressed_def kvbHandler_def
        kvbOnewayHandler_def getPayload_def answering_def changing_def oneway_def
        getResourceOrThrow_def split: if_splits)
qed

definition sample_volume_codec :: volume_codec where
  "sample_volume_codec =
     \<lparr>vc_getMemberState = (\<lambda>_. None), vc_becomeLeader = (\<lambda>_. None), vc_addToGroup = (\<lambda>_. None),
      vc_groupInfo = (\<lambda>_. None), vc_pull = (\<lambda>_. None), vc_update = (\<lambda>_. Some sample_update),
      vc_getMemberStateResp = (\<lambda>_. []), vc_addToGroupResp = (\<lambda>_. []), vc_pullResp = (\<lambda>_. []),
      vc_updateResp = (\<lambda>_. [])\<rparr>"

theorem message_reaches_one_replica_witness:
  "serverMessage mem_db sample_volume_codec (requestKvb UPDATE_BLOB_META (\<lambda>_. [9]) sample_update)
     (PBResourceMgr_new ''d'' ''b'' ''volumes'') = Throw (StatusException STATUS_INVALID_RESOURCE)"
proof -
  have "addressed sample_volume_codec (requestKvb UPDATE_BLOB_META (\<lambda>_. [9]) sample_update) = Some 0"
    by (simp add: addressed_def sample_volume_codec_def UPDATE_BLOB_META_def sample_update_def)
  with message_reaches_one_replica [of mem_db sample_volume_codec
      "requestKvb UPDATE_BLOB_META (\<lambda>_. [9]) sample_update" "PBResourceMgr_new ''d'' ''b'' ''volumes''"]
  show ?thesis by (auto simp: PBResourceMgr_new_def)
qed

subsection \<open>Start-up\<close>

text \<open>
  \<open>VolumeServer::init\<close>: the base service, the event base pool, the replicas of the resource
  manager with its subscription, the handlers. \<open>children\<close> are the answers of \<open>getChildrenSync\<close>,
  \<open>mk\<close> makes the replicas. The last component lists what happens, in order: events of the base
  service and events of the resource manager.
\<close>

definition VolumeServer_init ::
  "'z CoordinationClient \<Rightarrow> folly_ops \<Rightarrow> (ServiceInfo \<Rightarrow> string) \<Rightarrow> (KVBuffer \<Rightarrow> string) \<Rightarrow> exn option \<Rightarrow>
    'db rocksdb \<Rightarrow> volume_codec \<Rightarrow> ('db VolumeReplica, pb_effect) replica_maker \<Rightarrow>
    (bytes \<Rightarrow> RingInfo option) \<Rightarrow> (bytes \<Rightarrow> VolumeInfo option) \<Rightarrow> (string \<Rightarrow> exn + KVBuffer list) \<Rightarrow>
    Service \<Rightarrow> 'z \<Rightarrow> 'z \<times> (Service \<times> 'db replicas \<times>
      (string \<times> ('db replicas, server_effect) kvb_handler) list \<times> (service_event + pb_effect mgr_event) list) outcome" where
  "VolumeServer_init CC f ser serKvb up R C mk parseRing parseVolume children sv z =
     (case Service_init CC f ser serKvb up sv z of
        (z1, sv1, evs, Some e) \<Rightarrow> (z1, Throw e)
      | (z1, sv1, evs, None) \<Rightarrow>
          (z1,
           let sv2 = initIOThreadpool 2 sv1
           in obind (pullResourceConfigTable f parseRing parseVolume mk children
                       (PBResourceMgr_new (getDatasphereId sv2) (getServiceId sv2) PB_VOLUMES_TYPE))
                (\<lambda>(rm, mevs). Ok (sv2, rm, registerHandlers R C [], map Inl evs @ map Inr mevs))))"

lemma registered_types:
  "dom (map_of (registerHandlers R C [])) = {''GetMemberStateMsg'', ''BecomeLeaderMsg'',
     ''AddToGroupMsg'', ''GroupInfoUpdateMsg'', ''PullJournalEntriesMsg'', ''UpdateBlobMetaMsg''}"
  by (auto simp: registered split: if_splits)

text \<open>
  C26. A configured volume server comes up: if its entry is in the configuration database (under a
  valid path, and small enough for a request), the tables of rings and volumes can be read and a
  replica can be made for every volume of its rings, then \<open>init\<close> succeeds with replicas for
  exactly these volumes and a handler for exactly the six messages of the protocol. It does so in
  this order: it subscribes to the services topic, announces itself there under the next version of
  its entry, reads the rings, reads the volumes, adds the replicas in the order of the table, and
  only then subscribes to the topic of volumes.
\<close>

theorem volume_server_comes_up:
  assumes "zk_serves Z" and "sv_coordinationClient sv" and "ds = getDatasphereId sv"
    and "key = SERVICE_ROOT_PATH ds (getServiceId sv)" and "zk_good key []" and "zk_good key (ser (sv_info sv))"
    and "zk_nodes Z z key = Some (v, n)"
    and "children (PB_SPHERE_RINGS_ROOT_PATH ds PB_VOLUMES_TYPE) = Inr rings"
    and "pullRings f parseRing rings [] = Ok t"
    and "children (PB_SPHERE_RESOURCES_ROOT_PATH ds PB_VOLUMES_TYPE) = Inr kvbs"
    and "\<forall>kvb \<in> set kvbs. \<exists>n. getVersion f kvb = Ok n"
    and "map (getPayload parseVolume) kvbs = map Ok infos"
    and "\<forall>info \<in> set infos. owns (getServiceId sv) t info \<longrightarrow>
      (\<exists>r es. mk (ring_view t (as_u64 (vi_ringId info))) 2 info = Ok (r, es))"
  shows "\<exists>z' sv' rm hs mevs.
    VolumeServer_init (zooKafka Z f) f ser serKvb None R C mk parseRing parseVolume children sv z =
      (z', Ok (sv', rm, hs,
         [Inl (Subscribed TOPIC_SERVICES), Inl (announcement f ser serKvb (sv_info sv) (n + 1)),
          Inr (TableRead (PB_SPHERE_RINGS_ROOT_PATH ds PB_VOLUMES_TYPE)),
          Inr (TableRead (PB_SPHERE_RESOURCES_ROOT_PATH ds PB_VOLUMES_TYPE))] @
         map Inr mevs @ [Inr (TopicSubscribed (TOPIC_PB_SPHERE_RESOURCES PB_VOLUMES_TYPE))])) \<and>
    addedReplicas mevs = map vi_id (filter (owns (getServiceId sv) t) infos) \<and>
    dom (map_of (rm_resourceTable rm)) = vi_id ` {info \<in> set infos. owns (getServiceId sv) t info} \<and>
    dom (map_of hs) = {''GetMemberStateMsg'', ''BecomeLeaderMsg'', ''AddToGroupMsg'',
      ''GroupInfoUpdateMsg'', ''PullJournalEntriesMsg'', ''UpdateBlobMetaMsg''} \<and>
    zk_nodes Z z' = (zk_nodes Z z)(key \<mapsto> (ser (sv_info sv), n + 1))"
proof -
  from zkc.start_present [where f = f and ser = ser and serKvb = serKvb, OF assms(1,2) assms(4) [unfolded assms(3)] assms(5-7)]
  obtain z1 where z1: "Service_init (zooKafka Z f) f ser serKvb None sv z = (z1, sv\<lparr>sv_serviceEntryKey := key\<rparr>,
       [Subscribed TOPIC_SERVICES, announcement f ser serKvb (sv_info sv) (n + 1)], None)"
    "zk_nodes Z z1 = (zk_nodes Z z)(key \<mapsto> (ser (sv_info sv), n + 1))"
    by blast
  obtain rm mevs where pull: "pullResourceConfigTable f parseRing parseVolume mk children
      (PBResourceMgr_new ds (getServiceId sv) PB_VOLUMES_TYPE) =
      Ok (rm, TableRead (PB_SPHERE_RINGS_ROOT_PATH ds PB_VOLUMES_TYPE) #
         TableRead (PB_SPHERE_RESOURCES_ROOT_PATH ds PB_VOLUMES_TYPE) #
         mevs @ [TopicSubscribed (TOPIC_PB_SPHERE_RESOURCES PB_VOLUMES_TYPE)])"
    "addedReplicas mevs = map vi_id (filter (owns (getServiceId sv) t) infos)"
    "dom (map_of (rm_resourceTable rm)) = vi_id ` {info \<in> set infos. owns (getServiceId sv) t info}"
    by (rule startup_succeeds [where children = children and mk = mk and parse = parseVolume and t = t and f = f
        and service = "getServiceId sv", OF assms(8-13)])
  have "getDatasphereId (initIOThreadpool 2 (sv\<lparr>sv_serviceEntryKey := key\<rparr>)) = ds"
    "getServiceId (initIOThreadpool 2 (sv\<lparr>sv_serviceEntryKey := key\<rparr>)) = getServiceId sv"
    by (simp_all add: initIOThreadpool_def getDatasphereId_def getServiceId_def assms(3))
  with pull z1 show ?thesis by (simp add: VolumeServer_init_def Let_def registered_types)
qed

theorem volume_server_comes_up_witness:
  "\<exists>z' sv' rm hs evs. VolumeServer_init (zooKafka mem_zk folly_dec) folly_dec si_ip (\<lambda>_. ''k'') None
      mem_db sample_volume_codec (volumeReplicaMaker mem_db folly_dec ''d'' ''s1'' ''/v'' 0 0)
      (\<lambda>_. Some \<lparr>ri_id = 0, ri_memberIds = [''s1'', ''b'']\<rparr>)
      (\<lambda>_. Some \<lparr>vi_id = 5, vi_name = ''v'', vi_datasphereId = ''d'', vi_ringId = 0\<rparr>) sample_children
      (newDefaultService sample_service_info) sample_store = (z', Ok (sv', rm, hs, evs)) \<and>
    dom (map_of (rm_resourceTable rm)) = {5}"
proof -
  let ?ring = "\<lparr>ri_id = 0, ri_memberIds = [''s1'', ''b'']\<rparr>"
  let ?v = "\<lparr>vi_id = 5, vi_name = ''v'', vi_datasphereId = ''d'', vi_ringId = 0\<rparr>"
  let ?sv = "newDefaultService sample_service_info" and ?key = "SERVICE_ROOT_PATH ''d'' ''s1''"
  let ?mk = "volumeReplicaMaker mem_db folly_dec ''d'' ''s1'' ''/v'' 0 0"
  have rings: "pullRings folly_dec (\<lambda>_. Some ?ring) [table_kvb ''0''] [] = Ok [(0, ?ring)]"
    by (simp add: table_kvb_parses as_u64_def)
  have own: "owns ''s1'' [(0, ?ring)] ?v" by (simp add: owns_def as_u64_def)
  have sv: "sv_coordinationClient ?sv" "''d'' = getDatasphereId ?sv" "getServiceId ?sv = ''s1''"
    by (simp_all add: newDefaultService_def Service_new_def sample_service_info_def getDatasphereId_def
        getServiceId_def)
  have key: "?key = SERVICE_ROOT_PATH ''d'' (getServiceId ?sv)" "zk_good ?key []" "zk_good ?key (si_ip (sv_info ?sv))"
    by (simp_all add: getServiceId_def sample_key_good newDefaultService_def Service_new_def sample_service_info_def)
  have entry: "zk_nodes mem_zk sample_store ?key = Some (''old'', 4)" by (simp add: mem_zk_def sample_store_def)
  have ch: "sample_children (PB_SPHERE_RINGS_ROOT_PATH ''d'' PB_VOLUMES_TYPE) = Inr [table_kvb ''0'']"
    "sample_children (PB_SPHERE_RESOURCES_ROOT_PATH ''d'' PB_VOLUMES_TYPE) = Inr [table_kvb ''0'']"
    by (simp_all add: sample_children_def)
  have mk: "\<forall>info \<in> set [?v]. owns (getServiceId ?sv) [(0, ?ring)] info \<longrightarrow>
      (\<exists>r es. ?mk (ring_view [(0, ?ring)] (as_u64 (vi_ringId info))) 2 info = Ok (r, es))"
    by (simp add: volumeReplicaMaker_def VolumeReplica_new_def VolumeMetaDb_init_def mem_db_def PBMember_init_def Let_def)
  have vs: "map (getPayload (\<lambda>_. Some ?v)) [table_kvb ''0''] = map Ok [?v]"
    "\<forall>kvb \<in> set [table_kvb ''0'']. \<exists>n. getVersion folly_dec kvb = Ok n"
    by (simp_all add: table_kvb_parses)
  have "{info \<in> set [?v]. owns (getServiceId ?sv) [(0, ?ring)] info} = {?v}" using own sv(3) by auto
  with volume_server_comes_up [where ser = si_ip and mk = ?mk and parseVolume = "\<lambda>_. Some ?v" and R = mem_db
      and C = sample_volume_codec and serKvb = "\<lambda>_. ''k''" and children = sample_children and t = "[(0, ?ring)]",
      OF mem_zk_serves sv(1,2) key entry ch(1) rings ch(2) vs(2,1) mk]
  show ?thesis by (elim exE conjE) (intro exI conjI, assumption, simp)
qed

end
