(* ===== verification/Config_Api.thy ===== *)
theory Config_Api
  imports Config_Service
begin

section \<open>The API of the configuration service: \<open>ConfigApiHandler\<close>\<close>

text \<open>
  \<open>ConfigApiHandler\<close> (\<open>src/configservice/ConfigService.cpp\<close>) exposes the operations of
  \<open>ConfigService\<close> to thrift clients; \<open>apiCall\<close> is one request. An exception of the operation is
  the client's answer and the service goes on. \<open>apiCalls\<close> serves requests one after the other,
  each with its own answers of the coordination service.

  A data sphere is \<^emph>\<open>managed\<close> if its volume manager can be reached by the interleaved steps of
  \<open>Config_Manager\<close> with no call outstanding: the blocking service refines the event-driven manager,
  and every invariant of the latter holds for what clients are shown.
\<close>

datatype api_request =
    AddDatasphere DataSphereInfo
  | AddServiceInfo ServiceInfo
  | AddVolumeInfo VolumeInfo
  | ListServices string
  | ListVolumes string
  | ListVolumeRings string

datatype api_answer =
    Done
  | Services "ServiceInfo list"
  | Volumes "VolumeInfo list"
  | Rings "RingInfo list"

definition answered :: "exn option \<Rightarrow> exn + api_answer" where
  "answered e = (case e of None \<Rightarrow> Inr Done | Some x \<Rightarrow> Inl x)"

fun listing :: "('a \<Rightarrow> api_answer) \<Rightarrow> 'a outcome \<Rightarrow> ConfigService \<Rightarrow>
    (ConfigService \<times> config_call list \<times> (exn + api_answer)) outcome" where
  "listing g (Ok x) cf = Ok (cf, [], Inr (g x))"
| "listing g (Throw e) cf = Ok (cf, [], Inl e)"
| "listing g Abort cf = Abort"

fun apiCall ::
  "folly_ops \<Rightarrow> config_codec \<Rightarrow> creator \<Rightarrow> api_request \<Rightarrow> ConfigService \<Rightarrow>
    (ConfigService \<times> config_call list \<times> (exn + api_answer)) outcome" where
  "apiCall f C create (AddDatasphere info) cf =
     (case addDataSphere C create info cf of (cf1, e) \<Rightarrow> Ok (cf1, [], answered e))"
| "apiCall f C create (AddServiceInfo info) cf =
     obind (addService f C create info cf) (\<lambda>(cf1, e). Ok (cf1, [], answered e))"
| "apiCall f C create (AddVolumeInfo info) cf =
     obind (addVolume f C create info cf) (\<lambda>(cf1, published, r).
       Ok (cf1, published, case r of Inl e \<Rightarrow> Inl e | Inr _ \<Rightarrow> Inr Done))"
| "apiCall f C create (ListServices i) cf = listing Services (listServices i cf) cf"
| "apiCall f C create (ListVolumes i) cf = listing Volumes (listVolumes i cf) cf"
| "apiCall f C create (ListVolumeRings i) cf = listing Rings (listVolumeRings i cf) cf"

fun apiCalls ::
  "folly_ops \<Rightarrow> config_codec \<Rightarrow> (creator \<times> api_request) list \<Rightarrow> ConfigService \<Rightarrow> ConfigService outcome" where
  "apiCalls f C [] cf = Ok cf"
| "apiCalls f C ((create, req) # reqs) cf =
     obind (apiCall f C create req cf) (\<lambda>(cf1, _). apiCalls f C reqs cf1)"

text \<open>\<open>startVolumeCluster\<close> and \<open>startDataCluster\<close> are declared and have empty bodies.\<close>

definition startVolumeCluster :: "ConfigService \<Rightarrow> ConfigService" where
  "startVolumeCluster cf = cf"

definition startDataCluster :: "ConfigService \<Rightarrow> ConfigService" where
  "startDataCluster cf = cf"

subsection \<open>The manager behind a data sphere\<close>

definition mgr_start :: "string \<Rightarrow> config_state" where
  "mgr_start i = \<lparr>cs_mgr = ConfigMgr_new i PB_VOLUMES_TYPE 3, cs_outRings = [], cs_outResources = [],
     cs_services = [], cs_formed = []\<rparr>"

lemma mgr_start_init: "config_init (mgr_start i)"
  unfolding config_init_def mgr_start_def
  by (rule exI [of _ i], rule exI [of _ PB_VOLUMES_TYPE], rule exI [of _ 3]) simp

definition quiet_at :: "ConfigMgr \<Rightarrow> config_state \<Rightarrow> bool" where
  "quiet_at cm s \<longleftrightarrow> cs_mgr s = cm \<and> cs_outRings s = [] \<and> cs_outResources s = []"

definition managed :: "folly_ops \<Rightarrow> config_codec \<Rightarrow> string \<Rightarrow> ConfigMgr \<Rightarrow> bool" where
  "managed f C i cm \<longleftrightarrow> (\<exists>s. (serial_step f C)\<^sup>*\<^sup>* (mgr_start i) s \<and> quiet_at cm s)"

lemma managed_new: "managed f C i (ConfigMgr_new i PB_VOLUMES_TYPE 3)"
  unfolding managed_def by (rule exI [of _ "mgr_start i"]) (simp add: quiet_at_def mgr_start_def)

text \<open>A blocking operation is two steps of the manager: its start and its completion.\<close>

lemma managed_add_service:
  assumes "managed f C i cm" and "mgrAddService f C info cm = Ok (cm1, calls)"
    and "finishAddService create calls cm1 = Ok (cm2, e)"
  shows "managed f C i cm2"
proof -
  obtain s where s: "(serial_step f C)\<^sup>*\<^sup>* (mgr_start i) s" "quiet_at cm s"
    using assms(1) by (auto simp: managed_def)
  let ?s1 = "s\<lparr>cs_mgr := cm1, cs_outRings := cs_outRings s @ call_rings calls,
      cs_services := cs_services s @ [si_id info], cs_formed := cs_formed s @ call_rings calls\<rparr>"
  have "config_step f C s ?s1"
    by (rule config_step.AddService) (use s(2) assms(2) in \<open>simp add: quiet_at_def\<close>)
  then have "serial_step f C s ?s1" using s(2) by (simp add: serial_step_def quiet_at_def)
  with s(1) have s1: "(serial_step f C)\<^sup>*\<^sup>* (mgr_start i) ?s1" by simp
  consider "calls = []" | p d ring where "calls = [CreateRing p d ring]"
    using assms(2) by (auto simp: mgrAddService_def addRing_def Let_def split: if_splits)
  then show ?thesis
  proof cases
    case 1
    with assms(3) s(2) have "quiet_at cm2 ?s1" by (simp add: quiet_at_def)
    with s1 show ?thesis unfolding managed_def by blast
  next
    case 2
    let ?s2 = "?s1\<lparr>cs_mgr := cm2, cs_outRings := remove1 ring (cs_outRings ?s1)\<rparr>"
    have "config_step f C ?s1 ?s2"
      by (rule config_step.RingDone [where res = "create p d" and e = e])
        (use assms(3) 2 in simp_all)
    then have "serial_step f C ?s1 ?s2" by (simp add: serial_step_def)
    with s1 have "(serial_step f C)\<^sup>*\<^sup>* (mgr_start i) ?s2" by (rule rtranclp.rtrancl_into_rtrancl)
    moreover have "quiet_at cm2 ?s2" using 2 s(2) by (simp add: quiet_at_def)
    ultimately show ?thesis unfolding managed_def by blast
  qed
qed

lemma managed_add_volume:
  assumes "managed f C i cm" and "addResource f C info cm = Ok (cm1, calls)"
    and "finishAddResource f C create calls cm1 = (cm2, pub, r)"
  shows "managed f C i cm2"
proof -
  obtain s where s: "(serial_step f C)\<^sup>*\<^sup>* (mgr_start i) s" "quiet_at cm s"
    using assms(1) by (auto simp: managed_def)
  obtain p d v where calls: "calls = [CreateResource p d v]"
    using assms(2) by (rule addResource_cases)
  let ?s1 = "s\<lparr>cs_mgr := cm1, cs_outResources := cs_outResources s @ call_resources calls\<rparr>"
  let ?s2 = "?s1\<lparr>cs_mgr := cm2, cs_outResources := remove1 v (cs_outResources ?s1)\<rparr>"
  have "config_step f C s ?s1"
    by (rule config_step.AddResource) (use s(2) assms(2) in \<open>simp add: quiet_at_def\<close>)
  then have "serial_step f C s ?s1" using s(2) by (simp add: serial_step_def quiet_at_def)
  with s(1) have s1: "(serial_step f C)\<^sup>*\<^sup>* (mgr_start i) ?s1" by simp
  have "config_step f C ?s1 ?s2"
    by (rule config_step.ResourceDone [where res = "create p d" and calls = pub and x = r])
      (use assms(3) calls in simp_all)
  then have "serial_step f C ?s1 ?s2"
    by (simp add: serial_step_def calls length_remove1)
  with s1 have "(serial_step f C)\<^sup>*\<^sup>* (mgr_start i) ?s2" by (rule rtranclp.rtrancl_into_rtrancl)
  moreover have "quiet_at cm2 ?s2" using calls s(2) by (simp add: quiet_at_def)
  ultimately show ?thesis unfolding managed_def by blast
qed

subsection \<open>The served state\<close>

definition served :: "folly_ops \<Rightarrow> config_codec \<Rightarrow> ConfigService \<Rightarrow> bool" where
  "served f C cf \<longleftrightarrow> (\<forall>i dm. map_of (cf_datasphereTable cf) i = Some dm \<longrightarrow>
     ds_id (dm_info dm) = i \<and> managed f C i (dm_volumes dm))"

lemma servedD:
  "served f C cf \<Longrightarrow> getDatasphereOrThrow i cf = Ok dm \<Longrightarrow>
     ds_id (dm_info dm) = i \<and> managed f C i (dm_volumes dm)"
  by (auto simp: served_def getDatasphereOrThrow_def split: option.splits)

lemma served_setDatasphere:
  "served f C cf \<Longrightarrow> ds_id (dm_info dm) = i \<Longrightarrow> managed f C i (dm_volumes dm) \<Longrightarrow>
     served f C (setDatasphere i dm cf)"
  by (simp add: served_def setDatasphere_def update_conv')

lemma finishAddService_no_throw: "finishAddService create calls cm \<noteq> Throw e"
  by (induction create calls cm rule: finishAddService.induct)
    (simp_all add: ringCreated_def split: sum.splits exn.splits)

lemma dmAddService_managed:
  assumes "dmAddService f C create info dm = Ok (dm', e)" and "managed f C i (dm_volumes dm)"
  shows "dm_info dm' = dm_info dm \<and> managed f C i (dm_volumes dm')"
  using assms
  by (auto simp: dmAddService_def Let_def finishAddService_no_throw intro: managed_add_service
      split: sum.splits if_splits outcome.splits prod.splits)

lemma dmAddVolume_managed:
  assumes "dmAddVolume f C create info dm = Ok (dm', pub, r)" and "managed f C i (dm_volumes dm)"
  shows "dm_info dm' = dm_info dm \<and> managed f C i (dm_volumes dm')"
  using assms
  by (auto simp: dmAddVolume_def intro: managed_add_volume split: outcome.splits prod.splits)

lemma served_update:
  assumes "served f C cf" and "getDatasphereOrThrow i cf = Ok dm"
    and "managed f C i (dm_volumes dm) \<Longrightarrow>
      dm_info dm' = dm_info dm \<and> managed f C i (dm_volumes dm')"
  shows "served f C (setDatasphere i dm' cf)"
  using servedD [OF assms(1,2)] assms(1,3) by (auto intro: served_setDatasphere)

lemma apiCall_served:
  assumes "apiCall f C create req cf = Ok (cf', pub, a)" and "served f C cf"
  shows "served f C cf'"
proof (cases req)
  case (AddDatasphere info)
  with assms show ?thesis
    by (auto simp: addDataSphere_def DatasphereConfigMgr_init_def managed_new
        intro!: served_setDatasphere split: sum.splits)
next
  case (AddServiceInfo info)
  with assms show ?thesis
    by (auto simp: addService_def obind_Ok_iff intro: served_update [OF _ _ dmAddService_managed]
        split: outcome.splits)
next
  case (AddVolumeInfo info)
  with assms show ?thesis
    by (auto simp: addVolume_def obind_Ok_iff intro: served_update [OF _ _ dmAddVolume_managed]
        split: outcome.splits)
next
  case (ListServices i)
  with assms show ?thesis by (cases "listServices i cf") auto
next
  case (ListVolumes i)
  with assms show ?thesis by (cases "listVolumes i cf") auto
next
  case (ListVolumeRings i)
  with assms show ?thesis by (cases "listVolumeRings i cf") auto
qed

lemma apiCalls_served:
  "apiCalls f C reqs cf = Ok cf' \<Longrightarrow> served f C cf \<Longrightarrow> served f C cf'"
proof (induction f C reqs cf rule: apiCalls.induct)
  case (2 f C create req reqs cf)
  then show ?case by (auto simp: obind_Ok_iff dest: apiCall_served)
qed simp

lemma served_new: "served f C ConfigService_new"
  by (simp add: served_def ConfigService_new_def)

lemma served_run:
  assumes "apiCalls f C reqs (fst (ConfigService_init entry ConfigService_new)) = Ok cf"
  shows "served f C cf"
proof -
  have "cf_datasphereTable (fst (ConfigService_init entry ConfigService_new)) = []"
    by (auto simp: ConfigService_init_def ConfigService_new_def Let_def split: sum.splits)
  then have "served f C (fst (ConfigService_init entry ConfigService_new))" by (simp add: served_def)
  with assms show ?thesis by (rule apiCalls_served)
qed

lemma config_step_replicaFactor:
  "config_step f C s t \<Longrightarrow> cm_replicaFactor (cs_mgr t) = cm_replicaFactor (cs_mgr s)"
  by (auto elim!: config_stepE addResource_cases ringCreated_cases resourceCreated_cases
      simp: mgrAddService_def Let_def split: if_splits)

lemma serial_steps_config_steps:
  "(serial_step f C)\<^sup>*\<^sup>* s t \<Longrightarrow> (config_step f C)\<^sup>*\<^sup>* s t"
  by (rule rtranclp_mono [THEN predicate2D]) (auto simp: serial_step_def)

lemma config_steps_replicaFactor:
  "(config_step f C)\<^sup>*\<^sup>* s t \<Longrightarrow> cm_replicaFactor (cs_mgr t) = cm_replicaFactor (cs_mgr s)"
  by (induction rule: rtranclp_induct) (simp_all add: config_step_replicaFactor)

lemma managed_facts:
  assumes "managed f C i cm"
  shows "distinct (map vi_id (getResources cm))" and "distinct (map vi_name (getResources cm))"
    and "distinct (map ri_id (getRings cm))" and "\<forall>r \<in> set (getRings cm). length (ri_memberIds r) = 3"
proof -
  obtain s where run: "(serial_step f C)\<^sup>*\<^sup>* (mgr_start i) s"
    and q: "cs_mgr s = cm" "cs_outRings s = []" "cs_outResources s = []"
    using assms by (auto simp: managed_def quiet_at_def)
  note steps = serial_steps_config_steps [OF run]
  have inv: "config_inv s" by (rule configI.reachable_inv [OF mgr_start_init steps])
  have "names_inv s" by (rule serialI.reachable_inv [OF mgr_start_init run])
  then show "distinct (map vi_name (getResources cm))" by (simp add: names_inv_def q)
  have rf: "cm_replicaFactor cm = 3"
    using config_steps_replicaFactor [OF steps] by (simp add: q mgr_start_def ConfigMgr_new_def)
  have "map vi_id (getResources cm) = map fst (cm_resources cm)"
    using inv by (auto simp: config_inv_def resources_inv_def getResources_def q)
  with inv show "distinct (map vi_id (getResources cm))"
    by (simp add: config_inv_def resources_inv_def q)
  have "map ri_id (getRings cm) = map fst (cm_rings cm)"
    using inv by (auto simp: config_inv_def ring_table_inv_def getRings_def q)
  with inv show "distinct (map ri_id (getRings cm))"
    by (simp add: config_inv_def ring_table_inv_def q)
  show "\<forall>r \<in> set (getRings cm). length (ri_memberIds r) = 3"
    using inv rf by (auto simp: config_inv_def ring_table_inv_def rings_inv_def getRings_def q)
qed

text \<open>
  The blocking configuration service refines the event-driven manager: whatever requests are
  served one after the other since start-up, and whatever the coordination service answers to each
  of them, the manager of every data sphere is in a state that the interleaved manager can reach
  from an empty one with replica factor three, with no creation of a node left outstanding, and the
  data sphere is stored under its own id.
\<close>

theorem config_api_refines_manager:
  assumes "apiCalls f C reqs (fst (ConfigService_init entry ConfigService_new)) = Ok cf"
    and "getDatasphereOrThrow i cf = Ok dm"
  shows "ds_id (dm_info dm) = i \<and>
    (\<exists>s. (config_step f C)\<^sup>*\<^sup>* (mgr_start i) s \<and> cs_mgr s = dm_volumes dm \<and>
       cs_outRings s = [] \<and> cs_outResources s = [])"
  using servedD [OF served_run [OF assms(1)] assms(2)]
  by (auto simp: managed_def quiet_at_def intro: serial_steps_config_steps)

definition sample_requests :: "(creator \<times> api_request) list" where
  "sample_requests = map (\<lambda>r. (\<lambda>p s. Inr s, r))
     [AddDatasphere \<lparr>ds_id = ''d''\<rparr>, AddServiceInfo (sample_service ''a''),
      AddServiceInfo (sample_service ''b''), AddServiceInfo (sample_service ''c''),
      ListVolumeRings ''d'', AddVolumeInfo (sample_volume ''v''), AddVolumeInfo (sample_volume ''v'')]"

lemmas config_eval = ConfigService_init_def ConfigService_new_def addDataSphere_def addService_def
  addVolume_def setDatasphere_def getDatasphereOrThrow_def DatasphereConfigMgr_init_def ConfigMgr_new_def
  dmAddService_def dmAddVolume_def mgrAddService_def addRing_def ringCreated_def addResource_def
  duplicateName_def resourceCreated_def as_u64_def narrow32_def answered_def getVolumes_def
  getVolumeRings_def getResources_def getRings_def listVolumes_def listVolumeRings_def

definition sample_final :: ConfigService where
  "sample_final = (case apiCalls folly_dec sample_codec sample_requests
       (fst (ConfigService_init (Inr []) ConfigService_new)) of Ok cf \<Rightarrow> cf | _ \<Rightarrow> ConfigService_new)"

lemma sample_requests_run:
  "apiCalls folly_dec sample_codec sample_requests
     (fst (ConfigService_init (Inr []) ConfigService_new)) = Ok sample_final"
  "listVolumes ''d'' sample_final = Ok [volume_of 0]"
  "listVolumeRings ''d'' sample_final = Ok [\<lparr>ri_id = 0, ri_memberIds = [''a'', ''b'', ''c'']\<rparr>]"
  by (simp_all add: sample_final_def sample_requests_def config_eval Let_def sample_service_def
      sample_volume_def volume_of_def)

theorem config_api_refines_manager_witness:
  "\<exists>dm. getDatasphereOrThrow ''d'' sample_final = Ok dm \<and>
     (\<exists>s. (config_step folly_dec sample_codec)\<^sup>*\<^sup>* (mgr_start ''d'') s \<and> cs_mgr s = dm_volumes dm \<and>
        getResources (cs_mgr s) = [volume_of 0])"
proof -
  obtain dm where dm: "getDatasphereOrThrow ''d'' sample_final = Ok dm" "getVolumes dm = [volume_of 0]"
    using sample_requests_run(2) by (auto simp: listVolumes_def obind_Ok_iff)
  from config_api_refines_manager [OF sample_requests_run(1) dm(1)] dm show ?thesis
    by (auto simp: getVolumes_def)
qed

text \<open>
  C18. What a client lists is consistent: after any sequence of requests, with any answers of the
  coordination service, the volumes of a data sphere have pairwise different ids and pairwise
  different names, and its rings have pairwise different ids and exactly three members each.
\<close>

theorem listings_consistent:
  assumes "apiCalls f C reqs (fst (ConfigService_init entry ConfigService_new)) = Ok cf"
    and "listVolumes i cf = Ok vs" and "listVolumeRings i cf = Ok rs"
  shows "distinct (map vi_id vs) \<and> distinct (map vi_name vs) \<and> distinct (map ri_id rs) \<and>
    (\<forall>r \<in> set rs. length (ri_memberIds r) = 3)"
proof -
  obtain dm where dm: "getDatasphereOrThrow i cf = Ok dm" and vs: "vs = getResources (dm_volumes dm)"
    and rs: "rs = getRings (dm_volumes dm)"
    using assms(2,3) by (auto simp: listVolumes_def listVolumeRings_def getVolumes_def
        getVolumeRings_def obind_Ok_iff)
  have "managed f C i (dm_volumes dm)" using servedD [OF served_run [OF assms(1)] dm] by blast
  from managed_facts [OF this] show ?thesis by (simp add: vs rs)
qed

theorem listings_consistent_witness:
  "distinct (map vi_name [volume_of 0]) \<and> length (ri_memberIds \<lparr>ri_id = 0, ri_memberIds = [''a'', ''b'', ''c'']\<rparr>) = 3"
  using listings_consistent [OF sample_requests_run] by simp

text \<open>
  Requests that only list, and requests for a data sphere that is not there, change nothing.
\<close>

lemma apiCall_listing_pure:
  "apiCall f C create req cf = Ok (cf', pub, a) \<Longrightarrow>
     req \<in> {ListServices i, ListVolumes i, ListVolumeRings i} \<Longrightarrow> cf' = cf \<and> pub = []"
  by (cases "listServices i cf"; cases "listVolumes i cf"; cases "listVolumeRings i cf") auto

end
