(* ===== verification/Client_Lifecycle.thy ===== *)
theory Client_Lifecycle
  imports Kafka_Client Coordination_Client
begin

section \<open>Starting and destroying the clients: \<open>KafkaClient.cpp\<close>, \<open>ZooKafkaClient.cpp\<close>\<close>

text \<open>
  What \<open>KafkaClient\<close> and \<open>ZooKafkaClient\<close> own and when: \<open>init\<close> makes the library's objects one
  after the other and may fail in between, the destructor releases what is there. The results of
  the library's calls are arguments (\<open>kafka_library\<close>; the handles of \<open>Coordination_Client\<close>'s
  \<open>zkc_init\<close>). A pointer is the flag that it is not null; a failed \<open>CHECK\<close> is \<open>Abort\<close>.
  The theory also holds the loop of the consumer thread, the watch contexts and the names of
  events in the log.
\<close>

subsection \<open>\<open>KafkaClient\<close>\<close>

record kafka_library =
  kl_producer :: "string \<Rightarrow> bool"
  kl_setGroup :: "string \<Rightarrow> bool"
  kl_setRebalance :: bool
  kl_consumer :: "string \<Rightarrow> string \<Rightarrow> bool"

record KafkaObjects =
  ko_brokers :: string
  ko_groupId :: string
  ko_eventCb :: bool
  ko_producer :: bool
  ko_rebalanceCb :: bool
  ko_consumer :: bool
  ko_consumeThread :: bool

definition KafkaObjects_new :: "string \<Rightarrow> string \<Rightarrow> KafkaObjects" where
  "KafkaObjects_new brokers gid =
     \<lparr>ko_brokers = brokers, ko_groupId = gid, ko_eventCb = False, ko_producer = False,
      ko_rebalanceCb = False, ko_consumer = False, ko_consumeThread = False\<rparr>"

definition kafka_init :: "kafka_library \<Rightarrow> KafkaObjects \<Rightarrow> (KafkaObjects \<times> exn option) outcome" where
  "kafka_init L k =
     (let k1 = k\<lparr>ko_eventCb := True\<rparr>
      in if \<not> kl_producer L (ko_brokers k1) then Ok (k1, Some OtherException)
      else let k2 = k1\<lparr>ko_producer := True\<rparr>
      in if \<not> kl_setGroup L (ko_groupId k2) then Abort
      else let k3 = k2\<lparr>ko_rebalanceCb := True\<rparr>
      in if \<not> kl_setRebalance L then Abort
      else if \<not> kl_consumer L (ko_brokers k3) (ko_groupId k3) then Ok (k3, Some OtherException)
      else Ok (k3\<lparr>ko_consumer := True, ko_consumeThread := True\<rparr>, None))"

datatype kafka_release =
    ThreadJoined | ProducerDeleted | ConsumerClosed | ConsumerDeleted
  | EventCbDeleted | RebalanceCbDeleted | WaitDestroyed

definition kafka_destroy :: "KafkaObjects \<Rightarrow> kafka_release list" where
  "kafka_destroy k =
     (if ko_consumeThread k then [ThreadJoined] else []) @
     (if ko_producer k then [ProducerDeleted] else []) @
     (if ko_consumer k then [ConsumerClosed, ConsumerDeleted] else []) @
     (if ko_eventCb k then [EventCbDeleted] else []) @
     (if ko_rebalanceCb k then [RebalanceCbDeleted] else []) @
     [WaitDestroyed]"

text \<open>
  The loop of the consumer thread: each round reads \<open>aborted_\<close>, which the destructor sets, and
  consumes one message; the result is the callbacks run.
\<close>

fun consumeLoop :: "(bool \<times> kafka_message) list \<Rightarrow> ('t, 'cb) KafkaClient \<Rightarrow> ('cb \<times> int \<times> string) list" where
  "consumeLoop [] kc = []"
| "consumeLoop ((aborted, msg) # rounds) kc =
     (if aborted then []
      else (case consumeMessage msg kc of None \<Rightarrow> [] | Some run \<Rightarrow> [run]) @ consumeLoop rounds kc)"

text \<open>
  Events of the library: \<open>event_cb\<close> forwards them to \<open>eventCallback\<close>, which logs a line and a
  severity. \<open>err2str\<close> is the library's.
\<close>

datatype kafka_event =
    EventError int string
  | EventStats string
  | EventLog int string string
  | EventThrottle int string int
  | EventOther int int string

datatype log_severity = LogInfo | LogWarning

fun eventCallback :: "(int \<Rightarrow> string) \<Rightarrow> kafka_event \<Rightarrow> log_severity \<times> string" where
  "eventCallback err2str (EventError err str) =
     (LogWarning, ''ERROR ('' @ err2str err @ ''): '' @ str @ [CHR 0x0A])"
| "eventCallback err2str (EventStats str) =
     (LogInfo, [CHR 0x22] @ ''STATS'' @ [CHR 0x22] @ '': '' @ str @ [CHR 0x0A])"
| "eventCallback err2str (EventLog severity fac str) =
     (LogInfo, ''EVENT_LOG:'' @ dec_of_int severity @ ''-'' @ fac @ ''-'' @ str)"
| "eventCallback err2str (EventThrottle time broker brokerId) =
     (LogInfo, ''THROTTLED: '' @ dec_of_int time @ ''ms by '' @ broker @ '' id '' @ dec_of_int brokerId @
       [CHR 0x0A])"
| "eventCallback err2str (EventOther type err str) =
     (LogInfo, ''EVENT '' @ dec_of_int type @ '' ('' @ err2str err @ ''): '' @ str @ [CHR 0x0A])"

subsection \<open>\<open>ZooKafkaClient\<close>\<close>

record ZooKafkaClient =
  zc_servers :: string
  zc_kafkaClient :: "KafkaObjects option"
  zc_zh :: bool

datatype client_event = HandleOpened | HandleClosed | KafkaReleased kafka_release

definition ZooKafkaClient_new :: "string \<Rightarrow> string \<Rightarrow> ZooKafkaClient" where
  "ZooKafkaClient_new servers consumerGroupId =
     \<lparr>zc_servers = servers,
      zc_kafkaClient = (if consumerGroupId \<noteq> [] then Some (KafkaObjects_new ''localhost'' consumerGroupId)
                        else None),
      zc_zh = False\<rparr>"

text \<open>
  \<open>init\<close>: \<open>zkc_init\<close> gives the number of handles opened and closed again before one connects.
  The last component is the exception that leaves \<open>init\<close>; None as a result: still trying.
\<close>

definition ZooKafkaClient_init ::
  "kafka_library \<Rightarrow> ((nat \<Rightarrow> int) \<times> int) option list \<Rightarrow> ZooKafkaClient \<Rightarrow>
    (ZooKafkaClient \<times> client_event list \<times> exn option) outcome option" where
  "ZooKafkaClient_init L attempts c =
     (case zkc_init attempts 0 of
        None \<Rightarrow> None
      | Some Abort \<Rightarrow> Some Abort
      | Some (Throw e) \<Rightarrow> Some (Throw e)
      | Some (Ok tries) \<Rightarrow>
          let c1 = c\<lparr>zc_zh := True\<rparr>;
              events = concat (replicate tries [HandleOpened, HandleClosed]) @ [HandleOpened]
          in case zc_kafkaClient c1 of
               None \<Rightarrow> Some (Ok (c1, events, None))
             | Some k \<Rightarrow>
                 Some (obind (kafka_init L k) (\<lambda>(k1, e). Ok (c1\<lparr>zc_kafkaClient := Some k1\<rparr>, events, e))))"

text \<open>The destructor's body, then that of the member \<open>kafkaClient_\<close>.\<close>

definition ZooKafkaClient_destroy :: "ZooKafkaClient \<Rightarrow> client_event list" where
  "ZooKafkaClient_destroy c =
     (if zc_zh c then [HandleClosed] else []) @
     (case zc_kafkaClient c of None \<Rightarrow> [] | Some k \<Rightarrow> map KafkaReleased (kafka_destroy k))"

text \<open>Topics are forwarded to the Kafka client without a test that there is one.\<close>

definition zkc_publishMessage ::
  "(string \<Rightarrow> 't option) \<Rightarrow> ('t \<Rightarrow> string \<Rightarrow> bool) \<Rightarrow> string \<Rightarrow> string \<Rightarrow> ('t, 'cb) KafkaClient option \<Rightarrow>
    (('t, 'cb) KafkaClient \<times> status \<times> ('t \<times> string) list) outcome" where
  "zkc_publishMessage newTopic produce topic message kc =
     (case kc of None \<Rightarrow> Abort | Some k \<Rightarrow> Ok (publishMessage newTopic produce topic message k))"

definition zkc_subscribeToTopic ::
  "(string list \<Rightarrow> bool) \<Rightarrow> string \<Rightarrow> 'cb \<Rightarrow> ('t, 'cb) KafkaClient option \<Rightarrow>
    (('t, 'cb) KafkaClient \<times> status) outcome" where
  "zkc_subscribeToTopic fails topic cb kc =
     (case kc of None \<Rightarrow> Abort | Some k \<Rightarrow> Ok (subscribeToTopic fails topic cb k))"

subsection \<open>Watches\<close>

text \<open>
  A watch context lives until \<open>watcherFn\<close> has run its callback once; None is a context that has
  been freed. \<open>watchEvents\<close> delivers the paths of successive events to one registered watch.
\<close>

definition watcherFn :: "'cb option \<Rightarrow> string \<Rightarrow> ('cb option \<times> 'cb \<times> string) outcome" where
  "watcherFn ctx path = (case ctx of None \<Rightarrow> Abort | Some cb \<Rightarrow> Ok (None, cb, path))"

fun watchEvents :: "'cb option \<Rightarrow> string list \<Rightarrow> ('cb \<times> string) list outcome" where
  "watchEvents ctx [] = Ok []"
| "watchEvents ctx (path # paths) =
     obind (watcherFn ctx path) (\<lambda>(ctx1, run).
     obind (watchEvents ctx1 paths) (\<lambda>runs. Ok (run # runs)))"

definition typeToStr :: "int \<Rightarrow> string" where
  "typeToStr type =
     (if type = ZOO_CREATED_EVENT then ''CREATED_EVENT''
      else if type = ZOO_DELETED_EVENT then ''DELETED_EVENT''
      else if type = ZOO_CHANGED_EVENT then ''CHANGED_EVENT''
      else if type = ZOO_CHILD_EVENT then ''CHILD_EVENT''
      else if type = ZOO_SESSION_EVENT then ''SESSION_EVENT''
      else if type = ZOO_NOTWATCHING_EVENT then ''NOTWATCHING_EVENT''
      else ''UNKNOWN_EVENT_TYPE'')"

definition stateToStr :: "int \<Rightarrow> string" where
  "stateToStr state =
     (if state = 0 then ''CLOSED_STATE''
      else if state = ZOO_CONNECTING_STATE then ''CONNECTING_STATE''
      else if state = ZOO_ASSOCIATING_STATE then ''ASSOCIATING_STATE''
      else if state = ZOO_CONNECTED_STATE then ''CONNECTED_STATE''
      else if state = ZOO_EXPIRED_SESSION_STATE then ''EXPIRED_SESSION_STATE''
      else if state = ZOO_AUTH_FAILED_STATE then ''AUTH_FAILED_STATE''
      else ''INVALID_STATE'')"

text \<open>The line the global watcher logs.\<close>

definition watcherLog :: "int \<Rightarrow> int \<Rightarrow> string \<Rightarrow> string" where
  "watcherLog type state path =
     ''Zookeeper watcher cb type:'' @ typeToStr type @ '' state:'' @ stateToStr state @
     '' path:'' @ path"

subsection \<open>Properties\<close>

lemma count_replicate_pair:
  "count_list (concat (replicate n [a, b])) x = n * count_list [a, b] x"
  by (induction n) auto

lemma count_list_map_KafkaReleased:
  "count_list (map KafkaReleased rs) HandleOpened = 0" "count_list (map KafkaReleased rs) HandleClosed = 0"
  by (induction rs) auto

lemma consumeLoop_map_filter:
  "consumeLoop rounds kc =
     List.map_filter (\<lambda>r. consumeMessage (snd r) kc) (takeWhile (\<lambda>r. \<not> fst r) rounds)"
  by (induction rounds kc rule: consumeLoop.induct) (auto simp: map_filter_simps split: option.splits)

text \<open>Every object made is released, the thread before anything it uses.\<close>

lemma kafka_destroy_order:
  "kafka_init L (KafkaObjects_new brokers gid) = Ok (k, e) \<Longrightarrow>
     kafka_destroy k =
       (if e = None then [ThreadJoined, ProducerDeleted, ConsumerClosed, ConsumerDeleted, EventCbDeleted,
          RebalanceCbDeleted, WaitDestroyed]
        else if ko_producer k then [ProducerDeleted, EventCbDeleted, RebalanceCbDeleted, WaitDestroyed]
        else [EventCbDeleted, WaitDestroyed])"
  by (auto simp: kafka_init_def KafkaObjects_new_def kafka_destroy_def Let_def split: if_splits)

lemma zkc_init_Ok_ge: "zkc_init attempts n = Some (Ok tries) \<Longrightarrow> n \<le> tries \<and> tries < n + length attempts"
  by (induction attempts n rule: zkc_init.induct) (fastforce split: option.splits prod.splits outcome.splits)+

text \<open>
  Nothing leaks: however many connection attempts fail before one succeeds, and wherever the
  start of the Kafka client fails, every ZooKeeper handle that was opened has been closed exactly
  once when the client is destroyed, a close never comes before its open, and if \<open>init\<close> succeeded
  the consumer thread is joined before the producer and the consumer are deleted.
\<close>

theorem client_releases_handles:
  assumes "ZooKafkaClient_init L attempts (ZooKafkaClient_new servers gid) = Some (Ok (c, evs, e))"
  shows "(\<exists>n < length attempts. evs @ ZooKafkaClient_destroy c =
      concat (replicate n [HandleOpened, HandleClosed]) @ [HandleOpened, HandleClosed] @
      (case zc_kafkaClient c of None \<Rightarrow> [] | Some k \<Rightarrow> map KafkaReleased (kafka_destroy k))) \<and>
    count_list (evs @ ZooKafkaClient_destroy c) HandleOpened =
      count_list (evs @ ZooKafkaClient_destroy c) HandleClosed \<and>
    (e = None \<and> gid \<noteq> [] \<longrightarrow> (\<exists>k. zc_kafkaClient c = Some k \<and>
      kafka_destroy k = [ThreadJoined, ProducerDeleted, ConsumerClosed, ConsumerDeleted,
        EventCbDeleted, RebalanceCbDeleted, WaitDestroyed]))"
proof -
  obtain n where n: "zkc_init attempts 0 = Some (Ok n)" "n < length attempts"
    and evs: "evs = concat (replicate n [HandleOpened, HandleClosed]) @ [HandleOpened]" and zh: "zc_zh c"
    and k: "gid \<noteq> [] \<Longrightarrow> \<exists>k. zc_kafkaClient c = Some k \<and>
      kafka_init L (KafkaObjects_new ''localhost'' gid) = Ok (k, e)"
    using assms zkc_init_Ok_ge [of attempts 0]
    by (fastforce simp: ZooKafkaClient_init_def ZooKafkaClient_new_def Let_def obind_Ok_iff
        split: option.splits outcome.splits if_splits)
  have all: "evs @ ZooKafkaClient_destroy c =
      concat (replicate n [HandleOpened, HandleClosed]) @ [HandleOpened, HandleClosed] @
      (case zc_kafkaClient c of None \<Rightarrow> [] | Some k \<Rightarrow> map KafkaReleased (kafka_destroy k))"
    by (simp add: ZooKafkaClient_destroy_def evs zh)
  moreover from all have "count_list (evs @ ZooKafkaClient_destroy c) HandleOpened =
      count_list (evs @ ZooKafkaClient_destroy c) HandleClosed"
    by (simp add: count_replicate_pair count_list_map_KafkaReleased split: option.split)
  moreover have "e = None \<and> gid \<noteq> [] \<longrightarrow> (\<exists>k. zc_kafkaClient c = Some k \<and>
      kafka_destroy k = [ThreadJoined, ProducerDeleted, ConsumerClosed, ConsumerDeleted,
        EventCbDeleted, RebalanceCbDeleted, WaitDestroyed])"
    using k kafka_destroy_order by fastforce
  ultimately show ?thesis using n(2) by blast
qed

theorem client_releases_handles_witness:
  "\<exists>c evs. ZooKafkaClient_init \<lparr>kl_producer = (\<lambda>_. True), kl_setGroup = (\<lambda>_. True),
       kl_setRebalance = True, kl_consumer = (\<lambda>_ _. True)\<rparr>
       [Some (\<lambda>_. 0, 0), Some (\<lambda>_. 3, 3)] (ZooKafkaClient_new ''zk'' ''g'') = Some (Ok (c, evs, None)) \<and>
     evs = [HandleOpened, HandleClosed, HandleOpened] \<and>
     count_list (evs @ ZooKafkaClient_destroy c) HandleOpened =
       count_list (evs @ ZooKafkaClient_destroy c) HandleClosed"
proof -
  let ?L = "\<lparr>kl_producer = (\<lambda>_. True), kl_setGroup = (\<lambda>_. True), kl_setRebalance = True,
    kl_consumer = (\<lambda>_ _. True)\<rparr>"
  obtain c evs where r: "ZooKafkaClient_init ?L [Some (\<lambda>_. 0, 0), Some (\<lambda>_. 3, 3)]
      (ZooKafkaClient_new ''zk'' ''g'') = Some (Ok (c, evs, None))"
    and evs: "evs = [HandleOpened, HandleClosed, HandleOpened]"
    by (auto simp: ZooKafkaClient_init_def ZooKafkaClient_new_def blockUntilConnectedOrTimedOut_def
        ZOO_CONNECTED_STATE_def kafka_init_def KafkaObjects_new_def Let_def)
  from client_releases_handles [OF r] r evs show ?thesis by blast
qed

text \<open>
  A watch can take one event only: the first event of any kind frees its context, and a second
  event delivered to the same watch is undefined behaviour. (ZooKeeper documents that a change of
  the session's state is delivered to every watch and leaves it registered.)
\<close>

theorem watch_context_single_use:
  "watchEvents (Some cb) [path] = Ok [(cb, path)] \<and>
   watchEvents (Some cb) (path # path' # paths) = Abort"
  by (simp add: watcherFn_def)

end
