(* ===== verification/Group_Cluster.thy ===== *)
theory Group_Cluster
  imports Replica_Machine
begin

section \<open>A group of replicas, the coordination service and the network\<close>

text \<open>
  The members of one group running together. Each member is the \<open>VolumeReplica\<close> of the other
  theories; an action lets one thing happen: a call reaches the coordination service, an answer
  is handled on a member's event base, a message of an election arrives, a peer applies a write,
  a process stops. Every action of a member runs the definition of the code that handles it.

  Not code of the repository, and modelled by its documented behaviour: ZooKeeper executes the
  calls of one session in their order and answers in that order; creating a node that exists
  fails; a sequential node gets the next number of its parent as suffix; every set raises the
  version; an ephemeral node goes when its session ends. A session ends some time after its
  process has stopped; that it may also end while the process runs (a member cut off from the
  service for longer than the session timeout) is the flag \<open>e_expiry\<close> of the environment.
  Messages between members may be lost or overtake each other. A watch may fire at any time.

  The messages are those that the code of the repository sends. \<open>GroupInfoUpdateMsg\<close> is sent nowhere
  (\<open>handleGroupInfoUpdateMsg\<close> is only registered), and the code asks to be added to the group and pulls
  journal entries only in \<open>runSyncProtocol\<close>, which only \<open>handleGroupInfoUpdateMsg\<close> calls. So the
  three messages have no action here; \<open>no_handler_syncs\<close> shows that no handler an action runs calls
  \<open>runSyncProtocol\<close>, so that dropping this effect drops nothing. What these handlers do with a
  message from elsewhere is in \<open>Replica_Machine\<close> and \<open>Volume_Sync\<close>.
\<close>

subsection \<open>The state\<close>

type_synonym session = "string \<times> nat"   \<comment> \<open>the member and the number of its process\<close>

datatype coord_answer =
    TextAnswer "exn + string"
  | VersionAnswer "exn + int"
  | ChildrenAnswer "exn + string list"
  | UnitAnswer "exn + unit"

record ballot =
  bt_members :: "string list"
  bt_msg :: GetMemberStateMsg
  bt_tries :: "(string \<times> (exn + GetMemberStateRespMsg)) list"

record 'db node =
  n_up :: bool
  n_incarnation :: nat
  n_replica :: "'db VolumeReplica"
  n_answers :: "(pb_cont \<times> coord_answer) list"   \<comment> \<open>answered, not handled yet\<close>
  n_ballots :: "ballot list"
  n_timers :: nat

text \<open>
  A write a leader has sent to its peers. What the leader appended to its journal and the
  processes whose success it has counted are kept for the statements only.
\<close>

record open_write =
  ow_leader :: session
  ow_record :: JournalRecord
  ow_ctx :: WriteCtx
  ow_todo :: "(PeerInfo \<times> KVBuffer) list"              \<comment> \<open>requests on the way\<close>
  ow_answers :: "(session \<times> PeerInfo \<times> (exn + KVBuffer)) list"   \<comment> \<open>answers on the way\<close>
  ow_acked :: "session list"

record 'db cluster =
  c_node :: "string \<Rightarrow> 'db node"
  c_calls :: "session \<Rightarrow> (coord_call \<times> pb_cont) list"   \<comment> \<open>sent, not executed yet\<close>
  c_mail :: "(string \<times> BecomeLeaderMsg) list"
  c_writes :: "open_write list"
  z_nodes :: "(string \<times> string \<times> session) list"   \<comment> \<open>path, value and owner of each ephemeral node\<close>
  z_ended :: "session \<Rightarrow> bool"
  z_sequence :: nat
  z_version :: int

text \<open>What the members share and what is not code of the repository.\<close>

record 'db env =
  e_rocksdb :: "'db rocksdb"
  e_folly :: folly_ops
  e_parse :: "bytes \<Rightarrow> UpdateBlobMetaMsg option"
  e_ser :: "UpdateBlobMetaMsg \<Rightarrow> bytes"
  e_serResp :: "unit \<Rightarrow> bytes"
  e_suffix :: "nat \<Rightarrow> string"     \<comment> \<open>the suffix of a sequential node\<close>
  e_resource :: int
  e_group :: string
  e_members :: "string list"
  e_quorum :: "32 word"
  e_expiry :: bool

definition session_of :: "string \<Rightarrow> 'db cluster \<Rightarrow> session" where
  "session_of i c = (i, n_incarnation (c_node c i))"

definition live :: "session \<Rightarrow> 'db cluster \<Rightarrow> bool" where
  "live s c \<longleftrightarrow> n_up (c_node c (fst s)) \<and> s = session_of (fst s) c"

definition up :: "string \<Rightarrow> 'db cluster \<Rightarrow> bool" where
  "up i c \<longleftrightarrow> n_up (c_node c i)"

lemma live_up: "live s c \<Longrightarrow> up (fst s) c"
  by (simp add: live_def up_def)

definition member :: "string \<Rightarrow> 'db cluster \<Rightarrow> 'db VolumeReplica" where
  "member i c = n_replica (c_node c i)"

definition on_node :: "string \<Rightarrow> ('db node \<Rightarrow> 'db node) \<Rightarrow> 'db cluster \<Rightarrow> 'db cluster" where
  "on_node i f c = c\<lparr>c_node := (c_node c)(i := f (c_node c i))\<rparr>"

subsection \<open>The coordination service\<close>

definition group_lock :: "'db env \<Rightarrow> string" where
  "group_lock E = e_group E @ ''/'' @ PB_LOCK_KEY"

text \<open>The lock of the group: its type and the session that holds it.\<close>

definition lock :: "'db env \<Rightarrow> 'db cluster \<Rightarrow> (string \<times> session) option" where
  "lock E c = map_of (z_nodes c) (group_lock E)"

definition z_create :: "string \<Rightarrow> string \<Rightarrow> session \<Rightarrow> 'db cluster \<Rightarrow> 'db cluster \<times> coord_answer" where
  "z_create path v s c =
     (if map_of (z_nodes c) path \<noteq> None
      then (c, TextAnswer (Inl (StatusException STATUS_DUPLICATE_KEY)))
      else (c\<lparr>z_nodes := (path, v, s) # z_nodes c\<rparr>, TextAnswer (Inr path)))"

definition z_children :: "string \<Rightarrow> 'db cluster \<Rightarrow> string list" where
  "z_children key c =
     List.map_filter (\<lambda>(p, v, s). if take (length key + 1) p = key @ ''/''
                               then Some (drop (length key + 1) p) else None) (z_nodes c)"

fun z_execute :: "'db env \<Rightarrow> session \<Rightarrow> coord_call \<Rightarrow> 'db cluster \<Rightarrow> 'db cluster \<times> coord_answer" where
  "z_execute E s (GetChildren key w) c = (c, ChildrenAnswer (Inr (z_children key c)))"
| "z_execute E s (CreateEphemeral path v sequential) c =
     (if sequential
      then z_create (path @ e_suffix E (z_sequence c)) v s (c\<lparr>z_sequence := z_sequence c + 1\<rparr>)
      else z_create path v s c)"
| "z_execute E s (SetKey key v ver) c =
     (if key = e_group E
      then (c\<lparr>z_version := z_version c + 1\<rparr>, VersionAnswer (Inr (z_version c + 1)))
      else (c, VersionAnswer (Inl (StatusException STATUS_INVALID_KEY))))"
| "z_execute E s (DelKey path ver) c =
     (if map_of (z_nodes c) path = None
      then (c, UnitAnswer (Inl (StatusException STATUS_INVALID_KEY)))
      else (c\<lparr>z_nodes := filter (\<lambda>n. fst n \<noteq> path) (z_nodes c)\<rparr>, UnitAnswer (Inr ())))"

text \<open>The same call answered with an error.\<close>

fun z_failure :: "coord_call \<Rightarrow> coord_answer" where
  "z_failure (GetChildren key w) = ChildrenAnswer (Inl (StatusException STATUS_INVALID))"
| "z_failure (CreateEphemeral path v sequential) = TextAnswer (Inl (StatusException STATUS_INVALID))"
| "z_failure (SetKey key v ver) = VersionAnswer (Inl (StatusException STATUS_INVALID))"
| "z_failure (DelKey path ver) = UnitAnswer (Inl (StatusException STATUS_INVALID))"

text \<open>The answer travels back while the process that asked still runs.\<close>

definition z_answer :: "session \<Rightarrow> pb_cont \<times> coord_answer \<Rightarrow> 'db cluster \<Rightarrow> 'db cluster" where
  "z_answer s a c =
     (if live s c then on_node (fst s) (\<lambda>n. n\<lparr>n_answers := n_answers n @ [a]\<rparr>) c else c)"

text \<open>When a session ends its nodes go; every later call of it fails.\<close>

definition z_session_ends :: "session \<Rightarrow> 'db cluster \<Rightarrow> 'db cluster" where
  "z_session_ends s c =
     c\<lparr>z_nodes := filter (\<lambda>n. snd (snd n) \<noteq> s) (z_nodes c), z_ended := (z_ended c)(s := True)\<rparr>"

subsection \<open>A member's steps\<close>

text \<open>The calls and messages that leave a member.\<close>

fun issue1 :: "string \<Rightarrow> 'db cluster \<Rightarrow> pb_effect \<Rightarrow> 'db cluster" where
  "issue1 i c (Coord call k) =
     c\<lparr>c_calls := (c_calls c)(session_of i c := c_calls c (session_of i c) @ [(call, k)])\<rparr>"
| "issue1 i c (ElectionRequest ids msg) =
     on_node i (\<lambda>n. n\<lparr>n_ballots := n_ballots n @ [\<lparr>bt_members = ids, bt_msg = msg, bt_tries = []\<rparr>]\<rparr>) c"
| "issue1 i c (BecomeLeaderTo l bl) = c\<lparr>c_mail := c_mail c @ [(l, bl)]\<rparr>"
| "issue1 i c (AfterDelay d key) = on_node i (\<lambda>n. n\<lparr>n_timers := n_timers n + 1\<rparr>) c"
| "issue1 i c RunSync = c"

definition issue :: "string \<Rightarrow> pb_effect list \<Rightarrow> 'db cluster \<Rightarrow> 'db cluster" where
  "issue i effs c = foldl (issue1 i) c effs"

definition put_member :: "string \<Rightarrow> 'db VolumeReplica \<Rightarrow> 'db cluster \<Rightarrow> 'db cluster" where
  "put_member i r c = on_node i (\<lambda>n. n\<lparr>n_replica := r\<rparr>) c"

text \<open>The process of a member stops: what it had in memory is gone, its session stays.\<close>

definition stop_member :: "string \<Rightarrow> 'db cluster \<Rightarrow> 'db cluster" where
  "stop_member i c = on_node i (\<lambda>n. n\<lparr>n_up := False, n_answers := [], n_ballots := [], n_timers := 0\<rparr>) c"

text \<open>
  The end of a handler: an exception ends in its future and changes nothing, a failed \<open>CHECK\<close>
  stops the process.
\<close>

definition settle ::
  "string \<Rightarrow> ('db VolumeReplica \<times> pb_effect list) outcome \<Rightarrow> 'db cluster \<Rightarrow> 'db cluster" where
  "settle i out c =
     (case out of Ok (r, effs) \<Rightarrow> issue i effs (put_member i r c)
      | Throw e \<Rightarrow> c
      | Abort \<Rightarrow> stop_member i c)"

text \<open>
  The code that runs when an answer of the coordination service arrives. The answers have the
  type the call has; the last line is never reached.
\<close>

fun answered ::
  "'db env \<Rightarrow> int \<Rightarrow> pb_cont \<Rightarrow> coord_answer \<Rightarrow> 'db VolumeReplica \<Rightarrow>
    ('db VolumeReplica \<times> pb_effect list) outcome" where
  "answered E now KNone a r = Ok (r, [])"
| "answered E now KMemberRoot (TextAnswer x) r = memberRootDone x r"
| "answered E now KWatch (ChildrenAnswer x) r = watchDone (e_folly E) now x r"
| "answered E now KElectorLock (TextAnswer x) r = electorLockDone x r"
| "answered E now KElectorTerm (VersionAnswer x) r = electorTermDone x r"
| "answered E now KElectorChildren (ChildrenAnswer x) r = electorChildrenDone (e_folly E) x r"
| "answered E now (KRemoveLock fms) (UnitAnswer x) r = removeLockDone fms x r"
| "answered E now (KLeaderLock fms) (TextAnswer x) r = leaderLockDone fms x r"
| "answered E now k a r = Abort"

text \<open>
  A new process of a member: its journal is empty, its database is on disk.
\<close>

definition fresh_member :: "'db env \<Rightarrow> string \<Rightarrow> int \<Rightarrow> int \<Rightarrow> 'db \<Rightarrow> 'db VolumeReplica" where
  "fresh_member E i anyVersion anyOpId db =
     PBMember.extend
       (PBMember_new (e_resource E) (e_group E) (e_members E) i (e_quorum E) anyVersion anyOpId)
       \<lparr>vr_db = db, vr_journal = []\<rparr>"

definition start_member :: "'db env \<Rightarrow> string \<Rightarrow> int \<Rightarrow> int \<Rightarrow> 'db cluster \<Rightarrow> 'db cluster" where
  "start_member E i anyVersion anyOpId c =
     (let (r, effs) = PBMember_init (fresh_member E i anyVersion anyOpId (vr_db (member i c)))
      in issue i effs
           (on_node i (\<lambda>n. \<lparr>n_up = True, n_incarnation = n_incarnation n + 1, n_replica = r,
                            n_answers = [], n_ballots = [], n_timers = 0\<rparr>) c))"

lemma PBMember_init_fresh:
  "PBMember_init (fresh_member E i v p d) =
     (switchState FOLLOWER_WAIT_TO_JOIN_GROUP (fresh_member E i v p d),
      [Coord (GetChildren (e_group E) True) KNone,
       Coord (CreateEphemeral (e_group E @ ''/'' @ i @ '':'') i True) KMemberRoot])"
  by (simp add: PBMember_init_def fresh_member_def PBMember_new_def PBMember.extend_def)

subsection \<open>Elections and writes\<close>

text \<open>
  A member \<open>x\<close> answers the oldest election request of the elector \<open>i\<close>; without an answer the
  request fails. When every member has an answer or a failure, the elector decides.
\<close>

definition add_try :: "string \<Rightarrow> string \<Rightarrow> exn + GetMemberStateRespMsg \<Rightarrow> 'db cluster \<Rightarrow> 'db cluster option" where
  "add_try i x t c =
     (case n_ballots (c_node c i) of
        [] \<Rightarrow> None
      | b # bs \<Rightarrow>
          if up i c \<and> x \<in> set (bt_members b) \<and> map_of (bt_tries b) x = None
          then Some (on_node i (\<lambda>n. n\<lparr>n_ballots := b\<lparr>bt_tries := (x, t) # bt_tries b\<rparr> # bs\<rparr>) c)
          else None)"

definition vote :: "string \<Rightarrow> string \<Rightarrow> 'db cluster \<Rightarrow> 'db cluster option" where
  "vote i x c =
     (case n_ballots (c_node c i) of
        [] \<Rightarrow> None
      | b # bs \<Rightarrow>
          if up x c
          then (case handleGetMemberStateMsg (bt_msg b) (member x c) of
                  Ok resp \<Rightarrow> add_try i x (Inr resp) c
                | Throw e \<Rightarrow> add_try i x (Inl e) c
                | Abort \<Rightarrow> None)
          else None)"

definition count_votes :: "string \<Rightarrow> int \<Rightarrow> 'db cluster \<Rightarrow> 'db cluster option" where
  "count_votes i now c =
     (case n_ballots (c_node c i) of
        [] \<Rightarrow> None
      | b # bs \<Rightarrow>
          if up i c \<and> (\<forall>x \<in> set (bt_members b). map_of (bt_tries b) x \<noteq> None)
          then Some (settle i
                 (Ok (electionDone now (map (\<lambda>x. the (map_of (bt_tries b) x)) (bt_members b)) (member i c)))
                 (on_node i (\<lambda>n. n\<lparr>n_ballots := bs\<rparr>) c))
          else None)"

definition remove_nth :: "nat \<Rightarrow> 'a list \<Rightarrow> 'a list" where
  "remove_nth n xs = take n xs @ drop (n + 1) xs"

text \<open>The message \<open>n\<close> of those on the way reaches its receiver.\<close>

definition receive_mail :: "nat \<Rightarrow> 'db cluster \<Rightarrow> 'db cluster option" where
  "receive_mail n c =
     (if n < length (c_mail c) \<and> up (fst (c_mail c ! n)) c
      then let (l, bl) = c_mail c ! n
           in Some (settle l (handleBecomeLeaderMsg bl (member l c)) (c\<lparr>c_mail := remove_nth n (c_mail c)\<rparr>))
      else None)"

definition client_write :: "'db env \<Rightarrow> string \<Rightarrow> UpdateBlobMetaMsg \<Rightarrow> 'db cluster \<Rightarrow> 'db cluster option" where
  "client_write E i msg c =
     (if up i c
      then Some (case updateBlobMeta (e_rocksdb E) (e_ser E) msg (member i c) of
          Ok (r, Inr (resp, w, sends)) \<Rightarrow>
            (put_member i r c)\<lparr>c_writes := c_writes c @
               [\<lparr>ow_leader = session_of i c, ow_record = last (vr_journal r), ow_ctx = w,
                  ow_todo = sends, ow_answers = [], ow_acked = []\<rparr>]\<rparr>
        | Ok (r, Inl e) \<Rightarrow> put_member i r c
        | Throw e \<Rightarrow> c
        | Abort \<Rightarrow> stop_member i c)
      else None)"

text \<open>The request \<open>n\<close> of the write \<open>k\<close> is answered: by the peer, or by an error.\<close>

definition answer_request :: "nat \<Rightarrow> nat \<Rightarrow> exn + KVBuffer \<Rightarrow> 'db cluster \<Rightarrow> 'db cluster" where
  "answer_request k n res c =
     (let w = c_writes c ! k
      in c\<lparr>c_writes := (c_writes c)[k := w\<lparr>ow_todo := remove_nth n (ow_todo w),
             ow_answers := ow_answers w @
               [(session_of (p_id (fst (ow_todo w ! n))) c, fst (ow_todo w ! n), res)]\<rparr>]\<rparr>)"

definition request_pending :: "nat \<Rightarrow> nat \<Rightarrow> 'db cluster \<Rightarrow> bool" where
  "request_pending k n c \<longleftrightarrow> k < length (c_writes c) \<and> n < length (ow_todo (c_writes c ! k))"

definition peer_write :: "'db env \<Rightarrow> nat \<Rightarrow> nat \<Rightarrow> 'db cluster \<Rightarrow> 'db cluster option" where
  "peer_write E k n c =
     (if request_pending k n c \<and> up (p_id (fst (ow_todo (c_writes c ! k) ! n))) c
      then let (p, kvb) = ow_todo (c_writes c ! k) ! n
           in Some (case handleKVBMessage (writeTable (e_rocksdb E) (e_parse E) (e_serResp E)) kvb
                           (member (p_id p) c) of
                  Ok (r, effs, res) \<Rightarrow> answer_request k n res (settle (p_id p) (Ok (r, effs)) c)
                | Throw e \<Rightarrow> answer_request k n (Inl e) c
                | Abort \<Rightarrow> stop_member (p_id p) c)
      else None)"

definition peer_answer :: "nat \<Rightarrow> 'db cluster \<Rightarrow> 'db cluster option" where
  "peer_answer k c =
     (if k < length (c_writes c) \<and> ow_answers (c_writes c ! k) \<noteq> [] \<and> live (ow_leader (c_writes c ! k)) c
      then let w = c_writes c ! k; i = fst (ow_leader w); (s, p, res) = hd (ow_answers w);
               w1 = w\<lparr>ow_answers := tl (ow_answers w),
                     ow_acked := (if isl res then ow_acked w else ow_acked w @ [s])\<rparr>
           in Some (case writePeerDone p res (ow_ctx w) (member i c) of
                  Ok (ctx, r) \<Rightarrow>
                    (put_member i r c)\<lparr>c_writes := (c_writes c)[k := w1\<lparr>ow_ctx := ctx\<rparr>]\<rparr>
                | Throw e \<Rightarrow> c
                | Abort \<Rightarrow> stop_member i c)
      else None)"

subsection \<open>The actions\<close>

datatype action =
    Starts string int int        \<comment> \<open>a process, with the values of its uninitialised members\<close>
  | WatchFires string
  | TimerFires string
  | Executes session             \<comment> \<open>the service executes the oldest call of a session\<close>
  | Fails session bool           \<comment> \<open>or answers an error, with the call executed or not\<close>
  | Handles string int           \<comment> \<open>a member handles the oldest answer, at a time\<close>
  | Votes string string
  | VoteFails string string
  | Counts string int
  | Receives nat
  | MailLost nat
  | Writes string UpdateBlobMetaMsg
  | PeerWrites nat nat
  | PeerFails nat nat
  | PeerAnswers nat
  | Stops string
  | SessionEnds session

definition handle_answer :: "'db env \<Rightarrow> string \<Rightarrow> int \<Rightarrow> 'db cluster \<Rightarrow> 'db cluster option" where
  "handle_answer E i now c =
     (case n_answers (c_node c i) of
        [] \<Rightarrow> None
      | (k, a) # rest \<Rightarrow>
          if up i c
          then Some (settle i (answered E now k a (member i c)) (on_node i (\<lambda>n. n\<lparr>n_answers := rest\<rparr>) c))
          else None)"

definition execute_call ::
  "'db env \<Rightarrow> session \<Rightarrow> bool \<Rightarrow> bool \<Rightarrow> 'db cluster \<Rightarrow> 'db cluster option" where
  "execute_call E s executed reported c =
     (case c_calls c s of
        [] \<Rightarrow> None
      | (call, k) # rest \<Rightarrow>
          let c0 = c\<lparr>c_calls := (c_calls c)(s := rest)\<rparr>;
              (c1, a) = (if executed \<and> \<not> z_ended c s then z_execute E s call c0 else (c0, z_failure call))
          in Some (z_answer s (k, if reported then a else z_failure call) c1))"

fun cluster_do :: "'db env \<Rightarrow> action \<Rightarrow> 'db cluster \<Rightarrow> 'db cluster option" where
  "cluster_do E (Starts i v p) c = (if up i c \<or> i \<notin> set (e_members E) then None else Some (start_member E i v p c))"
| "cluster_do E (WatchFires i) c = (if up i c then Some (issue i (watchCb (member i c)) c) else None)"
| "cluster_do E (TimerFires i) c =
     (if up i c \<and> 0 < n_timers (c_node c i)
      then Some (issue i (watchCb (member i c)) (on_node i (\<lambda>n. n\<lparr>n_timers := n_timers n - 1\<rparr>) c))
      else None)"
| "cluster_do E (Executes s) c = execute_call E s True True c"
| "cluster_do E (Fails s executed) c = execute_call E s executed False c"
| "cluster_do E (Handles i now) c = handle_answer E i now c"
| "cluster_do E (Votes i x) c = vote i x c"
| "cluster_do E (VoteFails i x) c = add_try i x (Inl OtherException) c"
| "cluster_do E (Counts i now) c = count_votes i now c"
| "cluster_do E (Receives n) c = receive_mail n c"
| "cluster_do E (MailLost n) c =
     (if n < length (c_mail c) then Some (c\<lparr>c_mail := remove_nth n (c_mail c)\<rparr>) else None)"
| "cluster_do E (Writes i msg) c = client_write E i msg c"
| "cluster_do E (PeerWrites k n) c = peer_write E k n c"
| "cluster_do E (PeerFails k n) c =
     (if request_pending k n c then Some (answer_request k n (Inl OtherException) c) else None)"
| "cluster_do E (PeerAnswers k) c = peer_answer k c"
| "cluster_do E (Stops i) c = (if up i c then Some (stop_member i c) else None)"
| "cluster_do E (SessionEnds s) c =
     (if snd s \<le> n_incarnation (c_node c (fst s)) \<and> (\<not> live s c \<or> e_expiry E)
      then Some (z_session_ends s c) else None)"

text \<open>
  What is to be shown of each action so that it holds of every action: \<open>rel\<close> relates the states
  before and after, given \<open>inv\<close> before.
\<close>

locale action_laws =
  fixes E :: "'db env"
    and inv :: "'db cluster \<Rightarrow> bool"
    and rel :: "'db cluster \<Rightarrow> 'db cluster \<Rightarrow> bool"
  assumes starts: "inv c \<Longrightarrow> \<not> up i c \<Longrightarrow> i \<in> set (e_members E) \<Longrightarrow> rel c (start_member E i v p c)"
    and watches: "inv c \<Longrightarrow> up i c \<Longrightarrow> rel c (issue i (watchCb (member i c)) c)"
    and timers: "inv c \<Longrightarrow> up i c \<Longrightarrow>
      rel c (issue i (watchCb (member i c)) (on_node i (\<lambda>n. n\<lparr>n_timers := n_timers n - 1\<rparr>) c))"
    and executes: "inv c \<Longrightarrow> execute_call E s executed reported c = Some c' \<Longrightarrow> rel c c'"
    and handles: "inv c \<Longrightarrow> handle_answer E i now c = Some c' \<Longrightarrow> rel c c'"
    and votes: "inv c \<Longrightarrow> vote i x c = Some c' \<Longrightarrow> rel c c'"
    and vote_fails: "inv c \<Longrightarrow> add_try i x (Inl OtherException) c = Some c' \<Longrightarrow> rel c c'"
    and counts: "inv c \<Longrightarrow> count_votes i now c = Some c' \<Longrightarrow> rel c c'"
    and receives: "inv c \<Longrightarrow> receive_mail n c = Some c' \<Longrightarrow> rel c c'"
    and mail_lost: "inv c \<Longrightarrow> n < length (c_mail c) \<Longrightarrow> rel c (c\<lparr>c_mail := remove_nth n (c_mail c)\<rparr>)"
    and writes: "inv c \<Longrightarrow> client_write E i msg c = Some c' \<Longrightarrow> rel c c'"
    and peer_writes: "inv c \<Longrightarrow> peer_write E k n c = Some c' \<Longrightarrow> rel c c'"
    and peer_fails: "inv c \<Longrightarrow> request_pending k n c \<Longrightarrow> rel c (answer_request k n (Inl OtherException) c)"
    and peer_answers: "inv c \<Longrightarrow> peer_answer k c = Some c' \<Longrightarrow> rel c c'"
    and stops: "inv c \<Longrightarrow> up i c \<Longrightarrow> rel c (stop_member i c)"
    and session_ends: "inv c \<Longrightarrow> snd s \<le> n_incarnation (c_node c (fst s)) \<Longrightarrow>
      \<not> live s c \<or> e_expiry E \<Longrightarrow> rel c (z_session_ends s c)"
begin

lemma every_action: "inv c \<Longrightarrow> cluster_do E a c = Some c' \<Longrightarrow> rel c c'"
  by (cases a) (auto simp del: One_nat_def split: if_split_asm intro: starts watches timers executes
      handles votes vote_fails counts receives mail_lost writes peer_writes peer_fails peer_answers
      stops session_ends)

end

text \<open>None of the handlers that the actions run calls \<open>runSyncProtocol\<close>.\<close>

definition no_sync :: "('a \<times> pb_effect list) outcome \<Rightarrow> bool" where
  "no_sync out \<longleftrightarrow> (case out of Ok (r, effs) \<Rightarrow> RunSync \<notin> set effs | _ \<Rightarrow> True)"

lemma no_sync_simps [simp]:
  "no_sync (Ok (r, effs)) \<longleftrightarrow> RunSync \<notin> set effs" "no_sync (Throw e)" "no_sync Abort"
  by (simp_all add: no_sync_def)

lemma no_sync_obind: "(\<And>x. no_sync (f x)) \<Longrightarrow> no_sync (obind a f)"
  by (cases a) simp_all

lemma election_no_sync: "no_sync (startElectionIfQuorum f children m)"
  unfolding startElectionIfQuorum_def by (rule no_sync_obind) (simp add: issueElectionRequest_def Let_def)

lemma watch_no_sync: "no_sync (handleGroupWatchEvent f now children m)"
  by (auto simp: handleGroupWatchEvent_def election_no_sync acquireLock_def Let_def
      intro!: no_sync_obind split: PBMemberState.split)

lemma orHandleError_no_sync: "no_sync out \<Longrightarrow> no_sync (orHandleError out)"
  by (cases out) (simp_all add: orHandleError_def handleError_def)

lemma answered_no_sync: "no_sync (answered E now k a r)"
  by (cases "(E, now, k, a, r)" rule: answered.cases)
    (auto simp: memberRootDone_def watchDone_def electorLockDone_def electorTermDone_def electorChildrenDone_def
      removeLockDone_def leaderLockDone_def handleError_def increaseTerm_def sendBecomeLeaderMsg_def
      scheduleGroupWatchEvent_def Let_def election_no_sync watch_no_sync
      intro!: orHandleError_no_sync no_sync_obind split: sum.split list.split)

lemma no_handler_syncs:
  "no_sync (Ok (PBMember_init r))" "no_sync (Ok (r, watchCb r))" "no_sync (answered E now k a r)"
  "no_sync (Ok (electionDone now tries r))" "no_sync (handleBecomeLeaderMsg bl r)"
  "handleKVBMessage (writeTable R parse serResp) kvb r = Ok (r', effs, res) \<Longrightarrow> RunSync \<notin> set effs"
  using answered_no_sync
  by (auto simp: PBMember_init_def watchCb_def electionDone_def handleElectionResponse_def removeLock_def
      handleBecomeLeaderMsg_def acquireLock_def handleKVBMessage_def writeTable_def metadataHandler_def kvbHandler_def
      registerKVBMessageHandler_def obind_Ok_iff Let_def intro!: no_sync_obind
      split: if_split_asm option.splits)

text \<open>Runs of actions, and the reachable states.\<close>

fun cluster_run :: "'db env \<Rightarrow> action list \<Rightarrow> 'db cluster \<Rightarrow> 'db cluster option" where
  "cluster_run E [] c = Some c"
| "cluster_run E (a # as) c =
     (case cluster_do E a c of None \<Rightarrow> None | Some c1 \<Rightarrow> cluster_run E as c1)"

text \<open>No process has run yet; the databases hold whatever they hold.\<close>

definition cluster_start :: "'db env \<Rightarrow> (string \<Rightarrow> 'db) \<Rightarrow> 'db cluster" where
  "cluster_start E dbs =
     \<lparr>c_node = (\<lambda>i. \<lparr>n_up = False, n_incarnation = 0, n_replica = fresh_member E i 0 0 (dbs i),
                     n_answers = [], n_ballots = [], n_timers = 0\<rparr>),
      c_calls = (\<lambda>s. []), c_mail = [], c_writes = [], z_nodes = [], z_ended = (\<lambda>s. False),
      z_sequence = 0, z_version = 0\<rparr>"

definition reachable_cluster :: "'db env \<Rightarrow> 'db cluster \<Rightarrow> bool" where
  "reachable_cluster E c \<longleftrightarrow> (\<exists>as dbs. cluster_run E as (cluster_start E dbs) = Some c)"

definition cluster_step :: "'db env \<Rightarrow> 'db cluster \<Rightarrow> 'db cluster \<Rightarrow> bool" where
  "cluster_step E c c' \<longleftrightarrow> (\<exists>a. cluster_do E a c = Some c')"

definition cluster_init :: "'db env \<Rightarrow> 'db cluster \<Rightarrow> bool" where
  "cluster_init E c \<longleftrightarrow> (\<exists>dbs. c = cluster_start E dbs)"

lemma cluster_run_append:
  "cluster_run E (as @ bs) c =
     (case cluster_run E as c of None \<Rightarrow> None | Some c1 \<Rightarrow> cluster_run E bs c1)"
  by (induction as arbitrary: c) (auto split: option.splits)

lemma cluster_run_steps: "cluster_run E as c = Some c' \<Longrightarrow> (cluster_step E)\<^sup>*\<^sup>* c c'"
proof (induction as arbitrary: c)
  case (Cons a as)
  then obtain c1 where "cluster_do E a c = Some c1" "cluster_run E as c1 = Some c'"
    by (auto split: option.splits)
  with Cons.IH [of c1] show ?case
    by (auto simp: cluster_step_def intro: converse_rtranclp_into_rtranclp)
qed simp

end
