(* ===== verification/Cluster_Runs.thy ===== *)
theory Cluster_Runs
  imports Group_Cluster
begin

section \<open>Runs of a group of three\<close>

text \<open>
  Concrete histories of a group with the members \<open>a\<close>, \<open>b\<close>, \<open>c\<close> and a quorum of two, evaluated
  action by action. They are the examples at which the invariants of the other theories apply,
  and two of them show what a group can get into.
\<close>

subsection \<open>The group\<close>

definition other_update :: UpdateBlobMetaMsg where
  "other_update = sample_update\<lparr>ub_blobId := 4\<rparr>"

text \<open>
  A serializer for the examples, with its inverse: numbers in unary, and one byte for the two
  messages the runs use.
\<close>

definition enc_nat :: "nat \<Rightarrow> bytes" where
  "enc_nat n = replicate n 1 @ [0]"

fun dec_nat :: "bytes \<Rightarrow> (nat \<times> bytes) option" where
  "dec_nat [] = None"
| "dec_nat (b # bs) = (if b = 0 then Some (0, bs) else map_option (apfst Suc) (dec_nat bs))"

definition enc_int :: "int \<Rightarrow> bytes" where
  "enc_int i = (if i < 0 then 1 else 0) # enc_nat (nat \<bar>i\<bar>)"

fun dec_int :: "bytes \<Rightarrow> (int \<times> bytes) option" where
  "dec_int [] = None"
| "dec_int (s # bs) = map_option (apfst (\<lambda>n. if s = 1 then - int n else int n)) (dec_nat bs)"

definition enc_chunk :: "BlobKVPair \<Rightarrow> bytes" where
  "enc_chunk c = enc_nat (unat (bp_offset c)) @ enc_nat (length (bp_chunkId c)) @ bp_chunkId c"

definition dec_chunk :: "bytes \<Rightarrow> (BlobKVPair \<times> bytes) option" where
  "dec_chunk bs = Option.bind (dec_nat bs) (\<lambda>(off, bs1). Option.bind (dec_nat bs1) (\<lambda>(len, bs2).
     Some (\<lparr>bp_offset = of_nat off, bp_chunkId = take len bs2\<rparr>, drop len bs2)))"

fun dec_chunks :: "nat \<Rightarrow> bytes \<Rightarrow> (BlobKVPair list \<times> bytes) option" where
  "dec_chunks 0 bs = Some ([], bs)"
| "dec_chunks (Suc n) bs = Option.bind (dec_chunk bs) (\<lambda>(c, bs1). map_option (apfst ((#) c)) (dec_chunks n bs1))"

definition enc_update :: "UpdateBlobMetaMsg \<Rightarrow> bytes" where
  "enc_update m = enc_int (ub_resourceId m) @ enc_nat (unat (ub_blobId m)) @ enc_int (ub_opId m) @
     enc_int (ub_commitId m) @ enc_nat (length (ub_chunkList m)) @ concat (map enc_chunk (ub_chunkList m))"

definition dec_update :: "bytes \<Rightarrow> UpdateBlobMetaMsg option" where
  "dec_update bs = Option.bind (dec_int bs) (\<lambda>(res, bs). Option.bind (dec_nat bs) (\<lambda>(blob, bs).
     Option.bind (dec_int bs) (\<lambda>(op, bs). Option.bind (dec_int bs) (\<lambda>(commit, bs).
     Option.bind (dec_nat bs) (\<lambda>(n, bs). Option.bind (dec_chunks n bs) (\<lambda>(cs, bs).
     Some \<lparr>ub_resourceId = res, ub_blobId = of_nat blob, ub_opId = op, ub_commitId = commit,
           ub_chunkList = cs\<rparr>))))))"

definition trio_ser :: "UpdateBlobMetaMsg \<Rightarrow> bytes" where
  "trio_ser m = (if m = sample_update then [9] else if m = other_update then [8] else 0 # enc_update m)"

definition trio_parse :: "bytes \<Rightarrow> UpdateBlobMetaMsg option" where
  "trio_parse b = (if b = [9] then Some sample_update else if b = [8] then Some other_update
     else dec_update (tl b))"

lemma dec_enc_nat: "dec_nat (enc_nat n @ bs) = Some (n, bs)"
  by (induction n) (simp_all add: enc_nat_def)

lemma dec_enc_int: "dec_int (enc_int i @ bs) = Some (i, bs)"
  by (simp add: enc_int_def dec_enc_nat)

lemma dec_enc_chunk: "dec_chunk (enc_chunk c @ bs) = Some (c, bs)"
  by (simp add: enc_chunk_def dec_chunk_def dec_enc_nat)

lemma dec_enc_chunks: "dec_chunks (length cs) (concat (map enc_chunk cs) @ bs) = Some (cs, bs)"
  by (induction cs) (simp_all add: dec_enc_chunk)

lemma dec_enc_update: "dec_update (enc_update m) = Some m"
  using dec_enc_chunks [of "ub_chunkList m" "[]"]
  by (simp add: enc_update_def dec_update_def dec_enc_int dec_enc_nat)

lemma trio_parse_ser: "trio_parse (trio_ser m) = Some m"
  by (simp add: trio_parse_def trio_ser_def dec_enc_update)

definition trio :: "bool \<Rightarrow> (bytes, bytes) smap env" where
  "trio expiry = \<lparr>e_rocksdb = mem_db, e_folly = folly_dec\<lparr>to_uint64 := nat_of_dec\<rparr>,
     e_parse = trio_parse, e_ser = trio_ser, e_serResp = (\<lambda>_. []),
     e_suffix = dec_of_nat, e_resource = 1, e_group = ''/g'',
     e_members = [''a'', ''b'', ''c''], e_quorum = 2, e_expiry = expiry\<rparr>"

abbreviation trio_start :: "bool \<Rightarrow> (bytes, bytes) smap cluster" where
  "trio_start expiry \<equiv> cluster_start (trio expiry) (\<lambda>_. [])"

definition tenSeconds :: int where "tenSeconds = 10000000000"

text \<open>A process starts and its node is created.\<close>

definition joins :: "string \<Rightarrow> nat \<Rightarrow> action list" where
  "joins i n = [Starts i 0 0, Executes (i, n), Executes (i, n), Handles i 0, Handles i 0]"

text \<open>A member notices that there is no lock, takes it, raises the term and asks for votes.\<close>

definition stands :: "string \<Rightarrow> nat \<Rightarrow> action list" where
  "stands i n = WatchFires i # concat (replicate 4 [Executes (i, n), Handles i tenSeconds])"

text \<open>It counts, gives up the lock and tells \<open>l\<close>, which takes the lock as leader.\<close>

definition concludes :: "string \<Rightarrow> nat \<Rightarrow> string \<Rightarrow> nat \<Rightarrow> action list" where
  "concludes i n l k =
     [Counts i tenSeconds, Executes (i, n), Handles i tenSeconds, Receives 0, Executes (l, k), Handles l tenSeconds]"

text \<open>The member \<open>a\<close> is not there yet; \<open>b\<close> conducts the election and wins it.\<close>

definition first_election :: "action list" where
  "first_election = joins ''b'' 1 @ joins ''c'' 1 @ stands ''b'' 1 @
     [VoteFails ''b'' ''a'', Votes ''b'' ''b'', Votes ''b'' ''c''] @ concludes ''b'' 1 ''b'' 1"

text \<open>The new leader's first write reaches the only peer it counts on.\<close>

definition first_write :: "action list" where
  "first_write = [Writes ''b'' sample_update, PeerWrites 0 0, PeerAnswers 0]"

text \<open>The leader stops, \<open>a\<close> arrives, and \<open>c\<close> conducts the next election.\<close>

definition succession :: "action list" where
  "succession = [Stops ''b'', SessionEnds (''b'', 1)] @ joins ''a'' 1 @ stands ''c'' 1 @
     [Votes ''c'' ''a'', VoteFails ''c'' ''b'', Votes ''c'' ''c''] @ concludes ''c'' 1 ''a'' 1"

text \<open>The leader only loses its session, and keeps running.\<close>

definition usurpation :: "action list" where
  "usurpation = [SessionEnds (''b'', 1)] @ joins ''a'' 1 @ stands ''c'' 1 @
     [Votes ''c'' ''a'', Votes ''c'' ''b'', Votes ''c'' ''c''] @ concludes ''c'' 1 ''a'' 1 @
     [Writes ''b'' sample_update, Writes ''a'' other_update, PeerWrites 1 1, PeerAnswers 1]"

subsection \<open>What the runs show\<close>

definition journal_of :: "string \<Rightarrow> 'db cluster \<Rightarrow> (int \<times> bytes) list" where
  "journal_of i c = map (\<lambda>r. (jr_id r, jr_buf r)) (vr_journal (member i c))"

definition role_of :: "string \<Rightarrow> 'db cluster \<Rightarrow> bool \<times> PBMemberState" where
  "role_of i c = (up i c, mstate (member i c))"

definition promises :: "'db cluster \<Rightarrow> (exn + unit) option list" where
  "promises c = map (w_promise \<circ> ow_ctx) (c_writes c)"

definition stops_in :: "action list \<Rightarrow> action list" where
  "stops_in as = filter (\<lambda>a. case a of Stops i \<Rightarrow> True | _ \<Rightarrow> False) as"

lemma run_view:
  assumes "map_option f (cluster_run E as c) = Some v"
  obtains c' where "cluster_run E as c = Some c'" and "f c' = v"
  using assms by blast

definition after_election :: "(bytes, bytes) smap cluster" where
  "after_election = the (cluster_run (trio False) first_election (trio_start False))"

lemma after_election_view:
  "map_option (\<lambda>c. (role_of ''b'' c, role_of ''c'' c, promises c, z_version c))
     (cluster_run (trio False) first_election (trio_start False)) =
   Some ((True, LEADER_FUNCTIONAL), (True, FOLLOWER_WAIT_TO_JOIN_GROUP), [], 1)"
  by code_simp

lemma after_election:
  "cluster_run (trio False) first_election (trio_start False) = Some after_election"
  "up ''b'' after_election" "mstate (member ''b'' after_election) = LEADER_FUNCTIONAL"
  using after_election_view by (auto simp: after_election_def role_of_def)

lemma after_election_reachable: "reachable_cluster (trio False) after_election"
  using after_election(1) unfolding reachable_cluster_def by blast

lemma after_write_view:
  "map_option (\<lambda>c. (promises c, journal_of ''b'' c, journal_of ''c'' c))
     (cluster_run (trio False) (first_election @ first_write) (trio_start False)) =
   Some ([Some (Inr ())], [(0, [9])], [(0, [9])])"
  by code_simp

text \<open>A second write, of another blob.\<close>

definition second_write :: "action list" where
  "second_write = [Writes ''b'' (sample_update\<lparr>ub_chunkList := []\<rparr>), PeerWrites 1 0, PeerAnswers 1]"

definition after_writes :: "(bytes, bytes) smap cluster" where
  "after_writes = the (cluster_run (trio False) (first_election @ first_write @ second_write) (trio_start False))"

lemma after_writes_view:
  "map_option (\<lambda>c. (promises c, map (jr_id \<circ> ow_record) (c_writes c), map ow_leader (c_writes c),
       map ow_acked (c_writes c), session_of ''b'' c, session_of ''c'' c))
     (cluster_run (trio False) (first_election @ first_write @ second_write) (trio_start False)) =
   Some ([Some (Inr ()), Some (Inr ())], [0, 1], [(''b'', 1), (''b'', 1)], [[(''c'', 1)], [(''c'', 1)]],
     (''b'', 1), (''c'', 1))"
  by code_simp

lemma after_writes:
  "cluster_run (trio False) (first_election @ first_write @ second_write) (trio_start False) = Some after_writes"
  using after_writes_view by (auto simp: after_writes_def)

lemma after_writes_reachable: "reachable_cluster (trio False) after_writes"
  using after_writes unfolding reachable_cluster_def by blast

text \<open>The only functional peer does not answer a write; then it comes back, and \<open>a\<close> joins as well.\<close>

definition lost_quorum :: "action list" where
  "lost_quorum = first_election @ [Writes ''b'' sample_update, PeerFails 0 0, PeerAnswers 0]"

definition rejoining :: "action list" where
  "rejoining = [Stops ''c'', SessionEnds (''c'', 1)] @ joins ''c'' 2 @ joins ''a'' 1"

definition after_failure :: "(bytes, bytes) smap cluster" where
  "after_failure = the (cluster_run (trio False) lost_quorum (trio_start False))"

definition after_rejoining :: "(bytes, bytes) smap cluster" where
  "after_rejoining = the (cluster_run (trio False) rejoining after_failure)"

lemma after_failure_view:
  "map_option (\<lambda>c. (role_of ''b'' c, session_of ''b'' c))
     (cluster_run (trio False) lost_quorum (trio_start False)) =
   Some ((True, LEADER_WAITING_FOR_QUORUM), (''b'', 1))"
  by code_simp

lemma after_rejoining_view:
  "map_option (\<lambda>c. (up ''b'' c, up ''a'' c, up ''c'' c, session_of ''b'' c))
     (cluster_run (trio False) (lost_quorum @ rejoining) (trio_start False)) =
   Some (True, True, True, (''b'', 1))"
  by code_simp

lemma rejoining_run:
  "cluster_run (trio False) lost_quorum (trio_start False) = Some after_failure"
  "cluster_run (trio False) rejoining after_failure = Some after_rejoining"
  "up ''b'' after_failure" "mstate (member ''b'' after_failure) = LEADER_WAITING_FOR_QUORUM"
  "up ''b'' after_rejoining" "up ''a'' after_rejoining" "up ''c'' after_rejoining"
  "session_of ''b'' after_rejoining = session_of ''b'' after_failure"
proof -
  show f: "cluster_run (trio False) lost_quorum (trio_start False) = Some after_failure"
    using after_failure_view by (auto simp: after_failure_def)
  then obtain c where c: "cluster_run (trio False) rejoining after_failure = Some c"
    using after_rejoining_view by (auto simp: cluster_run_append)
  then show r: "cluster_run (trio False) rejoining after_failure = Some after_rejoining"
    by (simp add: after_rejoining_def)
  show "up ''b'' after_failure" "mstate (member ''b'' after_failure) = LEADER_WAITING_FOR_QUORUM"
    "up ''b'' after_rejoining" "up ''a'' after_rejoining" "up ''c'' after_rejoining"
    "session_of ''b'' after_rejoining = session_of ''b'' after_failure"
    using after_failure_view after_rejoining_view f r by (simp_all add: cluster_run_append role_of_def)
qed

lemma after_succession_view:
  "map_option (\<lambda>c. (promises c, role_of ''a'' c, role_of ''b'' c, journal_of ''a'' c,
       vr_db (member ''a'' c)))
     (cluster_run (trio False) (first_election @ first_write @ succession) (trio_start False)) =
   Some ([Some (Inr ())], (True, LEADER_FUNCTIONAL), (False, LEADER_FUNCTIONAL), [], [])"
  by code_simp

text \<open>
  C8. A write can be acknowledged and then be lost although only one process, the leader's, has
  stopped and sessions end only after their processes: in the run above the write was
  acknowledged after \<open>b\<close> and \<open>c\<close> had stored it, \<open>b\<close> stops, and the next election, which \<open>c\<close>
  conducts, makes the newcomer \<open>a\<close> the functional leader, with an empty journal and database.
\<close>

theorem acknowledged_write_lost:
  "\<exists>c1 c2. cluster_run (trio False) (first_election @ first_write) (trio_start False) = Some c1 \<and>
     promises c1 = [Some (Inr ())] \<and> journal_of ''b'' c1 = [(0, [9])] \<and> journal_of ''c'' c1 = [(0, [9])] \<and>
     cluster_run (trio False) succession c1 = Some c2 \<and> stops_in succession = [Stops ''b''] \<and>
     role_of ''a'' c2 = (True, LEADER_FUNCTIONAL) \<and> journal_of ''a'' c2 = [] \<and>
     vr_db (member ''a'' c2) = []"
proof -
  obtain c2 where c2: "cluster_run (trio False) (first_election @ first_write @ succession) (trio_start False) = Some c2"
    "role_of ''a'' c2 = (True, LEADER_FUNCTIONAL)" "journal_of ''a'' c2 = []" "vr_db (member ''a'' c2) = []"
    using run_view [OF after_succession_view] by blast
  obtain c1 where c1: "cluster_run (trio False) (first_election @ first_write) (trio_start False) = Some c1"
    "promises c1 = [Some (Inr ())]" "journal_of ''b'' c1 = [(0, [9])]" "journal_of ''c'' c1 = [(0, [9])]"
    using run_view [OF after_write_view] by blast
  have "cluster_run (trio False) succession c1 = Some c2"
    using c2(1) c1(1) cluster_run_append [of "trio False" "first_election @ first_write" succession]
    by simp
  moreover have "stops_in succession = [Stops ''b'']" by code_simp
  ultimately show ?thesis using c1 c2 by blast
qed

lemma after_usurpation_view:
  "map_option (\<lambda>c. (promises c, role_of ''a'' c, role_of ''b'' c, journal_of ''a'' c, journal_of ''b'' c,
       journal_of ''c'' c))
     (cluster_run (trio True) (first_election @ usurpation) (trio_start True)) =
   Some ([None, Some (Inr ())], (True, LEADER_FUNCTIONAL), (True, LEADER_FUNCTIONAL),
     [(0, [8])], [(0, [9])], [(0, [8])])"
  by code_simp

text \<open>
  C9. When a session can end while its process runs on, as ZooKeeper ends the session of a member
  it has not heard of for the timeout, two members can be functional leaders at the same time,
  and both take writes: they store different writes under one commit id. (No watch event of the old
  leader's session has been delivered to it in this run.)
\<close>

theorem two_leaders_after_expiry:
  "\<exists>c. reachable_cluster (trio True) c \<and>
     role_of ''a'' c = (True, LEADER_FUNCTIONAL) \<and> role_of ''b'' c = (True, LEADER_FUNCTIONAL) \<and>
     promises c = [None, Some (Inr ())] \<and>
     journal_of ''a'' c = [(0, [8])] \<and> journal_of ''b'' c = [(0, [9])] \<and> journal_of ''c'' c = [(0, [8])]"
  using run_view [OF after_usurpation_view] unfolding reachable_cluster_def by blast

end
