(* ===== verification/Cluster_Invariant.thy ===== *)
theory Cluster_Invariant
  imports Group_Cluster
begin

section \<open>The tokens of a group\<close>

text \<open>
  The invariant of a group whose sessions end only after their processes. The right to change
  the lock is a token: whoever runs an election holds one (\<open>tokens\<close>: a call or an answer of the
  elector's chain, an election request, or the state \<open>EC_WAITING_FOR_QUORUM\<close>), and who is or is
  about to be a leader holds the other kind (\<open>claims\<close>). A session never holds two, and the lock
  node names the holder. Each handler spends at most the token it was given.
\<close>

subsection \<open>Tokens of a member\<close>

definition state_token :: "'a PBMember_scheme \<Rightarrow> nat" where
  "state_token r = (if mstate r = EC_WAITING_FOR_QUORUM then 1 else 0)"

definition leader_token :: "'a PBMember_scheme \<Rightarrow> nat" where
  "leader_token r = (if isLeaderState r then 1 else 0)"

fun elector_cont :: "pb_cont \<Rightarrow> bool" where
  "elector_cont KElectorTerm = True"
| "elector_cont KElectorChildren = True"
| "elector_cont (KRemoveLock fms) = True"
| "elector_cont k = False"

fun elector_answer :: "pb_cont \<times> coord_answer \<Rightarrow> bool" where
  "elector_answer (KElectorLock, TextAnswer (Inr x)) = True"
| "elector_answer (KElectorTerm, a) = True"
| "elector_answer (KElectorChildren, a) = True"
| "elector_answer (k, a) = False"

fun leader_answer :: "pb_cont \<times> coord_answer \<Rightarrow> bool" where
  "leader_answer (KLeaderLock fms, TextAnswer (Inr x)) = True"
| "leader_answer (k, a) = False"

fun effect_token :: "pb_effect \<Rightarrow> nat" where
  "effect_token (Coord c k) = (if elector_cont k then 1 else 0)"
| "effect_token (ElectionRequest ids msg) = 1"
| "effect_token e = 0"

definition count_if :: "('a \<Rightarrow> bool) \<Rightarrow> 'a list \<Rightarrow> nat" where
  "count_if P xs = length (filter P xs)"

lemma count_if_simps [simp]:
  "count_if P [] = 0" "count_if P (x # xs) = (if P x then 1 else 0) + count_if P xs"
  "count_if P (xs @ ys) = count_if P xs + count_if P ys"
  by (simp_all add: count_if_def)

definition node_tokens :: "'db node \<Rightarrow> nat" where
  "node_tokens n = count_if elector_answer (n_answers n) + length (n_ballots n) + state_token (n_replica n)"

definition node_claims :: "'db node \<Rightarrow> nat" where
  "node_claims n = count_if leader_answer (n_answers n) + leader_token (n_replica n)"

definition tokens :: "'db cluster \<Rightarrow> session \<Rightarrow> nat" where
  "tokens c s = (if z_ended c s then 0 else count_if (elector_cont \<circ> snd) (c_calls c s)) +
     (if live s c then node_tokens (c_node c (fst s)) else 0)"

definition claims :: "'db cluster \<Rightarrow> session \<Rightarrow> nat" where
  "claims c s = (if live s c then node_claims (c_node c (fst s)) else 0)"

subsection \<open>What a handler may spend\<close>

text \<open>
  A handler that turns \<open>r\<close> into \<open>r'\<close> and issues \<open>effs\<close>, having been given \<open>t\<close> elector tokens and
  \<open>l\<close> leader tokens.
\<close>

definition lock_of :: "string \<Rightarrow> string" where
  "lock_of g = g @ ''/'' @ PB_LOCK_KEY"

fun call_ok :: "string \<Rightarrow> coord_call \<times> pb_cont \<Rightarrow> bool" where
  "call_ok g (GetChildren key w, k) = (k = KNone \<or> k = KWatch \<or> k = KElectorChildren)"
| "call_ok g (CreateEphemeral p v True, k) =
     (k = KMemberRoot \<and> (\<exists>i. p = g @ ''/'' @ i @ '':''))"
| "call_ok g (CreateEphemeral p v False, k) =
     (p = lock_of g \<and> (k = KElectorLock \<and> v = PB_LOCKTYPE_ELECTOR \<or>
                       (\<exists>fms. k = KLeaderLock fms) \<and> v = PB_LOCKTYPE_LEADER))"
| "call_ok g (SetKey key v ver, k) = (k = KElectorTerm)"
| "call_ok g (DelKey p ver, k) = (p = lock_of g \<and> (\<exists>fms. k = KRemoveLock fms))"

fun effect_ok :: "string \<Rightarrow> pb_effect \<Rightarrow> bool" where
  "effect_ok g (Coord c k) = call_ok g (c, k)"
| "effect_ok g e = True"

definition within_budget ::
  "'db VolumeReplica \<Rightarrow> nat \<Rightarrow> nat \<Rightarrow> 'db VolumeReplica \<Rightarrow> pb_effect list \<Rightarrow> bool" where
  "within_budget r t l r' effs \<longleftrightarrow>
     state_token r' + sum_list (map effect_token effs) \<le> state_token r + t \<and>
     leader_token r' \<le> leader_token r + l \<and> groupKey r' = groupKey r \<and>
     list_all (effect_ok (groupKey r)) effs"

lemmas budget_defs = within_budget_def state_token_def leader_token_def isLeaderState_def
  switchState_def state_order lockKey_def lock_of_def

lemma within_budget_refl [simp]: "within_budget r t l r []"
  by (simp add: within_budget_def)

lemma within_budget_ops:
  fixes r r' :: "'db VolumeReplica"
  shows "memberRootDone x r = Ok (r', effs) \<Longrightarrow> within_budget r 0 0 r' effs"
    and "watchDone f now cs r = Ok (r', effs) \<Longrightarrow> within_budget r 0 0 r' effs"
    and "electorLockDone (Inr v) r = Ok (r', effs) \<Longrightarrow> within_budget r 1 0 r' effs"
    and "electorTermDone t r = Ok (r', effs) \<Longrightarrow> within_budget r 1 0 r' effs"
    and "electorChildrenDone f cs r = Ok (r', effs) \<Longrightarrow> within_budget r 1 0 r' effs"
    and "electionDone now tries r = (r', effs) \<Longrightarrow> within_budget r 1 0 r' effs"
    and "removeLockDone fms u r = Ok (r', effs) \<Longrightarrow> within_budget r 0 0 r' effs"
    and "handleBecomeLeaderMsg bl r = Ok (r', effs) \<Longrightarrow> within_budget r 0 0 r' effs"
    and "leaderLockDone fms (Inr v) r = Ok (r', effs) \<Longrightarrow> within_budget r 0 1 r' effs"
  subgoal by (auto simp: memberRootDone_def handleError_def split: sum.splits)
  subgoal by (auto simp: watchDone_def handleGroupWatchEvent_def startElectionIfQuorum_def
        orHandleError_def handleError_def obind_Ok_iff Let_def budget_defs issueElectionRequest_def
        acquireLock_def
        split: sum.splits outcome.splits PBMemberState.splits if_splits)
  subgoal by (auto simp: electorLockDone_def increaseTerm_def budget_defs)
  subgoal by (auto simp: electorTermDone_def handleError_def Let_def budget_defs split: sum.splits)
  subgoal by (auto simp: electorChildrenDone_def startElectionIfQuorum_def orHandleError_def
        handleError_def obind_Ok_iff Let_def budget_defs issueElectionRequest_def
        split: sum.splits outcome.splits if_splits)
  subgoal by (auto simp: electionDone_def handleElectionResponse_def budget_defs removeLock_def
        split: if_splits)
  subgoal by (auto simp: removeLockDone_def sendBecomeLeaderMsg_def handleError_def obind_Ok_iff
        Let_def budget_defs scheduleGroupWatchEvent_def split: sum.splits list.splits)
  subgoal by (auto simp: handleBecomeLeaderMsg_def obind_Ok_iff acquireLock_def budget_defs)
  subgoal by (auto simp: leaderLockDone_def Let_def budget_defs split: if_splits)
  done

lemma watchCb_budget: "within_budget r 0 0 r (watchCb r)"
  by (simp add: watchCb_def within_budget_def)

lemma lock_refused: "electorLockDone (Inl e) r = Abort" "leaderLockDone fms (Inl e) r = Abort"
  by (simp_all add: electorLockDone_def leaderLockDone_def handleError_def)

lemma lock_budget:
  fixes r r' :: "'db VolumeReplica"
  shows "electorLockDone x r = Ok (r', effs) \<Longrightarrow>
      within_budget r (if elector_answer (KElectorLock, TextAnswer x) then 1 else 0) 0 r' effs"
    and "leaderLockDone fms x r = Ok (r', effs) \<Longrightarrow>
      within_budget r 0 (if leader_answer (KLeaderLock fms, TextAnswer x) then 1 else 0) r' effs"
  subgoal by (cases x) (auto simp: lock_refused dest: within_budget_ops(3))
  subgoal by (cases x) (auto simp: lock_refused dest: within_budget_ops(9))
  done

lemma answered_budget:
  assumes "answered E now k a r = Ok (r', effs)"
  shows "within_budget r (if elector_answer (k, a) then 1 else 0)
    (if leader_answer (k, a) then 1 else 0) r' effs"
  using assms
  by (cases "(E, now, k, a, r)" rule: answered.cases) (auto dest: within_budget_ops lock_budget)

text \<open>What a write and its answers may change of a member.\<close>

definition same_role :: "'db VolumeReplica \<Rightarrow> 'db VolumeReplica \<Rightarrow> bool" where
  "same_role r r' \<longleftrightarrow> mstate r' = mstate r \<and> groupKey r' = groupKey r \<and> quorum r' = quorum r \<and>
     myId r' = myId r \<and> memberIds r' = memberIds r \<and>
     map_option lc_peers (leaderCtx r') = map_option lc_peers (leaderCtx r)"

lemma same_role_budget: "same_role r r' \<Longrightarrow> within_budget r 0 0 r' []"
  by (simp add: same_role_def budget_defs)

lemma metadata_write_role:
  fixes r r' :: "'db VolumeReplica"
  shows "handleMetadataWrite R msg buffer r = Ok (r', x) \<Longrightarrow> same_role r r'"
  by (auto simp: handleMetadataWrite_eq same_role_def split: if_splits option.splits)

lemma update_role:
  fixes r r' :: "'db VolumeReplica"
  assumes "updateBlobMeta R ser msg r = Ok (r', x)"
  shows "same_role r r'"
proof (cases "mstate r = LEADER_FUNCTIONAL \<and> leaderCtx r \<noteq> None")
  case False
  with assms show ?thesis
    by (auto simp: updateBlobMeta_def groupWriteInEb_def same_role_def split: if_splits)
next
  case True
  then obtain lc where "leaderCtx r = Some lc" by blast
  from assms [unfolded updateBlobMeta_eq [OF conjunct1 [OF True] this]] this show ?thesis
    by (auto simp: Let_def same_role_def next_ctx_def split: if_splits option.splits)
qed

lemma peer_answer_changes:
  fixes r r' :: "'db VolumeReplica"
  assumes "writePeerDone p y w r = Ok (w', r')"
  obtains "r' = r" | v where "changePeerState (p_id p) v FOLLOWER_WAIT_TO_JOIN_GROUP r = Ok r'"
  using assms by (auto simp: writePeerDone_def Let_def obind_Ok_iff split: option.splits sum.splits
      dest: getPeerRef_SomeD)

lemma changePeerState_budget:
  fixes r r' :: "'db VolumeReplica"
  assumes "changePeerState i v t r = Ok r'"
  shows "within_budget r 0 0 r' []"
  using assms
  by (auto simp: changePeerState_def adjustLeaderState_def budget_defs Let_def split: option.splits if_splits)

lemma writeTable_role:
  fixes r r' :: "'db VolumeReplica"
  assumes "handleKVBMessage (writeTable R parse serResp) kvb r = Ok (r', effs, x)"
  shows "same_role r r'" and "effs = []"
  using assms
  by (auto simp: handleKVBMessage_def writeTable_def registerKVBMessageHandler_def metadataHandler_def
      kvbHandler_def obind_Ok_iff split: option.splits if_splits intro: metadata_write_role)

lemma write_budget:
  fixes r r' :: "'db VolumeReplica"
  shows "updateBlobMeta R ser msg r = Ok (r', res) \<Longrightarrow> within_budget r 0 0 r' []"
    and "handleKVBMessage (writeTable R parse serResp) kvb r = Ok (r', effs, x) \<Longrightarrow>
      within_budget r 0 0 r' effs"
    and "writePeerDone p y w r = Ok (w', r') \<Longrightarrow> within_budget r 0 0 r' []"
  subgoal by (intro same_role_budget update_role)
  subgoal using writeTable_role same_role_budget by fastforce
  subgoal by (erule peer_answer_changes) (auto intro: changePeerState_budget)
  done

subsection \<open>The invariant\<close>

definition session_ok :: "'db env \<Rightarrow> 'db cluster \<Rightarrow> session \<Rightarrow> bool" where
  "session_ok E c s \<longleftrightarrow> tokens c s \<le> 1 \<and> claims c s \<le> 1 \<and>
     (0 < tokens c s \<longrightarrow> lock E c = Some (PB_LOCKTYPE_ELECTOR, s)) \<and>
     (0 < claims c s \<longrightarrow> lock E c = Some (PB_LOCKTYPE_LEADER, s))"

text \<open>
  What holds with and without tokens: node paths are unique, the calls on the way are those the
  code sends, and a session that has not begun has sent nothing.
\<close>

definition cluster_wf :: "'db env \<Rightarrow> 'db cluster \<Rightarrow> bool" where
  "cluster_wf E c \<longleftrightarrow> distinct (map fst (z_nodes c)) \<and>
     (\<forall>s. list_all (call_ok (e_group E)) (c_calls c s)) \<and>
     (\<forall>i. up i c \<longrightarrow> groupKey (member i c) = e_group E) \<and>
     (\<forall>s. n_incarnation (c_node c (fst s)) < snd s \<longrightarrow> c_calls c s = [] \<and> \<not> z_ended c s) \<and>
     (\<forall>s. live s c \<longrightarrow> \<not> z_ended c s)"

definition cluster_ok :: "'db env \<Rightarrow> 'db cluster \<Rightarrow> bool" where
  "cluster_ok E c \<longleftrightarrow> cluster_wf E c \<and> (\<forall>s. session_ok E c s)"

lemma session_ok_shrink:
  assumes "session_ok E c s" and "tokens c' s \<le> tokens c s" and "claims c' s \<le> claims c s"
    and "lock E c' = lock E c"
  shows "session_ok E c' s"
  using assms by (auto simp: session_ok_def)

lemma cluster_ok_shrink:
  assumes "cluster_ok E c" and "cluster_wf E c'" and "lock E c' = lock E c"
    and "\<And>s. tokens c' s \<le> tokens c s" and "\<And>s. claims c' s \<le> claims c s"
  shows "cluster_ok E c'"
  using assms unfolding cluster_ok_def by (blast intro: session_ok_shrink)

lemma ok_session: "cluster_ok E c \<Longrightarrow> session_ok E c s"
  by (simp only: cluster_ok_def)

lemma no_tokens:
  assumes "session_ok E c s"
  shows "lock E c \<noteq> Some (PB_LOCKTYPE_ELECTOR, s) \<Longrightarrow> tokens c s = 0"
    and "lock E c \<noteq> Some (PB_LOCKTYPE_LEADER, s) \<Longrightarrow> claims c s = 0"
  using assms by (auto simp: session_ok_def)

lemma session_ok_free: "tokens c s = 0 \<Longrightarrow> claims c s = 0 \<Longrightarrow> session_ok E c s"
  by (simp add: session_ok_def)

lemmas node_defs = session_of_def live_def member_def up_def on_node_def

lemma ok_mail [simp]: "cluster_ok E (c\<lparr>c_mail := m\<rparr>) = cluster_ok E c"
  by (simp add: cluster_ok_def cluster_wf_def session_ok_def tokens_def claims_def lock_def node_defs)

lemma ok_writes [simp]: "cluster_ok E (c\<lparr>c_writes := w\<rparr>) = cluster_ok E c"
  by (simp add: cluster_ok_def cluster_wf_def session_ok_def tokens_def claims_def lock_def node_defs)

lemma up_not_ended: "cluster_wf E c \<Longrightarrow> up i c \<Longrightarrow> \<not> z_ended c (session_of i c)"
  unfolding cluster_wf_def live_def by (metis fst_conv session_of_def up_def)

subsection \<open>Calls and messages leaving a member\<close>

lemma issue_simps [simp]: "issue i [] c = c" "issue i (e # effs) c = issue i effs (issue1 i c e)"
  by (simp_all add: issue_def)

lemma issue1_keeps [simp]:
  "z_nodes (issue1 i c e) = z_nodes c" "z_ended (issue1 i c e) = z_ended c"
  "n_up (c_node (issue1 i c e) j) = n_up (c_node c j)"
  "n_incarnation (c_node (issue1 i c e) j) = n_incarnation (c_node c j)"
  "n_replica (c_node (issue1 i c e) j) = n_replica (c_node c j)"
  "n_answers (c_node (issue1 i c e) j) = n_answers (c_node c j)"
  "c_writes (issue1 i c e) = c_writes c"
  by (cases e; simp add: on_node_def)+

lemma issue_keeps [simp]:
  "z_nodes (issue i es c) = z_nodes c" "z_ended (issue i es c) = z_ended c"
  "n_up (c_node (issue i es c) j) = n_up (c_node c j)"
  "n_incarnation (c_node (issue i es c) j) = n_incarnation (c_node c j)"
  "n_replica (c_node (issue i es c) j) = n_replica (c_node c j)"
  "n_answers (c_node (issue i es c) j) = n_answers (c_node c j)"
  "c_writes (issue i es c) = c_writes c"
  by (induction es arbitrary: c) simp_all

lemma issue_views [simp]:
  "session_of j (issue i es c) = session_of j c" "live s (issue i es c) = live s c"
  "member j (issue i es c) = member j c" "up j (issue i es c) = up j c"
  "lock E (issue i es c) = lock E c" "claims (issue i es c) s = claims c s"
  by (simp_all add: node_defs lock_def claims_def node_claims_def)

lemma issue1_tokens:
  assumes "up i c" and "\<not> z_ended c (session_of i c)"
  shows "tokens (issue1 i c e) s = tokens c s + (if s = session_of i c then effect_token e else 0)"
  using assms by (cases e) (auto simp: tokens_def node_tokens_def node_defs)

lemma issue_tokens:
  assumes "up i c" and "\<not> z_ended c (session_of i c)"
  shows "tokens (issue i es c) s =
    tokens c s + (if s = session_of i c then sum_list (map effect_token es) else 0)"
  using assms
proof (induction es arbitrary: c)
  case (Cons e es)
  from Cons.IH [of "issue1 i c e"] Cons.prems show ?case
    by (simp add: issue1_tokens up_def session_of_def)
qed simp

lemma issue_wf:
  assumes "cluster_wf E c" and "up i c" and "list_all (effect_ok (e_group E)) es"
  shows "cluster_wf E (issue i es c)"
  using assms
proof (induction es arbitrary: c)
  case (Cons e es)
  have "cluster_wf E (issue1 i c e)"
    using Cons.prems by (cases e) (auto simp: cluster_wf_def node_defs)
  with Cons show ?case by (simp add: up_def)
qed simp

subsection \<open>A step of one member\<close>

lemma member_step:
  fixes c :: "'db cluster"
  assumes ok: "cluster_ok E c" and up: "up i c"
    and f: "n_up (f (c_node c i))" "n_incarnation (f (c_node c i)) = n_incarnation (c_node c i)"
      "n_replica (f (c_node c i)) = member i c"
    and t: "node_tokens (f (c_node c i)) + t \<le> node_tokens (c_node c i)"
    and l: "node_claims (f (c_node c i)) + l \<le> node_claims (c_node c i)"
    and b: "within_budget (member i c) t l r' effs"
  shows "cluster_ok E (issue i effs (put_member i r' (on_node i f c)))" (is "cluster_ok E ?c'")
proof -
  let ?c1 = "put_member i r' (on_node i f c)"
  note fields = put_member_def node_defs
  have live: "live s ?c1 = live s c" for s using f up by (auto simp: fields)
  have lk: "groupKey (member i c) = e_group E" "groupKey r' = e_group E"
    using ok up b by (simp_all add: cluster_ok_def cluster_wf_def within_budget_def)
  have ended: "\<not> z_ended c (session_of i c)" "z_ended ?c1 = z_ended c"
    "session_of i ?c1 = session_of i c" "up i ?c1"
    using up_not_ended [of E c i] ok up f by (auto simp: cluster_ok_def fields)
  have "cluster_wf E ?c1"
    using ok up f lk(2) by (auto simp: cluster_ok_def cluster_wf_def fields)
  with b have wf: "cluster_wf E ?c'"
    by (intro issue_wf) (auto simp: ended(4) within_budget_def lk(1))
  have tok: "tokens ?c' s \<le> tokens c s" for s
  proof (cases "s = session_of i c")
    case True
    have "tokens ?c' s = tokens ?c1 s + sum_list (map effect_token effs)"
      using ended by (simp add: issue_tokens True)
    also have "\<dots> \<le> tokens c s"
      using t b f up ended unfolding True
      by (auto simp: tokens_def fields node_tokens_def within_budget_def)
    finally show ?thesis .
  next
    case False
    have "tokens ?c' s = tokens ?c1 s" using ended False by (simp add: issue_tokens)
    also have "\<dots> = tokens c s"
      unfolding tokens_def ended(2) live
      using False by (auto simp: put_member_def on_node_def live_def session_of_def)
    finally show ?thesis by simp
  qed
  have cl: "claims ?c' s \<le> claims c s" for s
    using l b f up by (auto simp: claims_def fields node_claims_def within_budget_def)
  have "lock E ?c' = lock E c" by (simp add: lock_def fields)
  then show ?thesis by (rule cluster_ok_shrink [OF ok wf _ tok cl])
qed

lemma stop_step:
  assumes "cluster_ok E c"
  shows "cluster_ok E (stop_member i c)"
proof -
  have live: "live s (stop_member i c) \<longleftrightarrow> live s c \<and> fst s \<noteq> i" for s
    by (auto simp: stop_member_def node_defs)
  have "lock E (stop_member i c) = lock E c" by (simp add: lock_def stop_member_def on_node_def)
  moreover have "tokens (stop_member i c) s \<le> tokens c s" "claims (stop_member i c) s \<le> claims c s" for s
    unfolding tokens_def claims_def live
    by (auto simp: stop_member_def on_node_def node_tokens_def node_claims_def)
  moreover have "cluster_wf E (stop_member i c)"
    using assms live by (auto simp: cluster_ok_def cluster_wf_def stop_member_def on_node_def up_def member_def)
  ultimately show ?thesis by (blast intro: cluster_ok_shrink [OF assms])
qed

text \<open>The same when the handler ends in \<open>settle\<close>, with the node first changed by \<open>f\<close>.\<close>

lemma node_step:
  fixes c :: "'db cluster"
  assumes "cluster_ok E c" and "up i c"
    and "n_up (f (c_node c i))" "n_incarnation (f (c_node c i)) = n_incarnation (c_node c i)"
      "n_replica (f (c_node c i)) = member i c"
    and "node_tokens (f (c_node c i)) \<le> node_tokens (c_node c i)"
    and "node_claims (f (c_node c i)) \<le> node_claims (c_node c i)"
  shows "cluster_ok E (on_node i f c)"
proof -
  have "put_member i (member i c) (on_node i f c) = on_node i f c"
    by (simp add: put_member_def on_node_def flip: assms(5))
  with member_step [of E c i f, OF assms(1-5), of 0 0 "member i c" "[]"] assms(6,7) show ?thesis by simp
qed

lemma settle_step:
  fixes c :: "'db cluster"
  assumes ok: "cluster_ok E c" and up: "up i c"
    and f: "n_up (f (c_node c i))" "n_incarnation (f (c_node c i)) = n_incarnation (c_node c i)"
      "n_replica (f (c_node c i)) = member i c"
    and t: "node_tokens (f (c_node c i)) + t \<le> node_tokens (c_node c i)"
    and l: "node_claims (f (c_node c i)) + l \<le> node_claims (c_node c i)"
    and b: "\<And>r' effs. out = Ok (r', effs) \<Longrightarrow> within_budget (member i c) t l r' effs"
  shows "cluster_ok E (settle i out (on_node i f c))"
proof -
  have "cluster_ok E (on_node i f c)"
    using t l by (intro node_step [of E c i f, OF ok up f]) simp_all
  with member_step [of E c i f t l, OF ok up f t l b] show ?thesis
    by (auto simp: settle_def split: outcome.splits intro: stop_step)
qed

subsection \<open>The coordination service executes a call\<close>

definition pop_call :: "session \<Rightarrow> (coord_call \<times> pb_cont) list \<Rightarrow> 'db cluster \<Rightarrow> 'db cluster" where
  "pop_call s rest c = c\<lparr>c_calls := (c_calls c)(s := rest)\<rparr>"

lemma pop_views [simp]:
  "live s' (pop_call s rest c) = live s' c" "lock E (pop_call s rest c) = lock E c"
  "claims (pop_call s rest c) s' = claims c s'" "z_nodes (pop_call s rest c) = z_nodes c"
  "z_ended (pop_call s rest c) = z_ended c"
  by (simp_all add: pop_call_def node_defs lock_def claims_def)

lemma pop_tokens:
  assumes "c_calls c s = (call, k) # rest"
  shows "tokens (pop_call s rest c) s' +
    (if s' = s \<and> \<not> z_ended c s \<and> elector_cont k then 1 else 0) = tokens c s'"
  using assms by (simp add: tokens_def pop_call_def node_defs)

lemma pop_wf:
  assumes "cluster_wf E c" and "c_calls c s = (call, k) # rest"
  shows "cluster_wf E (pop_call s rest c)"
proof -
  have "list_all (call_ok (e_group E)) rest"
    using assms unfolding cluster_wf_def by (metis list.pred_inject(2))
  moreover have "\<not> n_incarnation (c_node c (fst s)) < snd s"
    using assms unfolding cluster_wf_def by (metis list.distinct(1))
  ultimately show ?thesis
    using assms(1) unfolding cluster_wf_def
    by (auto simp: pop_call_def node_defs)
qed

lemma answer_views:
  "lock E (z_answer s a c) = lock E c" "z_nodes (z_answer s a c) = z_nodes c"
  "z_ended (z_answer s a c) = z_ended c" "live s' (z_answer s a c) = live s' c"
  "cluster_wf E (z_answer s a c) = cluster_wf E c"
  by (auto simp: z_answer_def lock_def cluster_wf_def node_defs)

lemma answer_tokens:
  "tokens (z_answer s a c) s' =
     tokens c s' + (if s' = s \<and> live s c \<and> elector_answer a then 1 else 0)"
  "claims (z_answer s a c) s' =
     claims c s' + (if s' = s \<and> live s c \<and> leader_answer a then 1 else 0)"
  by (auto simp: z_answer_def tokens_def claims_def node_tokens_def node_claims_def node_defs)

text \<open>A call that does not touch the lock, executed or not, hands its token to the answer.\<close>

lemma harmless_answer:
  assumes "cluster_ok E c" and "c_calls c s = (call, k) # rest"
    and c1: "cluster_wf E c1" "lock E c1 = lock E c"
      "\<And>s'. tokens c1 s' = tokens (pop_call s rest c) s'" "\<And>s'. claims c1 s' = claims c s'"
      "live s c1 = live s c"
    and a: "elector_answer (k, a) \<Longrightarrow> elector_cont k" "\<not> leader_answer (k, a)"
  shows "cluster_ok E (z_answer s (k, a) c1)"
proof -
  have e: "live s c \<Longrightarrow> \<not> z_ended c s"
    using assms(1) unfolding cluster_ok_def cluster_wf_def by blast
  have "tokens (z_answer s (k, a) c1) s' \<le> tokens c s'" for s'
    using pop_tokens [OF assms(2), of s'] a(1) e by (auto simp: answer_tokens c1)
  moreover have "claims (z_answer s (k, a) c1) s' \<le> claims c s'" for s'
    using a(2) by (simp add: answer_tokens c1)
  ultimately show ?thesis
    by (intro cluster_ok_shrink [OF assms(1)]) (simp_all add: answer_views c1)
qed

lemma failure_no_token:
  assumes "call_ok g (call, k)"
  shows "elector_answer (k, z_failure call) \<Longrightarrow> elector_cont k" "\<not> leader_answer (k, z_failure call)"
  using assms by (cases "(g, (call, k))" rule: call_ok.cases; auto)+

text \<open>Nodes other than the lock do not matter.\<close>

lemma lock_path [simp]: "lock_of (e_group E) = group_lock E"
  by (simp add: lock_of_def group_lock_def)

lemma member_path: "g @ ''/'' @ i @ '':'' @ n \<noteq> g @ ''/'' @ PB_LOCK_KEY"
proof
  assume "g @ ''/'' @ i @ '':'' @ n = g @ ''/'' @ PB_LOCK_KEY"
  then have "i @ '':'' @ n = ''LOCK''" by (simp add: PB_LOCK_KEY_def)
  then have "CHR '':'' \<in> set ''LOCK''" by (metis in_set_conv_decomp append_Cons append_Nil)
  then show False by simp
qed

lemma create_views:
  assumes "z_create p v s c = (c', a)"
  shows "c_calls c' = c_calls c \<and> c_node c' = c_node c \<and> z_ended c' = z_ended c"
    and "distinct (map fst (z_nodes c)) \<Longrightarrow> distinct (map fst (z_nodes c'))"
    and "lock E c' = (if p = group_lock E \<and> lock E c = None then Some (v, s) else lock E c)"
proof -
  show "distinct (map fst (z_nodes c)) \<Longrightarrow> distinct (map fst (z_nodes c'))"
    using assms by (auto simp: z_create_def map_of_eq_None_iff split: if_splits)
qed (use assms in \<open>auto simp: z_create_def lock_def split: if_splits\<close>)

text \<open>The state of the members and the calls on the way.\<close>

lemma same_tokens:
  assumes "c_calls c' = c_calls c" and "c_node c' = c_node c" and "z_ended c' = z_ended c"
  shows "tokens c' s = tokens c s" "claims c' s = claims c s" "live s c' = live s c"
    "distinct (map fst (z_nodes c')) \<Longrightarrow> cluster_wf E c \<Longrightarrow> cluster_wf E c'"
  using assms by (simp_all add: tokens_def claims_def node_defs cluster_wf_def)

lemma execute_harmless:
  assumes "z_execute E s call c = (c', a)" and "call_ok (e_group E) (call, k)"
    and "\<And>lk v. call \<noteq> CreateEphemeral lk v False" "\<And>lk v. call \<noteq> DelKey lk v"
    and "cluster_wf E c"
  shows "c_calls c' = c_calls c" "c_node c' = c_node c" "z_ended c' = z_ended c" "lock E c' = lock E c"
    "distinct (map fst (z_nodes c'))"
    "elector_answer (k, a) \<longrightarrow> elector_cont k" "\<not> leader_answer (k, a)"
proof -
  have d: "distinct (map fst (z_nodes c))" using assms(5) by (simp add: cluster_wf_def)
  have "c_calls c' = c_calls c \<and> c_node c' = c_node c \<and> z_ended c' = z_ended c \<and>
    lock E c' = lock E c \<and> distinct (map fst (z_nodes c')) \<and>
    (elector_answer (k, a) \<longrightarrow> elector_cont k) \<and> \<not> leader_answer (k, a)"
  proof (cases call)
    case (CreateEphemeral p v seq)
    with assms(2,3) obtain i where p: "seq" "k = KMemberRoot" "p = e_group E @ ''/'' @ i @ '':''"
      by (cases seq) auto
    let ?c = "c\<lparr>z_sequence := z_sequence c + 1\<rparr>"
    have cr: "z_create (p @ e_suffix E (z_sequence c)) v s ?c = (c', a)"
      using assms(1) CreateEphemeral p(1) by simp
    have "p @ e_suffix E (z_sequence c) \<noteq> group_lock E"
      using member_path by (simp add: p(3) group_lock_def)
    then show ?thesis
      using create_views(1,2) [OF cr] create_views(3) [OF cr, of E] d p(2) by (simp add: lock_def)
  qed (use assms d in \<open>auto split: if_splits simp: lock_def\<close>)
  then show "c_calls c' = c_calls c" "c_node c' = c_node c" "z_ended c' = z_ended c" "lock E c' = lock E c"
    "distinct (map fst (z_nodes c'))"
    "elector_answer (k, a) \<longrightarrow> elector_cont k" "\<not> leader_answer (k, a)" by simp_all
qed

lemma free_lock:
  assumes "cluster_ok E c" and "lock E c = None"
  shows "tokens c s = 0" "claims c s = 0"
  using no_tokens [OF ok_session [OF assms(1)], of s] assms(2) by simp_all

text \<open>The lock is created: it was free, so there were no tokens, and its owner gets the only one.\<close>

lemma lock_created:
  assumes ok: "cluster_ok E c" and calls: "c_calls c s = (CreateEphemeral p v False, k) # rest"
    and free: "lock E c = None"
    and run: "z_create p v s (pop_call s rest c) = (c1, a)" and a': "a' = a \<or> a' = TextAnswer (Inl e)"
  shows "cluster_ok E (z_answer s (k, a') c1)"
proof -
  from ok calls have "call_ok (e_group E) (CreateEphemeral p v False, k)"
    unfolding cluster_ok_def cluster_wf_def by (metis list.pred_inject(2))
  then have k: "p = group_lock E"
    "k = KElectorLock \<and> v = PB_LOCKTYPE_ELECTOR \<or> (\<exists>fms. k = KLeaderLock fms) \<and> v = PB_LOCKTYPE_LEADER"
    by simp_all
  note views = create_views [OF run]
  have "cluster_wf E (pop_call s rest c)" using ok calls by (auto simp: cluster_ok_def intro: pop_wf)
  moreover have "distinct (map fst (z_nodes (pop_call s rest c)))"
    using ok by (simp add: cluster_ok_def cluster_wf_def)
  ultimately have wf: "cluster_wf E c1"
    using views same_tokens(4) [of c1 "pop_call s rest c"] by blast
  have t: "tokens c1 s' = 0" "claims c1 s' = 0" for s'
    using pop_tokens [OF calls, of s'] free_lock [OF ok free] views
      same_tokens(1,2) [of c1 "pop_call s rest c"] by auto
  have "lock E c1 = Some (v, s)" using views(3) [of E] free k(1) by simp
  with t k a' have "session_ok E (z_answer s (k, a') c1) s'" for s'
    by (cases "s' = s"; cases a' rule: coord_answer.exhaust)
      (auto simp: session_ok_def answer_tokens answer_views)
  with wf show ?thesis by (simp add: cluster_ok_def answer_views)
qed

text \<open>The lock is deleted: by the holder of the only token, which it gives up.\<close>

lemma lock_deleted:
  assumes ok: "cluster_ok E c" and calls: "c_calls c s = (DelKey p v, k) # rest"
    and run: "z_execute E s (DelKey p v) (pop_call s rest c) = (c1, a)" and e: "\<not> z_ended c s"
    and a': "a' = a \<or> a' = UnitAnswer (Inl e)"
  shows "cluster_ok E (z_answer s (k, a') c1)"
proof -
  from ok calls have "call_ok (e_group E) (DelKey p v, k)"
    unfolding cluster_ok_def cluster_wf_def by (metis list.pred_inject(2))
  then obtain fms where k: "p = group_lock E" "k = KRemoveLock fms" by auto
  have t: "tokens (pop_call s rest c) s' + (if s' = s then 1 else 0) = tokens c s'" for s'
    using pop_tokens [OF calls, of s'] k e by simp
  have lk: "lock E c = Some (PB_LOCKTYPE_ELECTOR, s)"
    using ok_session [OF ok, of s] t [of s] by (simp add: session_ok_def)
  then have t0: "tokens (pop_call s rest c) s' = 0" "claims c s' = 0" for s'
    using ok_session [OF ok, of s'] t [of s']
    by (auto simp: session_ok_def PB_LOCKTYPE_ELECTOR_def PB_LOCKTYPE_LEADER_def split: if_splits)
  have c1: "c1 = (pop_call s rest c)\<lparr>z_nodes := filter (\<lambda>n. fst n \<noteq> p) (z_nodes c)\<rparr>"
    using run lk k(1) by (auto simp: lock_def split: if_splits)
  have "cluster_wf E (pop_call s rest c)" using ok calls by (auto simp: cluster_ok_def intro: pop_wf)
  moreover have "distinct (map fst (filter (\<lambda>n. fst n \<noteq> p) (z_nodes c)))"
    using ok by (simp add: cluster_ok_def cluster_wf_def distinct_map_filter)
  ultimately have wf: "cluster_wf E c1"
    using same_tokens(4) [of c1 "pop_call s rest c"] by (simp add: c1)
  have "tokens c1 s' = 0" "claims c1 s' = 0" for s'
    using t0 same_tokens(1,2) [of c1 "pop_call s rest c"] by (simp_all add: c1)
  with k(2) have "session_ok E (z_answer s (k, a') c1) s'" for s'
    by (intro session_ok_free) (simp_all add: answer_tokens)
  with wf show ?thesis by (simp add: cluster_ok_def answer_views)
qed

lemma taken_lock_refused:
  assumes "call_ok (e_group E) (CreateEphemeral p v False, k)" and "lock E c \<noteq> None"
    and "z_create p v s (pop_call s rest c) = (c1, a)"
  shows "c1 = pop_call s rest c" and "\<exists>e. a = TextAnswer (Inl e)"
  using assms by (auto simp: z_create_def lock_def)

lemma execute_step:
  assumes ok: "cluster_ok E c" and run: "execute_call E s executed reported c = Some c'"
  shows "cluster_ok E c'"
proof -
  from run obtain call k rest c1 a where calls: "c_calls c s = (call, k) # rest"
    and ex: "(c1, a) = (if executed \<and> \<not> z_ended c s then z_execute E s call (pop_call s rest c)
                        else (pop_call s rest c, z_failure call))"
    and c': "c' = z_answer s (k, if reported then a else z_failure call) c1"
    by (auto simp: execute_call_def pop_call_def [symmetric] Let_def split: list.splits prod.splits)
  from ok calls have call: "call_ok (e_group E) (call, k)"
    unfolding cluster_ok_def cluster_wf_def by (metis list.pred_inject(2))
  have wf: "cluster_wf E (pop_call s rest c)" using ok calls by (auto simp: cluster_ok_def intro: pop_wf)
  note quiet = harmless_answer [OF ok calls]
  show ?thesis
  proof (cases "executed \<and> \<not> z_ended c s")
    case False
    with ex have "c1 = pop_call s rest c" "a = z_failure call" by simp_all
    with quiet [OF wf] failure_no_token [OF call] show ?thesis by (simp add: c')
  next
    case True
    with ex have ex: "z_execute E s call (pop_call s rest c) = (c1, a)" by simp
    consider (del) p v where "call = DelKey p v" | (lock) p v where "call = CreateEphemeral p v False"
      | (other) "\<And>p v. call \<noteq> CreateEphemeral p v False" "\<And>p v. call \<noteq> DelKey p v" by blast
    then show ?thesis
    proof cases
      case del
      with lock_deleted [OF ok, of s p v k rest c1 a] calls ex True show ?thesis by (auto simp: c')
    next
      case lock
      with ex have cr: "z_create p v s (pop_call s rest c) = (c1, a)" by simp
      show ?thesis
      proof (cases "lock E c = None")
        case True
        with lock_created [OF ok, of s p v k rest c1 a] calls cr lock show ?thesis by (auto simp: c')
      next
        case False
        have "cluster_ok E (z_answer s (k, TextAnswer (Inl x)) (pop_call s rest c))" for x
          using call lock by (intro quiet [OF wf]) auto
        with taken_lock_refused [OF call [unfolded lock] False cr] show ?thesis by (auto simp: c' lock)
      qed
    next
      case other
      note h = execute_harmless [OF ex call other wf]
      note st = same_tokens [OF h(1-3)]
      from quiet [OF st(4) [OF h(5) wf]] show ?thesis
        using h(4,6,7) st failure_no_token [OF call] by (auto simp: c')
    qed
  qed
qed

end
