(* ===== verification/Cluster_Safety.thy ===== *)
theory Cluster_Safety
  imports Cluster_Invariant Cluster_Runs
begin

section \<open>At most one leader\<close>

text \<open>
  Every action keeps the invariant of \<open>Cluster_Invariant\<close> as long as sessions end only after
  their processes; what follows for the reachable states of a group.
\<close>

subsection \<open>Sessions begin and end\<close>

lemma lookup_remaining:
  "distinct (map fst nodes) \<Longrightarrow> map_of (filter keep nodes) path =
     Option.bind (map_of nodes path) (\<lambda>entry. if keep (path, entry) then Some entry else None)"
  by (induction nodes) (auto simp: map_of_eq_None_iff dest: map_of_SomeD split: Option.bind_splits)

lemma session_ends_step:
  assumes ok: "cluster_ok E c" and dead: "\<not> live s c" and old: "snd s \<le> n_incarnation (c_node c (fst s))"
  shows "cluster_ok E (z_session_ends s c)" (is "cluster_ok E ?c'")
proof -
  have d: "distinct (map fst (z_nodes c))" using ok by (simp add: cluster_ok_def cluster_wf_def)
  have live: "live s' ?c' = live s' c" for s' by (simp add: z_session_ends_def node_defs)
  have t: "tokens ?c' s' = (if s' = s then 0 else tokens c s')" for s'
    using dead unfolding tokens_def live by (simp add: z_session_ends_def)
  have cl: "claims ?c' s' = claims c s'" for s'
    unfolding claims_def live by (simp add: z_session_ends_def)
  have lk: "lock E ?c' = (case lock E c of None \<Rightarrow> None
      | Some (v, s') \<Rightarrow> if s' = s then None else Some (v, s'))"
    by (simp add: lock_def z_session_ends_def lookup_remaining [OF d] split: option.splits)
  have "session_ok E ?c' s'" for s'
  proof (cases "s' = s")
    case True
    with dead show ?thesis by (intro session_ok_free) (simp_all add: t cl claims_def live)
  next
    case False
    with ok_session [OF ok, of s'] show ?thesis by (auto simp: session_ok_def t cl lk)
  qed
  moreover have "cluster_wf E ?c'"
    unfolding cluster_wf_def live
  proof (intro conjI)
    show "\<forall>s'. n_incarnation (c_node ?c' (fst s')) < snd s' \<longrightarrow> c_calls ?c' s' = [] \<and> \<not> z_ended ?c' s'"
      using ok old by (auto simp: cluster_ok_def cluster_wf_def z_session_ends_def)
    show "\<forall>s'. live s' c \<longrightarrow> \<not> z_ended ?c' s'"
      using ok dead by (auto simp: cluster_ok_def cluster_wf_def z_session_ends_def)
  qed (use ok in \<open>simp_all add: cluster_ok_def cluster_wf_def z_session_ends_def distinct_map_filter
      up_def member_def\<close>)
  ultimately show ?thesis by (simp add: cluster_ok_def)
qed

lemma start_step:
  assumes ok: "cluster_ok E c" and down: "\<not> up i c"
  shows "cluster_ok E (start_member E i v p c)"
proof -
  let ?r = "switchState FOLLOWER_WAIT_TO_JOIN_GROUP (fresh_member E i v p (vr_db (member i c)))"
  let ?es = "[Coord (GetChildren (e_group E) True) KNone,
       Coord (CreateEphemeral (e_group E @ ''/'' @ i @ '':'') i True) KMemberRoot]"
  define c1 where "c1 = on_node i (\<lambda>n. \<lparr>n_up = True, n_incarnation = n_incarnation n + 1,
    n_replica = ?r, n_answers = [], n_ballots = [], n_timers = 0\<rparr>) c"
  have start: "start_member E i v p c = issue i ?es c1"
    by (simp add: start_member_def PBMember_init_fresh c1_def)
  have up1: "up i c1" by (simp add: c1_def node_defs)
  have new: "session_of i c1 = (i, n_incarnation (c_node c i) + 1)" by (simp add: c1_def node_defs)
  have live: "live s c1 \<longleftrightarrow> live s c \<or> s = session_of i c1" for s
    using down by (cases s) (auto simp: c1_def node_defs)
  have fresh: "c_calls c (session_of i c1) = []" "\<not> z_ended c (session_of i c1)"
    using ok by (simp_all add: cluster_ok_def cluster_wf_def new)
  have nt: "node_tokens (c_node c1 i) = 0" "node_claims (c_node c1 i) = 0"
    by (simp_all add: c1_def on_node_def node_tokens_def node_claims_def budget_defs)
  have t: "tokens c1 s \<le> tokens c s" "claims c1 s \<le> claims c s" for s
    using nt down by (auto simp: tokens_def claims_def live new)
      (auto simp: c1_def node_defs)
  have "cluster_wf E c1"
    using ok fresh unfolding cluster_ok_def cluster_wf_def live
    by (auto simp: c1_def node_defs fresh_member_def PBMember_new_def PBMember.extend_def switchState_def)
  moreover have "lock E c1 = lock E c" by (simp add: c1_def lock_def on_node_def)
  ultimately have ok1: "cluster_ok E c1" by (rule cluster_ok_shrink [OF ok _ _ t])
  have e: "\<not> z_ended c1 (session_of i c1)" using fresh by (simp add: c1_def on_node_def)
  have "cluster_wf E (issue i ?es c1)"
    using ok1 up1 by (intro issue_wf) (auto simp: cluster_ok_def)
  then show ?thesis
    unfolding start
    by (rule cluster_ok_shrink [OF ok1]) (simp_all only: issue_views issue_tokens [OF up1 e], simp_all)
qed

subsection \<open>Every action keeps the invariant\<close>

lemma count_votes_step:
  assumes ok: "cluster_ok E c" and run: "count_votes i now c = Some c'"
  shows "cluster_ok E c'"
proof -
  from run obtain b bs where b: "n_ballots (c_node c i) = b # bs" "up i c"
    and c': "c' = settle i
      (Ok (electionDone now (map (\<lambda>x. the (map_of (bt_tries b) x)) (bt_members b)) (member i c)))
      (on_node i (\<lambda>n. n\<lparr>n_ballots := bs\<rparr>) c)"
    by (auto simp: count_votes_def split: list.splits if_splits)
  show ?thesis
    unfolding c'
    by (rule settle_step [OF ok b(2), where t = 1 and l = 0])
      (use b in \<open>auto simp: up_def member_def node_tokens_def node_claims_def
         dest: within_budget_ops(6)\<close>)
qed

lemma handle_answer_step:
  assumes ok: "cluster_ok E c" and run: "handle_answer E i now c = Some c'"
  shows "cluster_ok E c'"
proof -
  from run obtain k a rest where a: "n_answers (c_node c i) = (k, a) # rest" "up i c"
    and c': "c' = settle i (answered E now k a (member i c)) (on_node i (\<lambda>n. n\<lparr>n_answers := rest\<rparr>) c)"
    by (auto simp: handle_answer_def split: list.splits if_splits)
  show ?thesis
    unfolding c'
    by (rule settle_step [OF ok a(2), where t = "if elector_answer (k, a) then 1 else 0"
          and l = "if leader_answer (k, a) then 1 else 0"])
      (use a in \<open>auto simp: up_def member_def node_tokens_def node_claims_def dest: answered_budget\<close>)
qed

lemma id_step:
  assumes "cluster_ok E c" and "up i c" and "\<And>r' effs. out = Ok (r', effs) \<Longrightarrow> within_budget (member i c) 0 0 r' effs"
  shows "cluster_ok E (settle i out c)"
proof -
  have "on_node i (\<lambda>n. n) c = c" by (simp add: on_node_def)
  with settle_step [of E c i "\<lambda>n. n" 0 0 out] assms show ?thesis by (simp add: up_def member_def)
qed

lemma settled_step:
  assumes "cluster_ok E c" and "up i c" and "within_budget (member i c) 0 0 r' effs"
  shows "cluster_ok E (settle i (Ok (r', effs)) c)"
  using assms by (auto intro: id_step)

lemma put_step:
  assumes "cluster_ok E c" and "up i c" and "within_budget (member i c) 0 0 r' []"
  shows "cluster_ok E (put_member i r' c)"
  using id_step [OF assms(1,2), of "Ok (r', [])"] assms(3) by (simp add: settle_def)

lemma receive_step:
  assumes ok: "cluster_ok E c" and run: "receive_mail n c = Some c'"
  shows "cluster_ok E c'"
proof -
  from run obtain l bl where "up l c"
    and c': "c' = settle l (handleBecomeLeaderMsg bl (member l c)) (c\<lparr>c_mail := remove_nth n (c_mail c)\<rparr>)"
    by (auto simp: receive_mail_def split: if_splits prod.splits)
  with ok show ?thesis
    by (auto simp: up_def member_def intro!: id_step dest: within_budget_ops(8))
qed

lemma client_write_step:
  assumes ok: "cluster_ok E c" and run: "client_write E i msg c = Some c'"
  shows "cluster_ok E c'"
  using run ok
  by (auto simp: client_write_def split: if_splits outcome.splits sum.splits prod.splits
      intro: stop_step put_step [OF _ _ write_budget(1)])

lemma answer_request_ok [simp]: "cluster_ok E (answer_request k n res c) = cluster_ok E c"
  by (simp add: answer_request_def Let_def)

lemma peer_write_step:
  assumes ok: "cluster_ok E c" and run: "peer_write E k n c = Some c'"
  shows "cluster_ok E c'"
  using run ok
  by (auto simp: peer_write_def split: if_splits outcome.splits prod.splits
      intro: stop_step settled_step [OF _ _ write_budget(2)])

lemma answered_write_step:
  assumes "cluster_ok E c" and "live s c" and "writePeerDone p res ctx (member (fst s) c) = Ok (ctx', r)"
  shows "cluster_ok E (put_member (fst s) r c)"
  using put_step [OF assms(1) live_up [OF assms(2)] write_budget(3) [OF assms(3)]] .

lemma peer_answer_step:
  assumes ok: "cluster_ok E c" and run: "peer_answer k c = Some c'"
  shows "cluster_ok E c'"
  using run ok
  by (auto simp: peer_answer_def Let_def split: if_splits outcome.splits prod.splits
      intro: stop_step answered_write_step)

lemma add_try_step:
  assumes ok: "cluster_ok E c" and run: "add_try i x t c = Some c'"
  shows "cluster_ok E c'"
proof -
  from run obtain b bs where b: "n_ballots (c_node c i) = b # bs" "up i c"
    and c': "c' = on_node i (\<lambda>n. n\<lparr>n_ballots := b\<lparr>bt_tries := (x, t) # bt_tries b\<rparr> # bs\<rparr>) c"
    by (auto simp: add_try_def split: list.splits if_splits)
  show ?thesis
    unfolding c'
    by (rule node_step [OF ok b(2)])
      (use b in \<open>simp_all add: member_def up_def node_tokens_def node_claims_def\<close>)
qed

lemma vote_step:
  "cluster_ok E c \<Longrightarrow> vote i x c = Some c' \<Longrightarrow> cluster_ok E c'"
  by (auto simp: vote_def split: list.splits if_splits outcome.splits intro: add_try_step)

lemma watch_step:
  assumes "cluster_ok E c" and "up i c"
  shows "cluster_ok E (issue i (watchCb (member i c)) c)"
proof -
  have "put_member i (member i c) c = c" by (simp add: put_member_def on_node_def member_def)
  with settled_step [OF assms watchCb_budget]
  show ?thesis by (simp add: settle_def)
qed

lemma timer_step:
  assumes "cluster_ok E c" and "up i c"
  shows "cluster_ok E (issue i (watchCb (member i c)) (on_node i (\<lambda>n. n\<lparr>n_timers := t n\<rparr>) c))"
proof -
  let ?c1 = "on_node i (\<lambda>n. n\<lparr>n_timers := t n\<rparr>) c"
  have "cluster_ok E ?c1"
    by (rule node_step [OF assms])
      (use assms(2) in \<open>simp_all add: member_def up_def node_tokens_def node_claims_def\<close>)
  from watch_step [OF this, of i] show ?thesis
    using assms(2) by (simp add: up_def member_def on_node_def)
qed

interpretation ok_actions: action_laws E "cluster_ok E" "\<lambda>c c'. \<not> e_expiry E \<longrightarrow> cluster_ok E c'" for E
proof (unfold_locales; intro impI)
qed (simp add: session_ends_step; fail | (rule start_step watch_step timer_step execute_step
      handle_answer_step vote_step add_try_step count_votes_step receive_step client_write_step
      peer_write_step peer_answer_step stop_step; assumption))+

lemma cluster_do_ok:
  "cluster_ok E c \<Longrightarrow> cluster_do E a c = Some c' \<Longrightarrow> \<not> e_expiry E \<Longrightarrow> cluster_ok E c'"
  using ok_actions.every_action by blast

lemma cluster_start_ok: "cluster_ok E (cluster_start E dbs)"
  by (simp add: cluster_ok_def cluster_wf_def session_ok_def tokens_def claims_def cluster_start_def
      node_defs)

interpretation clusterI: inv_system "cluster_init E" "\<lambda>c c'. \<not> e_expiry E \<and> cluster_step E c c'" "cluster_ok E"
  for E
  by unfold_locales (auto simp: cluster_init_def cluster_step_def cluster_start_ok intro: cluster_do_ok)

lemma reachable_ok:
  assumes "\<not> e_expiry E" and "reachable_cluster E c"
  shows "cluster_ok E c"
proof -
  from assms(2) obtain as dbs where "cluster_run E as (cluster_start E dbs) = Some c"
    by (auto simp: reachable_cluster_def)
  then have "(\<lambda>c c'. \<not> e_expiry E \<and> cluster_step E c c')\<^sup>*\<^sup>* (cluster_start E dbs) c"
    using assms(1) cluster_run_steps by simp
  then show ?thesis by (rule clusterI.steps_inv) (rule cluster_start_ok)
qed

subsection \<open>The properties\<close>

text \<open>
  C1. As long as sessions end only after their processes, there is never more than one leader:
  in every state the group can reach, whatever is delayed, lost, reordered or stopped, a running
  member that is in a leader state owns the lock node, which says so; no second running member
  is in a leader state; and nobody holds or is about to conduct an election meanwhile.
\<close>

theorem at_most_one_leader:
  assumes "\<not> e_expiry E" and "reachable_cluster E c"
    and "up i c" and "isLeaderState (member i c)"
  shows "lock E c = Some (PB_LOCKTYPE_LEADER, session_of i c) \<and>
    (up j c \<and> isLeaderState (member j c) \<longrightarrow> j = i) \<and>
    (up j c \<longrightarrow> mstate (member j c) \<noteq> EC_WAITING_FOR_QUORUM \<and> n_ballots (c_node c j) = [])"
proof -
  have ok: "session_ok E c s" for s using ok_session [OF reachable_ok [OF assms(1,2)]] .
  have cl: "0 < claims c (session_of k c)" if "up k c" "isLeaderState (member k c)" for k
    using that by (simp add: claims_def node_claims_def leader_token_def live_def session_of_def up_def member_def)
  have lk: "lock E c = Some (PB_LOCKTYPE_LEADER, session_of k c)" if "up k c" "isLeaderState (member k c)" for k
    using ok cl [OF that] unfolding session_ok_def by blast
  have "j = i" if "up j c" "isLeaderState (member j c)"
    using lk [OF assms(3,4)] lk [OF that] by (simp add: session_of_def)
  moreover have "tokens c (session_of j c) = 0"
    using no_tokens(1) [OF ok] lk [OF assms(3,4)]
    by (simp add: PB_LOCKTYPE_LEADER_def PB_LOCKTYPE_ELECTOR_def)
  ultimately show ?thesis
    using lk [OF assms(3,4)]
    by (auto simp: tokens_def node_tokens_def state_token_def live_def session_of_def up_def member_def)
qed

theorem at_most_one_leader_witness:
  "lock (trio False) after_election = Some (PB_LOCKTYPE_LEADER, session_of ''b'' after_election) \<and>
   mstate (member ''c'' after_election) \<noteq> EC_WAITING_FOR_QUORUM"
proof -
  have "isLeaderState (member ''b'' after_election)"
    using after_election(3) by (simp add: isLeaderState_def state_order)
  moreover have "\<not> e_expiry (trio False)" by (simp add: trio_def)
  moreover have "up ''c'' after_election"
    using after_election_view after_election(1) by (auto simp: role_of_def)
  ultimately show ?thesis
    using at_most_one_leader [OF _ after_election_reachable after_election(2), of "''c''"] by blast
qed

end
