(* ===== verification/Cluster_Writes.thy ===== *)
theory Cluster_Writes
  imports Cluster_Invariant Cluster_Runs
begin

section \<open>Acknowledged writes\<close>

text \<open>
  What the acknowledgement of a write is worth. Each write is followed through its requests, the
  answers of the peers and the leader's count: every success the leader has counted is that of a
  process that has the record in its journal, and journals only grow while a process runs. Two
  writes acknowledged under one commit id would need a common member, so they are the same write
  - whatever happens to sessions and leaders, but only as long as the processes that stored them
  are not restarted, since a journal is in memory.
\<close>

subsection \<open>Members keep who they are, and their journals grow\<close>

definition grows :: "'db VolumeReplica \<Rightarrow> 'db VolumeReplica \<Rightarrow> bool" where
  "grows r r' \<longleftrightarrow> quorum r' = quorum r \<and> memberIds r' = memberIds r \<and> myId r' = myId r \<and>
     set (vr_journal r) \<subseteq> set (vr_journal r') \<and> (replica_ok r \<longrightarrow> replica_ok r')"

lemma grows_refl [simp]: "grows r r"
  by (simp add: grows_def)

lemma quiet_grows: "quiet r r' \<Longrightarrow> grows r r'"
  using quiet_replica_ok [of r r'] by (auto simp: quiet_def grows_def)

lemma leaderLockDone_grows:
  fixes r r' :: "'db VolumeReplica"
  assumes "leaderLockDone fms a r = Ok (r', effs)"
  shows "grows r r'"
  using assms leaderLockDone_replica_ok [OF assms]
  by (auto simp: grows_def leaderLockDone_def handleError_def Let_def switchState_def split: sum.splits)

lemma metadata_write_grows:
  fixes r r' :: "'db VolumeReplica"
  assumes "handleMetadataWrite R msg buffer r = Ok (r', x)"
  shows "grows r r'"
  using assms handleMetadataWrite_replica_ok [OF assms]
  by (auto simp: grows_def handleMetadataWrite_eq split: if_splits option.splits)

lemma update_grows:
  fixes r r' :: "'db VolumeReplica"
  assumes "updateBlobMeta R ser msg r = Ok (r', x)"
  shows "grows r r'"
proof -
  have "set (vr_journal r) \<subseteq> set (vr_journal r')"
  proof (cases "mstate r = LEADER_FUNCTIONAL \<and> leaderCtx r \<noteq> None")
    case False
    with assms show ?thesis
      by (auto simp: updateBlobMeta_def groupWriteInEb_def split: if_splits)
  next
    case True
    then obtain lc where "leaderCtx r = Some lc" by blast
    from assms [unfolded updateBlobMeta_eq [OF conjunct1 [OF True] this]] show ?thesis
      by (auto simp: Let_def split: if_splits option.splits)
  qed
  then show ?thesis
    using update_role [OF assms] updateBlobMeta_replica_ok [OF assms] by (simp add: grows_def same_role_def)
qed

lemma peer_answer_grows:
  fixes r r' :: "'db VolumeReplica"
  assumes "writePeerDone p y w r = Ok (w', r')"
  shows "grows r r'"
  using assms
proof (rule peer_answer_changes)
  fix v
  assume ch: "changePeerState (p_id p) v FOLLOWER_WAIT_TO_JOIN_GROUP r = Ok r'"
  show "grows r r'"
    using changePeerState_keeps [OF ch] changePeerState_replica_ok [OF ch] same_more_journal [of r' r]
    by (simp add: grows_def)
qed simp

lemma writeTable_grows:
  fixes r r' :: "'db VolumeReplica"
  assumes "handleKVBMessage (writeTable R parse serResp) kvb r = Ok (r', effs, x)"
  shows "grows r r'"
  using assms
  by (auto simp: handleKVBMessage_def writeTable_def registerKVBMessageHandler_def metadataHandler_def
      kvbHandler_def obind_Ok_iff split: option.splits if_splits intro: metadata_write_grows)

lemma answered_grows:
  assumes "answered E now k a r = Ok (r', effs)"
  shows "grows r r'"
  using assms
  by (cases "(E, now, k, a, r)" rule: answered.cases)
    (auto intro: leaderLockDone_grows quiet_grows dest: quiet_ops)

subsection \<open>The members of a running group\<close>

definition identity :: "'db env \<Rightarrow> string \<Rightarrow> 'db VolumeReplica \<Rightarrow> bool" where
  "identity E i r \<longleftrightarrow> replica_ok r \<and> quorum r = e_quorum E \<and> memberIds r = e_members E \<and> myId r = i"

definition members_ok :: "'db env \<Rightarrow> 'db cluster \<Rightarrow> bool" where
  "members_ok E c \<longleftrightarrow> (\<forall>i. identity E i (member i c) \<and> (up i c \<longrightarrow> i \<in> set (e_members E)))"

text \<open>
  Processes only get newer, the journal of a process only grows, and one that has stopped does
  not run again.
\<close>

definition later :: "'db cluster \<Rightarrow> 'db cluster \<Rightarrow> bool" where
  "later c c' \<longleftrightarrow> (\<forall>i. n_incarnation (c_node c i) \<le> n_incarnation (c_node c' i) \<and>
     (session_of i c' = session_of i c \<longrightarrow>
        set (vr_journal (member i c)) \<subseteq> set (vr_journal (member i c')) \<and> (up i c' \<longrightarrow> up i c)))"

definition proceeds :: "'db env \<Rightarrow> 'db cluster \<Rightarrow> 'db cluster \<Rightarrow> bool" where
  "proceeds E c c' \<longleftrightarrow> members_ok E c' \<and> later c c'"

lemma grows_identity: "grows r r' \<Longrightarrow> identity E i r \<Longrightarrow> identity E i r'"
  by (simp add: grows_def identity_def)

lemma proceeds_same:
  assumes "members_ok E c"
    and "\<And>i. n_incarnation (c_node c' i) = n_incarnation (c_node c i)"
    and "\<And>i. grows (member i c) (member i c')" and "\<And>i. up i c' \<Longrightarrow> up i c"
  shows "proceeds E c c'"
  using assms by (auto simp: proceeds_def members_ok_def later_def grows_def identity_def)

lemma settle_proceeds:
  assumes "members_ok E c" and "up i c"
    and f: "n_up (f (c_node c i))" "n_incarnation (f (c_node c i)) = n_incarnation (c_node c i)"
      "n_replica (f (c_node c i)) = member i c"
    and "\<And>r effs. out = Ok (r, effs) \<Longrightarrow> grows (member i c) r"
  shows "proceeds E c (settle i out (on_node i f c))"
  by (rule proceeds_same [OF assms(1)])
    (use assms in \<open>auto simp: settle_def put_member_def stop_member_def node_defs split: outcome.splits if_splits\<close>)

lemma id_proceeds:
  assumes "members_ok E c" and "up i c" and "\<And>r effs. out = Ok (r, effs) \<Longrightarrow> grows (member i c) r"
  shows "proceeds E c (settle i out c)"
  using settle_proceeds [of E c i "\<lambda>n. n" out] assms by (simp add: on_node_def up_def member_def)

lemma frame_proceeds:
  assumes "members_ok E c" and "c_node c' = c_node c"
  shows "proceeds E c c'"
  using assms by (intro proceeds_same) (simp_all add: member_def up_def)

lemma stop_proceeds: "members_ok E c \<Longrightarrow> proceeds E c (stop_member i c)"
  by (rule proceeds_same) (auto simp: stop_member_def node_defs split: if_splits)

lemma put_proceeds: "members_ok E c \<Longrightarrow> grows (member i c) r \<Longrightarrow> proceeds E c (put_member i r c)"
  by (rule proceeds_same) (auto simp: put_member_def node_defs split: if_splits)

lemma proceeds_writes [simp]: "proceeds E c (c'\<lparr>c_writes := w\<rparr>) = proceeds E c c'"
  by (simp add: proceeds_def members_ok_def later_def node_defs)

lemma start_proceeds:
  assumes "members_ok E c" and "i \<in> set (e_members E)"
  shows "proceeds E c (start_member E i v p c)"
proof -
  let ?r = "switchState FOLLOWER_WAIT_TO_JOIN_GROUP (fresh_member E i v p (vr_db (member i c)))"
  have "identity E i ?r"
    by (simp add: identity_def replica_ok_def fresh_member_def PBMember_new_def PBMember.extend_def
        switchState_def isLeaderState_def state_order)
  moreover have "member j (start_member E i v p c) = (if j = i then ?r else member j c)"
    "up j (start_member E i v p c) \<longleftrightarrow> j = i \<or> up j c"
    "n_incarnation (c_node (start_member E i v p c) j) =
       (if j = i then n_incarnation (c_node c i) + 1 else n_incarnation (c_node c j))" for j
    by (simp_all add: start_member_def PBMember_init_fresh node_defs Let_def del: issue_simps)
  ultimately show ?thesis
    using assms by (auto simp: proceeds_def members_ok_def later_def session_of_def)
qed

lemma execute_proceeds:
  assumes "members_ok E c" and "execute_call E s executed reported c = Some c'"
  shows "proceeds E c c'" and "c_writes c' = c_writes c"
proof -
  have create: "c_node (fst (z_create path v s c1)) = c_node c1"
    "c_writes (fst (z_create path v s c1)) = c_writes c1" for path v s and c1 :: "'a cluster"
    by (simp_all add: z_create_def)
  have ex: "c_node (fst (z_execute E s call c1)) = c_node c1 \<and>
      c_writes (fst (z_execute E s call c1)) = c_writes c1" for call and c1 :: "'a cluster"
    by (cases call) (simp_all add: create)
  from assms(2) obtain call k rest where calls: "c_calls c s = (call, k) # rest"
    by (auto simp: execute_call_def split: list.splits)
  let ?p = "if executed \<and> \<not> z_ended c s then z_execute E s call (pop_call s rest c)
            else (pop_call s rest c, z_failure call)"
  have c': "c' = z_answer s (k, if reported then snd ?p else z_failure call) (fst ?p)"
    using assms(2) by (auto simp: execute_call_def pop_call_def calls Let_def case_prod_beta)
  show "c_writes c' = c_writes c"
    unfolding c' using ex by (auto simp: z_answer_def pop_call_def on_node_def)
  show "proceeds E c c'"
    unfolding c' using ex
    by (intro proceeds_same [OF assms(1)]) (auto simp: z_answer_def pop_call_def node_defs split: if_splits)
qed

lemma add_try_proceeds:
  assumes "members_ok E c" and "add_try i x t c = Some c'"
  shows "proceeds E c c'" and "c_writes c' = c_writes c"
proof -
  from assms(2) obtain f where c': "c' = on_node i (\<lambda>n. n\<lparr>n_ballots := f\<rparr>) c"
    by (auto simp: add_try_def split: list.splits if_splits)
  show "proceeds E c c'" "c_writes c' = c_writes c"
    unfolding c' by (rule proceeds_same [OF assms(1)]) (auto simp: node_defs split: if_splits)
qed

lemma settle_writes [simp]: "c_writes (settle i out c) = c_writes c"
  by (auto simp: settle_def put_member_def stop_member_def on_node_def split: outcome.splits)

text \<open>The actions of elections leave the writes alone.\<close>

lemma vote_proceeds:
  assumes "members_ok E c" and "vote i x c = Some c'"
  shows "proceeds E c c'" and "c_writes c' = c_writes c"
  using assms by (auto simp: vote_def split: list.splits if_splits outcome.splits intro: add_try_proceeds)

lemma count_proceeds:
  assumes "members_ok E c" and "count_votes i now c = Some c'"
  shows "proceeds E c c'" and "c_writes c' = c_writes c"
proof -
  from assms(2) obtain tries bs where up: "up i c"
    and c': "c' = settle i (Ok (electionDone now tries (member i c))) (on_node i (\<lambda>n. n\<lparr>n_ballots := bs\<rparr>) c)"
    by (auto simp: count_votes_def split: list.splits if_splits)
  show "proceeds E c c'"
    unfolding c' using up
    by (intro settle_proceeds [OF assms(1) up]) (auto simp: up_def member_def intro: quiet_grows dest: quiet_ops(6))
  show "c_writes c' = c_writes c" by (simp add: c' on_node_def)
qed

lemma handle_proceeds:
  assumes "members_ok E c" and "handle_answer E i now c = Some c'"
  shows "proceeds E c c'" and "c_writes c' = c_writes c"
proof -
  from assms(2) obtain k a rest where up: "up i c"
    and c': "c' = settle i (answered E now k a (member i c)) (on_node i (\<lambda>n. n\<lparr>n_answers := rest\<rparr>) c)"
    by (auto simp: handle_answer_def split: list.splits if_splits)
  show "proceeds E c c'"
    unfolding c' using up
    by (intro settle_proceeds [OF assms(1) up]) (auto simp: up_def member_def intro: answered_grows)
  show "c_writes c' = c_writes c" by (simp add: c' on_node_def)
qed

lemma receive_proceeds:
  assumes "members_ok E c" and "receive_mail n c = Some c'"
  shows "proceeds E c c'" and "c_writes c' = c_writes c"
proof -
  from assms(2) obtain l bl where up: "up l c"
    and c': "c' = settle l (handleBecomeLeaderMsg bl (member l c)) (c\<lparr>c_mail := remove_nth n (c_mail c)\<rparr>)"
    by (auto simp: receive_mail_def split: if_splits prod.splits)
  let ?c1 = "c\<lparr>c_mail := remove_nth n (c_mail c)\<rparr>"
  have "members_ok E ?c1" "up l ?c1" "member l ?c1 = member l c"
    using assms(1) up by (simp_all add: members_ok_def node_defs)
  then have "proceeds E ?c1 c'"
    unfolding c' by (intro id_proceeds) (auto intro: quiet_grows dest: quiet_ops(8))
  then show "proceeds E c c'" by (simp add: proceeds_def later_def node_defs)
  show "c_writes c' = c_writes c" by (simp add: c')
qed

subsection \<open>The invariant of a write\<close>

text \<open>
  The process \<open>s\<close> has the record in its journal, unless the member has been restarted since.
\<close>

definition stored :: "'db cluster \<Rightarrow> session \<Rightarrow> JournalRecord \<Rightarrow> bool" where
  "stored c s rec \<longleftrightarrow> snd s \<le> n_incarnation (c_node c (fst s)) \<and>
     (s = session_of (fst s) c \<longrightarrow> rec \<in> set (vr_journal (member (fst s) c)))"

text \<open>The members a write involves: each of them once.\<close>

definition write_ids :: "open_write \<Rightarrow> string list" where
  "write_ids w = fst (ow_leader w) # map fst (ow_acked w) @ map (fst \<circ> fst) (ow_answers w) @
     map (p_id \<circ> fst) (ow_todo w)"

definition counted :: "'db env \<Rightarrow> open_write \<Rightarrow> bool" where
  "counted E w \<longleftrightarrow> w_nSuccess (ow_ctx w) = of_nat (length (ow_acked w)) \<and>
     (w_promise (ow_ctx w) = Some (Inr ()) \<longrightarrow> unat (e_quorum E - 1) \<le> length (ow_acked w))"

definition write_ok :: "'db env \<Rightarrow> 'db cluster \<Rightarrow> open_write \<Rightarrow> bool" where
  "write_ok E c w \<longleftrightarrow>
     distinct (write_ids w) \<and> set (write_ids w) \<subseteq> set (e_members E) \<and> counted E w \<and>
     stored c (ow_leader w) (ow_record w) \<and>
     (\<forall>s \<in> set (ow_acked w). stored c s (ow_record w)) \<and>
     (\<forall>x \<in> set (ow_answers w). \<not> isl (snd (snd x)) \<longrightarrow> stored c (fst x) (ow_record w)) \<and>
     (\<forall>x \<in> set (ow_todo w). snd x = peerRequest UPDATE_BLOB_META (jr_buf (ow_record w))) \<and>
     (\<exists>m. e_parse E (jr_buf (ow_record w)) = Some m \<and> record_of m (jr_buf (ow_record w)) = ow_record w)"

definition writes_ok :: "'db env \<Rightarrow> 'db cluster \<Rightarrow> bool" where
  "writes_ok E c \<longleftrightarrow> (\<forall>w \<in> set (c_writes c). write_ok E c w)"

lemma stored_later: "stored c s rec \<Longrightarrow> later c c' \<Longrightarrow> stored c' s rec"
proof -
  assume st: "stored c s rec" and la: "later c c'"
  have inc: "n_incarnation (c_node c (fst s)) \<le> n_incarnation (c_node c' (fst s))"
    using la by (simp add: later_def)
  have "rec \<in> set (vr_journal (member (fst s) c'))" if "s = session_of (fst s) c'"
  proof -
    have "snd s = n_incarnation (c_node c' (fst s))" using that by (metis session_of_def snd_conv)
    then have "session_of (fst s) c' = session_of (fst s) c"
      using st inc by (simp add: stored_def session_of_def)
    moreover from this la have "set (vr_journal (member (fst s) c)) \<subseteq> set (vr_journal (member (fst s) c'))"
      by (simp only: later_def)
    ultimately show ?thesis using st trans [OF that] unfolding stored_def by blast
  qed
  with st inc show ?thesis by (auto simp: stored_def)
qed

lemma write_ok_later: "write_ok E c w \<Longrightarrow> later c c' \<Longrightarrow> write_ok E c' w"
  unfolding write_ok_def by (blast intro: stored_later)

lemma write_ok_same [simp]: "write_ok E (c\<lparr>c_writes := ws\<rparr>) w = write_ok E c w"
  by (simp add: write_ok_def stored_def session_of_def member_def)

lemma same_writes_ok:
  assumes "writes_ok E c" and "proceeds E c c'" and "c_writes c' = c_writes c"
  shows "writes_ok E c'"
  using assms by (auto simp: writes_ok_def proceeds_def intro: write_ok_later)

lemma changed_write_ok:
  assumes "writes_ok E c" and "proceeds E c c'" and "c_writes c' = (c_writes c)[k := w]" and "write_ok E c' w"
  shows "writes_ok E c'"
  using assms set_update_subset_insert [of "c_writes c" k w]
  by (auto simp: writes_ok_def proceeds_def intro: write_ok_later)

subsection \<open>A write begins\<close>

lemma update_success:
  fixes r r' :: "'db VolumeReplica"
  assumes "updateBlobMeta R ser msg r = Ok (r', Inr (resp, w, sends))" and "replica_ok r"
  obtains lc m where "leaderCtx r = Some lc" "peers_known r"
    "vr_journal r' = vr_journal r @ [record_of m (ser m)]"
    "w_nSuccess w = 0" "w_promise w = None"
    "sends = map (\<lambda>p. (p, peerRequest UPDATE_BLOB_META (ser m))) (getWritablePeers (lc_peers lc))"
proof -
  have f: "mstate r = LEADER_FUNCTIONAL"
    using assms(1) by (auto simp: updateBlobMeta_def groupWriteInEb_def split: if_splits)
  then obtain lc where lc: "leaderCtx r = Some lc"
    using assms(2) leader_state_functional by (auto simp: replica_ok_def)
  from assms(1) [unfolded updateBlobMeta_eq [OF f lc]] lc that assms(2) show thesis
    by (auto simp: Let_def replica_ok_def split: if_splits option.splits)
qed

lemma new_write_ok:
  assumes ok: "members_ok E c" and up: "up i c" and d: "distinct (e_members E)"
    and codec: "\<And>m. e_parse E (e_ser E m) = Some m"
    and run: "updateBlobMeta (e_rocksdb E) (e_ser E) msg (member i c) = Ok (r, Inr (resp, w, sends))"
  shows "write_ok E (put_member i r c)
    \<lparr>ow_leader = session_of i c, ow_record = last (vr_journal r), ow_ctx = w, ow_todo = sends,
     ow_answers = [], ow_acked = []\<rparr>"
proof -
  have i: "replica_ok (member i c)" "memberIds (member i c) = e_members E" "myId (member i c) = i" "i \<in> set (e_members E)"
    using ok up by (simp_all add: members_ok_def identity_def)
  obtain lc m where lc: "leaderCtx (member i c) = Some lc" "peers_known (member i c)"
    "vr_journal r = vr_journal (member i c) @ [record_of m (e_ser E m)]"
    "w_nSuccess w = 0" "w_promise w = None"
    "sends = map (\<lambda>p. (p, peerRequest UPDATE_BLOB_META (e_ser E m))) (getWritablePeers (lc_peers lc))"
    using update_success [OF run i(1)] by metis
  have ids: "map p_id (lc_peers lc) = filter (\<lambda>j. j \<noteq> i) (e_members E)"
    using lc(1,2) i by (simp add: peers_known_def)
  have sub: "set (map p_id (getWritablePeers (lc_peers lc))) \<subseteq> set (e_members E) - {i}"
    using arg_cong [OF ids, of set] by (auto simp: getWritablePeers_def)
  have "distinct (map p_id (lc_peers lc))" using d by (simp add: ids)
  then have dist: "distinct (map p_id (getWritablePeers (lc_peers lc)))"
    by (simp add: getWritablePeers_def distinct_map_filter)
  have "map (p_id \<circ> fst) sends = map p_id (getWritablePeers (lc_peers lc))" by (simp add: lc(6))
  then show ?thesis
    using sub dist i(4) lc codec [of m]
    by (auto simp: write_ok_def write_ids_def counted_def stored_def session_of_def put_member_def
        on_node_def member_def record_of_def comp_def)
qed

lemma client_write_ok:
  assumes ok: "members_ok E c" "writes_ok E c" and d: "distinct (e_members E)"
    and codec: "\<And>m. e_parse E (e_ser E m) = Some m"
    and run: "client_write E i msg c = Some c'"
  shows "proceeds E c c' \<and> writes_ok E c'"
proof -
  have up: "up i c" using run by (simp add: client_write_def split: if_splits)
  let ?u = "updateBlobMeta (e_rocksdb E) (e_ser E) msg (member i c)"
  have put: "proceeds E c (put_member i r c)" if "?u = Ok (r, x)" for r x
    using put_proceeds [OF ok(1) update_grows [OF that]] .
  show ?thesis
  proof (cases ?u)
    case (Ok s)
    obtain r x where s: "s = (r, x)" by (cases s)
    note p = put [OF Ok [unfolded s]]
    show ?thesis
    proof (cases x)
      case (Inl e)
      with run up Ok s have "c' = put_member i r c" by (simp add: client_write_def)
      with p same_writes_ok [OF ok(2) p] show ?thesis by (simp add: put_member_def on_node_def)
    next
      case (Inr y)
      obtain resp w sends where y: "y = (resp, w, sends)" by (cases y)
      let ?w = "\<lparr>ow_leader = session_of i c, ow_record = last (vr_journal r), ow_ctx = w,
        ow_todo = sends, ow_answers = [], ow_acked = []\<rparr>"
      have c': "c' = (put_member i r c)\<lparr>c_writes := c_writes c @ [?w]\<rparr>"
        using run up Ok s Inr y by (simp add: client_write_def)
      have "write_ok E (put_member i r c) ?w"
        using new_write_ok [OF ok(1) up d codec] Ok s Inr y by blast
      moreover have "write_ok E (put_member i r c) w'" if "w' \<in> set (c_writes c)" for w'
        using ok(2) p that by (auto simp: writes_ok_def proceeds_def intro: write_ok_later)
      ultimately show ?thesis using p by (auto simp: c' writes_ok_def)
    qed
  next
    case (Throw e)
    with run up ok frame_proceeds [of E c c] show ?thesis by (simp add: client_write_def)
  next
    case Abort
    with run up have "c' = stop_member i c" by (simp add: client_write_def)
    with stop_proceeds [OF ok(1), of i] same_writes_ok [OF ok(2), of "stop_member i c"] show ?thesis
      by (simp add: stop_member_def on_node_def)
  qed
qed

subsection \<open>A peer answers\<close>

lemma mset_remove_nth:
  assumes "n < length xs"
  shows "mset xs = add_mset (xs ! n) (mset (remove_nth n xs))"
proof -
  have "xs = take n xs @ xs ! n # drop (n + 1) xs" using assms by (simp add: id_take_nth_drop)
  then have "mset xs = mset (take n xs @ xs ! n # drop (n + 1) xs)" by simp
  then show ?thesis by (simp add: remove_nth_def)
qed

lemma map_remove_nth: "map f (remove_nth n xs) = remove_nth n (map f xs)"
  by (simp add: remove_nth_def take_map drop_map)

lemma set_remove_nth: "set (remove_nth n xs) \<subseteq> set xs"
  using set_take_subset [of n xs] set_drop_subset [of "n + 1" xs] by (auto simp: remove_nth_def)

lemma same_ids:
  assumes "mset (write_ids w') = mset (write_ids w)"
  shows "distinct (write_ids w') = distinct (write_ids w)" "set (write_ids w') = set (write_ids w)"
  using assms mset_eq_imp_distinct_iff mset_eq_setD by blast+

lemma answer_request_write_ok:
  assumes ok: "write_ok E c w" and n: "n < length (ow_todo w)"
    and st: "\<not> isl res \<Longrightarrow> stored c s (ow_record w)" and s: "fst s = p_id (fst (ow_todo w ! n))"
  shows "write_ok E c (w\<lparr>ow_todo := remove_nth n (ow_todo w),
    ow_answers := ow_answers w @ [(s, fst (ow_todo w ! n), res)]\<rparr>)" (is "write_ok E c ?w'")
proof -
  have "mset (map (p_id \<circ> fst) (ow_todo w)) =
      add_mset (fst s) (mset (map (p_id \<circ> fst) (remove_nth n (ow_todo w))))"
    using mset_remove_nth [of n "map (p_id \<circ> fst) (ow_todo w)"] n by (simp add: map_remove_nth s)
  then have "mset (write_ids ?w') = mset (write_ids w)" by (simp add: write_ids_def)
  note ids = same_ids [OF this]
  show ?thesis
    using ok st set_remove_nth [of n "ow_todo w"] ids
    by (auto simp: write_ok_def counted_def)
qed

text \<open>A peer that accepts the request has appended the record.\<close>

lemma peer_stores:
  fixes r r' :: "'db VolumeReplica"
  assumes "handleKVBMessage (writeTable R parse serResp) (peerRequest UPDATE_BLOB_META buf) r = Ok (r', effs, Inr x)"
    and "parse buf = Some m"
  shows "record_of m buf \<in> set (vr_journal r')"
proof -
  have "peerRequest UPDATE_BLOB_META buf = entryKvb \<lparr>je_msgId = UPDATE_BLOB_META, je_entryId = 0, je_buffer = buf\<rparr>"
    by (simp add: peerRequest_def entryKvb_def)
  with assms show ?thesis
    by (auto simp: write_dispatch_eq obind_Ok_iff handleMetadataWrite_eq split: if_splits option.splits sum.splits)
qed

lemma request_answered:
  assumes ok: "members_ok E c1" "writes_ok E c1" and p: "request_pending k n c1"
    and st: "\<not> isl res \<Longrightarrow>
      stored c1 (session_of (p_id (fst (ow_todo (c_writes c1 ! k) ! n))) c1) (ow_record (c_writes c1 ! k))"
  shows "proceeds E c1 (answer_request k n res c1) \<and> writes_ok E (answer_request k n res c1)"
proof -
  let ?w = "c_writes c1 ! k"
  let ?s = "session_of (p_id (fst (ow_todo ?w ! n))) c1"
  let ?w' = "?w\<lparr>ow_todo := remove_nth n (ow_todo ?w),
      ow_answers := ow_answers ?w @ [(?s, fst (ow_todo ?w ! n), res)]\<rparr>"
  have k: "k < length (c_writes c1)" "n < length (ow_todo ?w)" using p by (simp_all add: request_pending_def)
  have c': "answer_request k n res c1 = c1\<lparr>c_writes := (c_writes c1)[k := ?w']\<rparr>"
    by (simp add: answer_request_def Let_def)
  have pr: "proceeds E c1 (answer_request k n res c1)"
    using frame_proceeds [OF ok(1)] by (simp add: c')
  have "write_ok E c1 ?w" using ok(2) k(1) by (simp add: writes_ok_def)
  from answer_request_write_ok [OF this k(2) st] have "write_ok E (answer_request k n res c1) ?w'"
    by (simp add: c' session_of_def)
  with changed_write_ok [OF ok(2) pr, of k ?w'] pr show ?thesis by (simp add: c')
qed

lemma later_session:
  assumes "later a b" and "later b c" and "session_of i c = session_of i a"
  shows "session_of i b = session_of i a" "session_of i c = session_of i b"
proof -
  have "n_incarnation (c_node a i) \<le> n_incarnation (c_node b i)"
    "n_incarnation (c_node b i) \<le> n_incarnation (c_node c i)"
    using assms(1,2) by (simp_all add: later_def)
  with assms(3) show "session_of i b = session_of i a" "session_of i c = session_of i b"
    by (simp_all add: session_of_def)
qed

lemma later_trans:
  assumes "later a b" and "later b c"
  shows "later a c"
  unfolding later_def
proof (intro allI conjI impI)
  fix i
  show "n_incarnation (c_node a i) \<le> n_incarnation (c_node c i)"
    using assms by (auto simp: later_def intro: le_trans)
  assume "session_of i c = session_of i a"
  from later_session [OF assms this]
  have "set (vr_journal (member i a)) \<subseteq> set (vr_journal (member i b)) \<and> (up i b \<longrightarrow> up i a)"
    "set (vr_journal (member i b)) \<subseteq> set (vr_journal (member i c)) \<and> (up i c \<longrightarrow> up i b)"
    using assms unfolding later_def by blast+
  then show "set (vr_journal (member i a)) \<subseteq> set (vr_journal (member i c))" "up i c \<Longrightarrow> up i a"
    by blast+
qed

lemma proceeds_trans: "later a b \<Longrightarrow> proceeds E b c \<Longrightarrow> proceeds E a c"
  by (auto simp: proceeds_def intro: later_trans)

lemma accepted_request_stored:
  fixes r r' :: "'db VolumeReplica"
  assumes w: "write_ok E c w" and t: "n < length (ow_todo w)" "ow_todo w ! n = (p, kvb)"
    and h: "handleKVBMessage (writeTable (e_rocksdb E) (e_parse E) (e_serResp E)) kvb r = Ok (r', effs, Inr x)"
  shows "ow_record w \<in> set (vr_journal r')"
proof -
  obtain m where m: "e_parse E (jr_buf (ow_record w)) = Some m" "record_of m (jr_buf (ow_record w)) = ow_record w"
    using w by (auto simp: write_ok_def)
  have "kvb = peerRequest UPDATE_BLOB_META (jr_buf (ow_record w))"
    using w t nth_mem [OF t(1)] by (auto simp: write_ok_def)
  with peer_stores [of _ _ _ "jr_buf (ow_record w)" r r' effs x m] h m show ?thesis by simp
qed

lemma peer_write_ok:
  assumes ok: "members_ok E c" "writes_ok E c" and run: "peer_write E k n c = Some c'"
  shows "proceeds E c c' \<and> writes_ok E c'"
proof -
  let ?w = "c_writes c ! k"
  obtain p kvb where t: "ow_todo ?w ! n = (p, kvb)" by (cases "ow_todo ?w ! n")
  have pend: "request_pending k n c" and up: "up (p_id p) c"
    using run t by (auto simp: peer_write_def split: if_splits)
  let ?h = "handleKVBMessage (writeTable (e_rocksdb E) (e_parse E) (e_serResp E)) kvb (member (p_id p) c)"
  have k: "k < length (c_writes c)" "n < length (ow_todo ?w)" using pend by (simp_all add: request_pending_def)
  have w: "write_ok E c ?w" using ok(2) k(1) by (simp add: writes_ok_def)
  show ?thesis
  proof (cases ?h)
    case (Ok s)
    obtain r effs res where s: "s = (r, effs, res)" by (cases s)
    let ?c1 = "settle (p_id p) (Ok (r, effs)) c"
    have c': "c' = answer_request k n res ?c1"
      using run pend up t Ok s by (simp add: peer_write_def)
    have pr: "proceeds E c ?c1"
      using writeTable_grows [OF Ok [unfolded s]] by (intro id_proceeds [OF ok(1) up]) auto
    have ok1: "members_ok E ?c1" "writes_ok E ?c1" "request_pending k n ?c1"
      using pr same_writes_ok [OF ok(2) pr] pend by (simp_all add: proceeds_def request_pending_def)
    have "ow_record ?w \<in> set (vr_journal r)" if acc: "\<not> isl res"
    proof (cases res)
      case (Inr x)
      with accepted_request_stored [OF w k(2) t] Ok s show ?thesis by simp
    qed (use acc in simp)
    then have "stored ?c1 (session_of (p_id (fst (ow_todo (c_writes ?c1 ! k) ! n))) ?c1) (ow_record (c_writes ?c1 ! k))"
      if "\<not> isl res"
      using that by (simp add: t stored_def session_of_def settle_def member_def put_member_def on_node_def)
    then have "proceeds E ?c1 c' \<and> writes_ok E c'"
      unfolding c' by (rule request_answered [OF ok1])
    moreover have "later c ?c1" using pr by (simp add: proceeds_def)
    ultimately show ?thesis by (blast intro: proceeds_trans)
  next
    case (Throw e)
    with run pend up t have "c' = answer_request k n (Inl e) c" by (simp add: peer_write_def)
    with request_answered [OF ok pend, of "Inl e"] show ?thesis by simp
  next
    case Abort
    with run pend up t have "c' = stop_member (p_id p) c" by (simp add: peer_write_def)
    with stop_proceeds [OF ok(1), of "p_id p"] same_writes_ok [OF ok(2), of c'] show ?thesis
      by (simp add: stop_member_def on_node_def)
  qed
qed

subsection \<open>The leader counts\<close>

lemma peer_answer_count:
  fixes r r' :: "'db VolumeReplica"
  assumes "writePeerDone p res ctx r = Ok (ctx', r')" and "quorum r = e_quorum E"
    and "w_nSuccess ctx = of_nat n" "w_promise ctx = Some (Inr ()) \<longrightarrow> unat (e_quorum E - 1) \<le> n"
  shows "w_nSuccess ctx' = of_nat (if isl res then n else n + 1)"
    and "w_promise ctx' = Some (Inr ()) \<longrightarrow> unat (e_quorum E - 1) \<le> (if isl res then n else n + 1)"
proof -
  have le: "unat (of_nat (Suc n) :: 32 word) \<le> Suc n"
    by (simp only: unat_of_nat mod_less_eq_dividend)
  show "w_nSuccess ctx' = of_nat (if isl res then n else n + 1)"
    using assms by (auto simp: writePeerDone_def Let_def obind_Ok_iff add.commute split: option.splits sum.splits if_splits)
  show "w_promise ctx' = Some (Inr ()) \<longrightarrow> unat (e_quorum E - 1) \<le> (if isl res then n else n + 1)"
  proof (cases res)
    case (Inl e)
    with assms show ?thesis
      by (auto simp: writePeerDone_def Let_def obind_Ok_iff split: option.splits if_splits)
  next
    case (Inr x)
    with assms(1) have ctx': "w_promise ctx' = (if w_nSuccess ctx + 1 = quorum r - 1 \<and> w_promise ctx = None
        then Some (Inr ()) else w_promise ctx)"
      by (auto simp: writePeerDone_def Let_def split: option.splits if_splits)
    show ?thesis
    proof (cases "w_nSuccess ctx + 1 = quorum r - 1 \<and> w_promise ctx = None")
      case True
      then have "e_quorum E - 1 = of_nat (Suc n)" using assms(2,3) by (simp add: add.commute)
      with le Inr show ?thesis by simp
    next
      case False
      with ctx' assms(4) Inr show ?thesis by auto
    qed
  qed
qed

lemma answered_ids:
  assumes w: "write_ok E c w" and a: "ow_answers w = (s, p, res) # rest"
  shows "distinct (write_ids (w\<lparr>ow_answers := rest,
      ow_acked := if isl res then ow_acked w else ow_acked w @ [s]\<rparr>)) \<and>
    set (write_ids (w\<lparr>ow_answers := rest,
      ow_acked := if isl res then ow_acked w else ow_acked w @ [s]\<rparr>)) \<subseteq> set (e_members E)" (is "distinct (write_ids ?w1) \<and> _")
proof (cases "isl res")
  case True
  with w a show ?thesis by (auto simp: write_ok_def write_ids_def)
next
  case False
  then have "mset (write_ids ?w1) = mset (write_ids w)" by (simp add: write_ids_def a)
  with same_ids [OF this] w show ?thesis by (simp add: write_ok_def)
qed

lemma peer_answer_ok:
  assumes ok: "members_ok E c" "writes_ok E c" and run: "peer_answer k c = Some c'"
  shows "proceeds E c c' \<and> writes_ok E c'"
proof -
  let ?w = "c_writes c ! k"
  let ?i = "fst (ow_leader ?w)"
  obtain s p res rest where a: "ow_answers ?w = (s, p, res) # rest" and k: "k < length (c_writes c)"
    using run by (cases "ow_answers ?w") (auto simp: peer_answer_def split: if_splits)
  let ?d = "writePeerDone p res (ow_ctx ?w) (member ?i c)"
  let ?w1 = "?w\<lparr>ow_answers := rest, ow_acked := (if isl res then ow_acked ?w else ow_acked ?w @ [s])\<rparr>"
  have c': "c' = (case ?d of
        Ok (ctx, r) \<Rightarrow> (put_member ?i r c)\<lparr>c_writes := (c_writes c)[k := ?w1\<lparr>ow_ctx := ctx\<rparr>]\<rparr>
      | Throw e \<Rightarrow> c | Abort \<Rightarrow> stop_member ?i c)"
    using run by (auto simp: peer_answer_def a Let_def split: if_splits outcome.split)
  have w: "write_ok E c ?w" using ok(2) k by (simp add: writes_ok_def)
  show ?thesis
  proof (cases ?d)
    case (Ok x)
    obtain ctx r where x: "x = (ctx, r)" by (cases x)
    let ?w2 = "?w1\<lparr>ow_ctx := ctx\<rparr>"
    note d = Ok [unfolded x]
    have pr: "proceeds E c (put_member ?i r c)"
      by (rule put_proceeds [OF ok(1) peer_answer_grows [OF d]])
    have q: "quorum (member ?i c) = e_quorum E" using ok(1) by (simp add: members_ok_def identity_def)
    have cnt: "counted E ?w2"
      using peer_answer_count [OF d q] w by (auto simp: write_ok_def counted_def)
    have "distinct (write_ids ?w2) \<and> set (write_ids ?w2) \<subseteq> set (e_members E)"
      using answered_ids [OF w a] by (simp add: write_ids_def)
    then have "write_ok E c ?w2"
      using w a cnt by (auto simp: write_ok_def split: if_splits)
    then have "write_ok E (put_member ?i r c) ?w2"
      using pr by (auto simp: proceeds_def intro: write_ok_later)
    with changed_write_ok [OF ok(2), of c' k ?w2] pr show ?thesis
      by (simp add: c' d)
  next
    case (Throw e)
    with ok frame_proceeds [of E c c] show ?thesis by (simp add: c')
  next
    case Abort
    with stop_proceeds [OF ok(1), of ?i] same_writes_ok [OF ok(2), of c'] show ?thesis
      by (simp add: c' stop_member_def on_node_def)
  qed
qed

subsection \<open>Every reachable state\<close>

definition codec_ok :: "'db env \<Rightarrow> bool" where
  "codec_ok E \<longleftrightarrow> (\<forall>m. e_parse E (e_ser E m) = Some m)"

definition data_ok :: "'db env \<Rightarrow> 'db cluster \<Rightarrow> bool" where
  "data_ok E c \<longleftrightarrow> members_ok E c \<and> writes_ok E c"

lemma data_okI: "writes_ok E c \<Longrightarrow> proceeds E c c' \<Longrightarrow> c_writes c' = c_writes c \<Longrightarrow> data_ok E c'"
  using same_writes_ok [of E c c'] by (simp add: data_ok_def proceeds_def)

lemma data_okI2: "proceeds E c c' \<and> writes_ok E c' \<Longrightarrow> data_ok E c'"
  by (simp add: data_ok_def proceeds_def)

lemma issue_proceeds:
  assumes "members_ok E c" shows "proceeds E c (issue i effs c)"
  by (rule proceeds_same [OF assms]) (simp_all del: issue_simps)

lemma timer_proceeds:
  assumes "members_ok E c" shows "proceeds E c (issue i effs (on_node i (\<lambda>n. n\<lparr>n_timers := t n\<rparr>) c))"
  by (rule proceeds_same [OF assms]) (auto simp: node_defs simp del: issue_simps split: if_splits)

lemma client_write_proceeds:
  assumes "members_ok E c" and "client_write E i msg c = Some c'"
  shows "proceeds E c c'"
  using assms frame_proceeds [of E c c]
  by (auto simp: client_write_def stop_proceeds split: if_splits outcome.splits sum.splits prod.splits
      intro: put_proceeds [OF _ update_grows])

lemma answer_request_proceeds: "members_ok E c \<Longrightarrow> proceeds E c (answer_request k n res c)"
  by (rule frame_proceeds) (simp_all add: answer_request_def Let_def)

lemma peer_write_proceeds:
  assumes ok: "members_ok E c" and run: "peer_write E k n c = Some c'"
  shows "proceeds E c c'"
proof -
  have s: "proceeds E c (settle j (Ok (r, effs)) c)"
    if "handleKVBMessage (writeTable (e_rocksdb E) (e_parse E) (e_serResp E)) kvb (member j c) =
        Ok (r, effs, x)" "up j c" for kvb j r effs x
    using writeTable_grows [OF that(1)] by (intro id_proceeds [OF ok that(2)]) auto
  have "proceeds E c (answer_request k n res (settle j (Ok (r, effs)) c))"
    if "handleKVBMessage (writeTable (e_rocksdb E) (e_parse E) (e_serResp E)) kvb (member j c) =
        Ok (r, effs, x)" "up j c" for kvb j r effs x res
    using s [OF that] answer_request_proceeds [of E "settle j (Ok (r, effs)) c" k n res]
    by (auto simp: proceeds_def [of E c "settle j (Ok (r, effs)) c"] intro: proceeds_trans)
  with run ok show ?thesis
    by (auto simp: peer_write_def stop_proceeds answer_request_proceeds split: if_splits outcome.splits prod.splits)
qed

lemma peer_answer_proceeds:
  assumes "members_ok E c" and "peer_answer k c = Some c'"
  shows "proceeds E c c'"
  using assms frame_proceeds [of E c c]
  by (auto simp: peer_answer_def Let_def stop_proceeds split: if_splits outcome.splits prod.splits
      intro: put_proceeds [OF _ peer_answer_grows])

lemma writes_frames [simp]:
  "c_writes (start_member E i v p c) = c_writes c" "c_writes (stop_member i c) = c_writes c"
  "c_writes (on_node i f c) = c_writes c" "c_writes (z_session_ends s c) = c_writes c"
  by (simp_all add: start_member_def stop_member_def case_prod_beta on_node_def z_session_ends_def)

lemma node_frames [simp]:
  "c_node (z_session_ends s c) = c_node c" "c_node (answer_request k n res c) = c_node c"
  by (simp_all add: z_session_ends_def answer_request_def Let_def)

interpretation proceeds_actions: action_laws E "members_ok E" "proceeds E" for E
proof unfold_locales
qed ((rule start_proceeds issue_proceeds timer_proceeds execute_proceeds(1) handle_proceeds(1)
      vote_proceeds(1) add_try_proceeds(1) count_proceeds(1) receive_proceeds(1) client_write_proceeds
      peer_write_proceeds peer_answer_proceeds stop_proceeds frame_proceeds; (assumption | simp; fail)))+

interpretation data_actions: action_laws E "\<lambda>c. members_ok E c \<and> writes_ok E c"
    "\<lambda>c c'. distinct (e_members E) \<and> codec_ok E \<longrightarrow> data_ok E c'" for E
proof (unfold_locales; intro impI; elim conjE)
qed ((rule data_okI, assumption,
       (rule start_proceeds issue_proceeds timer_proceeds execute_proceeds(1) handle_proceeds(1)
         vote_proceeds(1) add_try_proceeds(1) count_proceeds(1) receive_proceeds(1) stop_proceeds
         frame_proceeds; (assumption | simp; fail)),
       (simp; fail | (rule execute_proceeds(2) handle_proceeds(2) vote_proceeds(2) add_try_proceeds(2)
         count_proceeds(2) receive_proceeds(2); assumption)))
     | (rule data_okI2, (rule client_write_ok peer_write_ok request_answered peer_answer_ok;
         (assumption | simp add: codec_ok_def; fail))))+

lemma cluster_do_data:
  assumes "members_ok E c" "writes_ok E c" and "cluster_do E a c = Some c'"
    and "distinct (e_members E)" and "codec_ok E"
  shows "data_ok E c'"
  using assms data_actions.every_action by blast

lemma start_data_ok: "data_ok E (cluster_start E dbs)"
  by (auto simp: data_ok_def members_ok_def writes_ok_def cluster_start_def member_def up_def identity_def
      replica_ok_def fresh_member_def PBMember_new_def PBMember.extend_def isLeaderState_def state_order)

interpretation writesI: inv_system "cluster_init E"
    "\<lambda>c c'. distinct (e_members E) \<and> codec_ok E \<and> cluster_step E c c'" "data_ok E"
  for E
proof unfold_locales
  show "cluster_init E s \<Longrightarrow> data_ok E s" for s by (auto simp: cluster_init_def start_data_ok)
  show "data_ok E s \<Longrightarrow> distinct (e_members E) \<and> codec_ok E \<and> cluster_step E s t \<Longrightarrow> data_ok E t" for s t
    by (auto simp: cluster_step_def data_ok_def [of E s] intro: cluster_do_data)
qed

lemma reachable_data_ok:
  assumes "distinct (e_members E)" and "codec_ok E" and "reachable_cluster E c"
  shows "data_ok E c"
proof -
  from assms(3) obtain as dbs where "cluster_run E as (cluster_start E dbs) = Some c"
    by (auto simp: reachable_cluster_def)
  then have "(\<lambda>c c'. distinct (e_members E) \<and> codec_ok E \<and> cluster_step E c c')\<^sup>*\<^sup>* (cluster_start E dbs) c"
    using assms(1,2) cluster_run_steps by simp
  then show ?thesis by (rule writesI.steps_inv) (rule start_data_ok)
qed

subsection \<open>The properties\<close>

definition acknowledged :: "open_write \<Rightarrow> bool" where
  "acknowledged w \<longleftrightarrow> w_promise (ow_ctx w) = Some (Inr ())"

text \<open>The processes known to have stored a write: the leader's and those it has counted.\<close>

definition holders :: "open_write \<Rightarrow> session list" where
  "holders w = ow_leader w # ow_acked w"

definition not_restarted :: "session list \<Rightarrow> 'db cluster \<Rightarrow> bool" where
  "not_restarted ss c \<longleftrightarrow> (\<forall>s \<in> set ss. s = session_of (fst s) c)"

lemma holders_store:
  assumes "write_ok E c w"
  shows "distinct (map fst (holders w))" "set (map fst (holders w)) \<subseteq> set (e_members E)"
    and "\<And>s. s \<in> set (holders w) \<Longrightarrow> stored c s (ow_record w)"
    and "acknowledged w \<Longrightarrow> unat (e_quorum E) \<le> length (holders w)"
proof -
  show "unat (e_quorum E) \<le> length (holders w)" if "acknowledged w"
  proof (cases "e_quorum E = 0")
    case False
    then have "unat (e_quorum E - 1) = unat (e_quorum E) - 1"
      by (intro unat_word32_minus_1) (simp add: word_gt_0)
    with assms that have "unat (e_quorum E) - 1 \<le> length (ow_acked w)"
      by (simp add: write_ok_def counted_def acknowledged_def)
    then show ?thesis by (simp add: holders_def)
  qed simp
qed (use assms in \<open>auto simp: write_ok_def write_ids_def holders_def\<close>)

lemma reachable_write_ok:
  assumes "distinct (e_members E)" and "codec_ok E" and "reachable_cluster E c" and "w \<in> set (c_writes c)"
  shows "write_ok E c w"
  using reachable_data_ok [OF assms(1-3)] assms(4) by (simp add: data_ok_def writes_ok_def)

text \<open>
  C2. When a leader acknowledges a write to its client, a quorum of distinct members of the group
  has stored it: the leader and each peer whose success was counted. In every later state, each
  of them still has the record in its journal unless its process was restarted. This holds for
  every order of messages, failures, elections and ends of sessions.
\<close>

theorem acknowledged_write_is_stored:
  assumes "distinct (e_members E)" and "codec_ok E" and "reachable_cluster E c"
    and "w \<in> set (c_writes c)" and "acknowledged w"
  shows "distinct (map fst (holders w)) \<and> set (map fst (holders w)) \<subseteq> set (e_members E) \<and>
    unat (e_quorum E) \<le> length (holders w) \<and>
    (\<forall>s \<in> set (holders w). s = session_of (fst s) c \<longrightarrow> ow_record w \<in> set (vr_journal (member (fst s) c)))"
  using holders_store [OF reachable_write_ok [OF assms(1-4)]] assms(5) by (auto simp: stored_def)

lemma quorums_meet:
  assumes "distinct xs" "distinct ys" "set xs \<subseteq> A" "set ys \<subseteq> A" "finite A"
    and "card A < length xs + length ys"
  obtains x where "x \<in> set xs" "x \<in> set ys"
proof -
  have "set xs \<inter> set ys \<noteq> {}"
  proof
    assume "set xs \<inter> set ys = {}"
    then have "card (set xs \<union> set ys) = length xs + length ys"
      using assms by (simp add: card_Un_disjoint distinct_card)
    with assms card_mono [of A "set xs \<union> set ys"] show False by simp
  qed
  with that show thesis by blast
qed

lemma journal_unique:
  assumes "journal_wf j" and "r1 \<in> set j" and "r2 \<in> set j" and "jr_id r1 = jr_id r2"
  shows "r1 = r2"
proof -
  from assms(2,3) obtain n m where n: "n < length j" "j ! n = r1" and m: "m < length j" "j ! m = r2"
    by (auto simp: in_set_conv_nth)
  with journal_wf_nth [OF assms(1), of n] journal_wf_nth [OF assms(1), of m] assms(4)
  have "int n = int m" by simp
  with n m show ?thesis by simp
qed

text \<open>
  C3. A commit id is acknowledged for one write only: with a quorum of more than half of the
  members, two acknowledged writes with the same commit id have the same record, whichever
  leaders they came from and even if there were two leaders at once - as long as the processes
  that stored them have not been restarted.
\<close>

theorem acknowledged_commit_unique:
  assumes "distinct (e_members E)" and "codec_ok E" and "reachable_cluster E c"
    and "length (e_members E) < 2 * unat (e_quorum E)"
    and w1: "w1 \<in> set (c_writes c)" "acknowledged w1" "not_restarted (holders w1) c"
    and w2: "w2 \<in> set (c_writes c)" "acknowledged w2" "not_restarted (holders w2) c"
  shows "jr_id (ow_record w1) = jr_id (ow_record w2) \<longleftrightarrow> ow_record w1 = ow_record w2"
proof -
  note h1 = holders_store [OF reachable_write_ok [OF assms(1-3) w1(1)]]
  note h2 = holders_store [OF reachable_write_ok [OF assms(1-3) w2(1)]]
  have "card (set (e_members E)) < length (map fst (holders w1)) + length (map fst (holders w2))"
    using h1(4) [OF w1(2)] h2(4) [OF w2(2)] assms(1,4) by (simp add: distinct_card)
  then obtain x where "x \<in> set (map fst (holders w1))" "x \<in> set (map fst (holders w2))"
    using quorums_meet [OF h1(1) h2(1) h1(2) h2(2)] by blast
  then obtain s1 s2 where s: "s1 \<in> set (holders w1)" "fst s1 = x" "s2 \<in> set (holders w2)" "fst s2 = x"
    by auto
  have "ow_record w1 \<in> set (vr_journal (member x c))" "ow_record w2 \<in> set (vr_journal (member x c))"
    using h1(3) [OF s(1)] h2(3) [OF s(3)] w1(3) w2(3) s by (auto simp: stored_def not_restarted_def)
  moreover have "journal_wf (vr_journal (member x c))"
    using reachable_data_ok [OF assms(1-3)] by (simp add: data_ok_def members_ok_def identity_def replica_ok_def)
  ultimately show ?thesis using journal_unique by metis
qed

lemma two_writes:
  obtains w1 w2 where "c_writes after_writes = [w1, w2]" "acknowledged w1" "acknowledged w2"
    "holders w1 = [(''b'', 1), (''c'', 1)]" "holders w2 = [(''b'', 1), (''c'', 1)]"
    "jr_id (ow_record w1) = 0" "jr_id (ow_record w2) = 1"
    "not_restarted [(''b'', 1), (''c'', 1)] after_writes"
proof -
  have v: "promises after_writes = [Some (Inr ()), Some (Inr ())]"
    "map (jr_id \<circ> ow_record) (c_writes after_writes) = [0, 1]"
    "map ow_leader (c_writes after_writes) = [(''b'', 1), (''b'', 1)]"
    "map ow_acked (c_writes after_writes) = [[(''c'', 1)], [(''c'', 1)]]"
    "session_of ''b'' after_writes = (''b'', 1)" "session_of ''c'' after_writes = (''c'', 1)"
    using after_writes_view unfolding after_writes by simp_all
  then have "length (c_writes after_writes) = 2" by (metis length_map length_Cons list.size(3) numeral_2_eq_2)
  then obtain w1 w2 where w: "c_writes after_writes = [w1, w2]"
    by (auto simp: numeral_2_eq_2 length_Suc_conv)
  show thesis
    by (rule that [OF w])
      (use v in \<open>simp_all add: w promises_def acknowledged_def holders_def not_restarted_def\<close>)
qed

lemma trio_codec: "codec_ok (trio x)" "distinct (e_members (trio x))"
  by (simp_all add: codec_ok_def trio_def trio_parse_ser)

theorem acknowledged_write_is_stored_witness:
  "\<exists>w. w \<in> set (c_writes after_writes) \<and> ow_record w \<in> set (vr_journal (member ''c'' after_writes))"
proof -
  obtain w1 w2 where w: "c_writes after_writes = [w1, w2]" "acknowledged w1"
    "holders w1 = [(''b'', 1), (''c'', 1)]" "not_restarted [(''b'', 1), (''c'', 1)] after_writes"
    using two_writes by metis
  with acknowledged_write_is_stored [OF trio_codec(2,1) after_writes_reachable, of w1]
  show ?thesis by (auto simp: not_restarted_def)
qed

theorem acknowledged_commit_unique_witness:
  "\<exists>w1 w2. c_writes after_writes = [w1, w2] \<and> acknowledged w1 \<and> acknowledged w2 \<and> ow_record w1 \<noteq> ow_record w2"
proof -
  obtain w1 w2 where w: "c_writes after_writes = [w1, w2]" "acknowledged w1" "acknowledged w2"
    "holders w1 = [(''b'', 1), (''c'', 1)]" "holders w2 = [(''b'', 1), (''c'', 1)]"
    "jr_id (ow_record w1) = 0" "jr_id (ow_record w2) = 1"
    "not_restarted [(''b'', 1), (''c'', 1)] after_writes"
    using two_writes by metis
  have "length (e_members (trio False)) < 2 * unat (e_quorum (trio False))" by (simp add: trio_def)
  from acknowledged_commit_unique [OF trio_codec(2,1) after_writes_reachable this, of w1 w2] w
  show ?thesis by auto
qed

end
