(* ===== verification/Cluster_Leaders.thy ===== *)
theory Cluster_Leaders
  imports Cluster_Writes
begin

section \<open>The leaders of a running group\<close>

text \<open>
  What the messages between the members carry: a vote names its voter, so the responses an
  elector counts are of distinct members, the announcement names its receiver and a quorum of
  members marked functional. So every leader of a group starts as \<open>PB_Leader\<close> assumes, and its
  invariant holds in every state of the group. The states of the sync protocol are never
  entered, because no member sends what would start it.
\<close>

subsection \<open>What the messages carry\<close>

definition responses_ok :: "'db env \<Rightarrow> GetMemberStateRespMsg list \<Rightarrow> bool" where
  "responses_ok E fms \<longleftrightarrow> distinct (map gr_id fms) \<and> gr_id ` set fms \<subseteq> set (e_members E) \<and> fms \<noteq> [] \<and>
     unat (e_quorum E) \<le> length fms"

definition announcement_ok :: "'db env \<Rightarrow> string \<Rightarrow> GetMemberStateRespMsg list \<Rightarrow> bool" where
  "announcement_ok E l fms \<longleftrightarrow> responses_ok E fms \<and> l \<in> gr_id ` set fms \<and>
     (\<forall>x \<in> set fms. gr_state x = FOLLOWER_FUNCTIONAL)"

fun cont_ok :: "'db env \<Rightarrow> string \<Rightarrow> pb_cont \<Rightarrow> bool" where
  "cont_ok E i (KRemoveLock fms) = responses_ok E fms"
| "cont_ok E i (KLeaderLock fms) = announcement_ok E i fms"
| "cont_ok E i k = True"

definition ballot_ok :: "'db env \<Rightarrow> ballot \<Rightarrow> bool" where
  "ballot_ok E b \<longleftrightarrow> bt_members b = e_members E \<and>
     (\<forall>x \<in> set (bt_tries b). \<forall>resp. snd x = Inr resp \<longrightarrow> gr_id resp = fst x)"

fun sent_ok :: "'db env \<Rightarrow> string \<Rightarrow> pb_effect \<Rightarrow> bool" where
  "sent_ok E i (Coord call k) = cont_ok E i k"
| "sent_ok E i (ElectionRequest ids msg) = (ids = e_members E)"
| "sent_ok E i (BecomeLeaderTo l bl) = announcement_ok E l (bl_functionalMembers bl)"
| "sent_ok E i (AfterDelay d key) = True"
| "sent_ok E i RunSync = False"

definition group_ok :: "'db env \<Rightarrow> bool" where
  "group_ok E \<longleftrightarrow> distinct (e_members E) \<and> length (e_members E) < 2 ^ 32 \<and> 0 < e_quorum E"

text \<open>A member outside the sync protocol, and consistent with its quorum when it leads.\<close>

definition role_ok :: "'a PBMember_scheme \<Rightarrow> bool" where
  "role_ok r \<longleftrightarrow> mstate r \<noteq> FOLLOWER_SYNCING \<and> mstate r \<noteq> FOLLOWER_FUNCTIONAL \<and>
     (isLeaderState r \<longrightarrow> quorum_consistent r)"

lemma identity_small: "group_ok E \<Longrightarrow> identity E i r \<Longrightarrow> small_group r"
  by (simp add: group_ok_def identity_def small_group_def)

lemma quiet_role:
  fixes r r' :: "'db VolumeReplica"
  assumes "role_ok r" and "mstate r' = mstate r" and "leaderCtx r' = leaderCtx r" and "quorum r' = quorum r"
  shows "role_ok r'"
  using assms by (simp add: role_ok_def isLeaderState_def quorum_consistent_def)

lemma responses_votes:
  assumes "map gr_id (List.map_filter (case_sum (\<lambda>_. None) Some) (map f xs)) = ys"
    and "\<And>x resp. x \<in> set xs \<Longrightarrow> f x = Inr resp \<Longrightarrow> gr_id resp = x"
  shows "ys = filter (\<lambda>x. \<not> isl (f x)) xs"
  using assms
proof (induction xs arbitrary: ys)
  case (Cons x xs)
  show ?case
  proof (cases "f x")
    case (Inl e)
    with Cons.prems(1) have "map gr_id (List.map_filter (case_sum (\<lambda>_. None) Some) (map f xs)) = ys"
      by (simp add: map_filter_simps)
    from Cons.IH [OF this] Cons.prems(2) Inl show ?thesis by simp
  next
    case (Inr resp)
    have "map gr_id (List.map_filter (case_sum (\<lambda>_. None) Some) (map f xs)) = tl ys"
      using Cons.prems(1) Inr by (auto simp: map_filter_simps)
    from Cons.IH [OF this] Cons.prems Inr show ?thesis by (auto simp: map_filter_simps)
  qed
qed (simp add: map_filter_simps)

lemma with_commit_ids:
  "distinct (map gr_id rs) \<Longrightarrow> distinct (map gr_id (with_commit c rs))"
  "set (with_commit c rs) \<subseteq> set rs"
  by (auto simp: with_commit_def distinct_map_filter)

subsection \<open>What the handlers send\<close>

lemma electionDone_sent:
  fixes r r' :: "'db VolumeReplica"
  assumes "group_ok E" and "identity E i r" and "ballot_ok E b" and "role_ok r"
    and "\<forall>x \<in> set (bt_members b). map_of (bt_tries b) x \<noteq> None"
    and "electionDone now (map (\<lambda>x. the (map_of (bt_tries b) x)) (bt_members b)) r = (r', effs)"
  shows "role_ok r' \<and> list_all (sent_ok E i) effs"
proof -
  let ?f = "\<lambda>x. the (map_of (bt_tries b) x)"
  let ?ts = "map ?f (bt_members b)"
  let ?rs = "answers ?ts"
  let ?g = "with_commit (least_commit ?rs) ?rs"
  have vote: "gr_id resp = x" if v: "x \<in> set (bt_members b)" "?f x = Inr resp" for x resp
  proof -
    obtain t where t: "map_of (bt_tries b) x = Some t" using assms(5) v(1) by blast
    then have "(x, t) \<in> set (bt_tries b)" by (rule map_of_SomeD)
    moreover have "t = Inr resp" using t v(2) by simp
    ultimately show ?thesis using assms(3) unfolding ballot_ok_def by force
  qed
  then have ids: "map gr_id ?rs = filter (\<lambda>x. \<not> isl (?f x)) (e_members E)"
    using responses_votes [of ?f "bt_members b"] assms(3) by (simp add: answers_def ballot_ok_def)
  have dist: "distinct (map gr_id ?rs)" using assms(1) by (simp add: ids group_ok_def)
  have "set (map gr_id ?rs) \<subseteq> set (e_members E)" unfolding ids by auto
  then have sub: "gr_id ` set ?g \<subseteq> set (e_members E)" using with_commit_ids(2) by fastforce
  have q: "quorum r = e_quorum E" using assms(2) by (simp add: identity_def)
  show ?thesis
  proof (cases "?rs \<noteq> [] \<and> unat (quorum r) \<le> length ?g")
    case True
    then have "responses_ok E ?g"
      using sub with_commit_ids(1) [OF dist] with_commit_least(1) [of ?rs] q by (simp add: responses_ok_def)
    moreover have "r' = r\<lparr>lastElection := now\<rparr>" "effs = [removeLock (KRemoveLock ?g) r]"
      using assms(6) True by (simp_all add: electionDone_eq Let_def)
    ultimately show ?thesis
      using assms(4) by (simp add: removeLock_def quiet_role)
  next
    case False
    with assms(6) have "r' = switchState EC_WAITING_FOR_QUORUM r" "effs = []"
      by (auto simp: electionDone_eq Let_def split: if_splits)
    then show ?thesis by (simp add: role_ok_def switchState_def isLeaderState_def state_order)
  qed
qed

lemma leaderLockDone_role:
  fixes r r' :: "'db VolumeReplica"
  assumes "group_ok E" and "identity E i r" and "announcement_ok E i fms"
    and run: "leaderLockDone fms x r = Ok (r', effs)"
  shows "role_ok r' \<and> list_all (sent_ok E i) effs"
proof -
  obtain k where x: "x = Inr k" using run by (cases x) (auto simp: lock_refused)
  have "announced fms r"
    using assms(2,3) by (simp add: announced_def announcement_ok_def responses_ok_def identity_def)
  from leaderLockDone_ok(2) [OF run [unfolded x] this identity_small [OF assms(1,2)]]
  have "quorum_consistent r'" .
  moreover have "mstate r' \<noteq> FOLLOWER_SYNCING" "mstate r' \<noteq> FOLLOWER_FUNCTIONAL" "effs = []"
    using run x by (auto simp: leaderLockDone_def Let_def switchState_def split: if_splits)
  ultimately show ?thesis by (simp add: role_ok_def)
qed

lemma handler_sent:
  fixes r r' :: "'db VolumeReplica"
  assumes "identity E i r" and "role_ok r"
  shows "memberRootDone a r = Ok (r', effs) \<Longrightarrow> role_ok r' \<and> list_all (sent_ok E i) effs"
    and "watchDone f now cs r = Ok (r', effs) \<Longrightarrow> role_ok r' \<and> list_all (sent_ok E i) effs"
    and "electorLockDone a r = Ok (r', effs) \<Longrightarrow> role_ok r' \<and> list_all (sent_ok E i) effs"
    and "electorTermDone v r = Ok (r', effs) \<Longrightarrow> role_ok r' \<and> list_all (sent_ok E i) effs"
    and "electorChildrenDone f cs r = Ok (r', effs) \<Longrightarrow> role_ok r' \<and> list_all (sent_ok E i) effs"
    and "responses_ok E fms \<Longrightarrow> removeLockDone fms u r = Ok (r', effs) \<Longrightarrow>
      role_ok r' \<and> list_all (sent_ok E i) effs"
    and "announcement_ok E i (bl_functionalMembers bl) \<Longrightarrow> handleBecomeLeaderMsg bl r = Ok (r', effs) \<Longrightarrow>
      role_ok r' \<and> list_all (sent_ok E i) effs"
proof -
  note role = role_ok_def switchState_def isLeaderState_def state_order quorum_consistent_def
  have m: "memberIds r = e_members E" using assms(1) by (simp add: identity_def)
  show "memberRootDone a r = Ok (r', effs) \<Longrightarrow> role_ok r' \<and> list_all (sent_ok E i) effs"
    using assms(2) by (auto simp: memberRootDone_def handleError_def split: sum.splits)
  show "watchDone f now cs r = Ok (r', effs) \<Longrightarrow> role_ok r' \<and> list_all (sent_ok E i) effs"
    using assms(2) m by (auto simp: watchDone_def handleGroupWatchEvent_def startElectionIfQuorum_def
        orHandleError_def handleError_def obind_Ok_iff Let_def role issueElectionRequest_def acquireLock_def
        split: sum.splits outcome.splits PBMemberState.splits if_splits)
  show "electorLockDone a r = Ok (r', effs) \<Longrightarrow> role_ok r' \<and> list_all (sent_ok E i) effs"
    using assms(2) by (auto simp: electorLockDone_def handleError_def increaseTerm_def split: sum.splits)
  show "electorTermDone v r = Ok (r', effs) \<Longrightarrow> role_ok r' \<and> list_all (sent_ok E i) effs"
    using assms(2) by (auto simp: electorTermDone_def handleError_def Let_def role split: sum.splits)
  show "electorChildrenDone f cs r = Ok (r', effs) \<Longrightarrow> role_ok r' \<and> list_all (sent_ok E i) effs"
    using m by (auto simp: electorChildrenDone_def startElectionIfQuorum_def orHandleError_def
        handleError_def obind_Ok_iff Let_def role issueElectionRequest_def
        split: sum.splits outcome.splits if_splits)
  show "responses_ok E fms \<Longrightarrow> removeLockDone fms u r = Ok (r', effs) \<Longrightarrow>
      role_ok r' \<and> list_all (sent_ok E i) effs"
    by (auto simp: removeLockDone_def sendBecomeLeaderMsg_def handleError_def obind_Ok_iff Let_def role
        scheduleGroupWatchEvent_def announcement_ok_def responses_ok_def comp_def image_image
        split: sum.splits list.splits)
  show "announcement_ok E i (bl_functionalMembers bl) \<Longrightarrow> handleBecomeLeaderMsg bl r = Ok (r', effs) \<Longrightarrow>
      role_ok r' \<and> list_all (sent_ok E i) effs"
    using assms(2) by (auto simp: handleBecomeLeaderMsg_def obind_Ok_iff acquireLock_def)
qed

lemma answered_sent:
  assumes "group_ok E" and "identity E i r" and "role_ok r" and "cont_ok E i k"
    and "answered E now k a r = Ok (r', effs)"
  shows "role_ok r' \<and> list_all (sent_ok E i) effs"
  using assms(4,5) handler_sent [OF assms(2,3)] assms(3) leaderLockDone_role [OF assms(1,2)]
  by (cases "(E, now, k, a, r)" rule: answered.cases) auto

lemma peer_answer_role:
  fixes r r' :: "'db VolumeReplica"
  assumes "group_ok E" and "identity E i r" and "role_ok r" and "writePeerDone p y w r = Ok (w', r')"
  shows "role_ok r'"
  using assms(4)
proof (rule peer_answer_changes)
  fix v
  assume ch: "changePeerState (p_id p) v FOLLOWER_WAIT_TO_JOIN_GROUP r = Ok r'"
  show "role_ok r'"
  proof (cases "isLeaderState r")
    case True
    have "peers_known r"
      using assms(2) True by (auto simp: identity_def replica_ok_def)
    then have "quorum_consistent r'"
      using changePeerState_quorum_consistent [OF _ _ _ ch] identity_small [OF assms(1,2)] assms(3) True
      by (auto simp: role_ok_def)
    moreover have "isLeaderState r'" using True changePeerState_keeps(6) [OF ch] by simp
    ultimately show ?thesis by (auto simp: role_ok_def isLeaderState_def state_order)
  next
    case False
    with ch assms(3) show ?thesis
      by (auto simp: changePeerState_def adjustLeaderState_def role_ok_def Let_def isLeaderState_def
          switchState_def state_order split: option.splits if_splits)
  qed
qed (simp add: assms(3))

lemma same_role_ok:
  fixes r r' :: "'db VolumeReplica"
  assumes "same_role r r'" and "role_ok r"
  shows "role_ok r'"
  using assms by (auto simp: same_role_def role_ok_def isLeaderState_def quorum_consistent_def)

subsection \<open>The invariant\<close>

definition traffic_ok :: "'db env \<Rightarrow> 'db cluster \<Rightarrow> bool" where
  "traffic_ok E c \<longleftrightarrow>
     (\<forall>i n. list_all (\<lambda>x. cont_ok E i (snd x)) (c_calls c (i, n))) \<and>
     (\<forall>i. list_all (\<lambda>x. cont_ok E i (fst x)) (n_answers (c_node c i))) \<and>
     (\<forall>i. list_all (ballot_ok E) (n_ballots (c_node c i))) \<and>
     list_all (\<lambda>x. announcement_ok E (fst x) (bl_functionalMembers (snd x))) (c_mail c)"

definition leads_ok :: "'db env \<Rightarrow> 'db cluster \<Rightarrow> bool" where
  "leads_ok E c \<longleftrightarrow> traffic_ok E c \<and> (\<forall>i. up i c \<longrightarrow> role_ok (member i c))"

lemma traffic_writes [simp]: "traffic_ok E (c\<lparr>c_writes := w\<rparr>) = traffic_ok E c"
  by (simp add: traffic_ok_def)

lemma leads_writes [simp]: "leads_ok E (c\<lparr>c_writes := w\<rparr>) = leads_ok E c"
  by (simp add: leads_ok_def up_def member_def)

lemma issue_traffic:
  "traffic_ok E c \<Longrightarrow> list_all (sent_ok E i) effs \<Longrightarrow> traffic_ok E (issue i effs c)"
proof (induction effs arbitrary: c)
  case (Cons e effs)
  have "traffic_ok E (issue1 i c e)"
    using Cons.prems
    by (cases e) (auto simp: traffic_ok_def on_node_def session_of_def ballot_ok_def)
  with Cons show ?case by simp
qed simp

lemma put_traffic: "traffic_ok E (put_member i r c) = traffic_ok E c"
proof -
  have "n_answers (c_node (put_member i r c) j) = n_answers (c_node c j)"
    "n_ballots (c_node (put_member i r c) j) = n_ballots (c_node c j)" for j
    by (simp_all add: put_member_def on_node_def)
  moreover have "c_calls (put_member i r c) = c_calls c" "c_mail (put_member i r c) = c_mail c"
    by (simp_all add: put_member_def on_node_def)
  ultimately show ?thesis by (simp add: traffic_ok_def)
qed

lemma stop_leads: "leads_ok E c \<Longrightarrow> leads_ok E (stop_member i c)"
  by (auto simp: leads_ok_def traffic_ok_def stop_member_def on_node_def up_def member_def split: if_splits)

lemma settle_leads:
  fixes c :: "'db cluster"
  assumes ok: "leads_ok E c" and up: "up i c"
    and f: "n_up (f (c_node c i))" "n_replica (f (c_node c i)) = member i c"
      "\<And>P. list_all P (n_answers (c_node c i)) \<Longrightarrow> list_all P (n_answers (f (c_node c i)))"
      "\<And>P. list_all P (n_ballots (c_node c i)) \<Longrightarrow> list_all P (n_ballots (f (c_node c i)))"
    and b: "\<And>r effs. out = Ok (r, effs) \<Longrightarrow> role_ok r \<and> list_all (sent_ok E i) effs"
  shows "leads_ok E (settle i out (on_node i f c))"
proof -
  let ?c1 = "on_node i f c"
  have t: "traffic_ok E ?c1"
    using ok f by (auto simp: leads_ok_def traffic_ok_def on_node_def)
  have ok1: "leads_ok E ?c1"
    using ok up f t by (auto simp: leads_ok_def on_node_def up_def member_def)
  show ?thesis
  proof (cases out)
    case (Ok x)
    obtain r effs where x: "x = (r, effs)" by (cases x)
    with b Ok have b: "role_ok r" "list_all (sent_ok E i) effs" by simp_all
    have "traffic_ok E (settle i out ?c1)"
      using issue_traffic [of E "put_member i r ?c1" i effs] b(2) t by (simp add: Ok x settle_def put_traffic)
    moreover have "role_ok (member j (settle i out ?c1))" if "up j (settle i out ?c1)" for j
    proof -
      have "member j (settle i out ?c1) = (if j = i then r else member j ?c1)"
        "up j (settle i out ?c1) = up j ?c1"
        by (simp_all add: Ok x settle_def put_member_def on_node_def up_def member_def del: issue_simps)
      with that ok1 b(1) show ?thesis by (simp add: leads_ok_def)
    qed
    ultimately show ?thesis by (simp add: leads_ok_def)
  next
    case Abort
    with ok1 show ?thesis by (simp add: settle_def stop_leads)
  qed (use ok1 in \<open>simp add: settle_def\<close>)
qed

lemma id_leads:
  assumes "leads_ok E c" and "up i c"
    and "\<And>r effs. out = Ok (r, effs) \<Longrightarrow> role_ok r \<and> list_all (sent_ok E i) effs"
  shows "leads_ok E (settle i out c)"
  using settle_leads [of E c i "\<lambda>n. n" out] assms by (simp add: on_node_def up_def member_def)

lemma put_leads:
  assumes "leads_ok E c" and "up i c" and "role_ok r"
  shows "leads_ok E (put_member i r c)"
  using id_leads [OF assms(1,2), of "Ok (r, [])"] assms(3) by (simp add: settle_def)

lemma start_leads:
  assumes "leads_ok E c"
  shows "leads_ok E (start_member E i v p c)"
proof -
  let ?r = "switchState FOLLOWER_WAIT_TO_JOIN_GROUP (fresh_member E i v p (vr_db (member i c)))"
  let ?c1 = "on_node i (\<lambda>n. \<lparr>n_up = True, n_incarnation = n_incarnation n + 1,
    n_replica = ?r, n_answers = [], n_ballots = [], n_timers = 0\<rparr>) c"
  have r: "role_ok ?r" by (simp add: role_ok_def switchState_def isLeaderState_def state_order)
  have "traffic_ok E ?c1"
    using assms by (auto simp: leads_ok_def traffic_ok_def on_node_def)
  moreover have "role_ok (member j ?c1)" if "up j ?c1" for j
    using that assms r by (auto simp: leads_ok_def on_node_def up_def member_def split: if_splits)
  ultimately show ?thesis
    unfolding start_member_def PBMember_init_fresh
    by (auto simp: leads_ok_def simp del: issue_simps intro!: issue_traffic)
qed

lemma execute_leads:
  assumes ok: "leads_ok E c" and run: "execute_call E s executed reported c = Some c'"
  shows "leads_ok E c'"
proof -
  from run obtain call k rest where calls: "c_calls c s = (call, k) # rest"
    by (auto simp: execute_call_def split: list.splits)
  let ?p = "if executed \<and> \<not> z_ended c s then z_execute E s call (pop_call s rest c)
            else (pop_call s rest c, z_failure call)"
  let ?c0 = "pop_call s rest c"
  have c': "c' = z_answer s (k, if reported then snd ?p else z_failure call) (fst ?p)"
    using run by (auto simp: execute_call_def pop_call_def calls Let_def case_prod_beta)
  have k: "cont_ok E (fst s) k"
    using ok calls unfolding leads_ok_def traffic_ok_def
    by (metis list.pred_inject(2) prod.collapse snd_conv)
  have 0: "leads_ok E ?c0"
  proof -
    have "list_all (\<lambda>x. cont_ok E (fst s) (snd x)) rest"
      using ok calls unfolding leads_ok_def traffic_ok_def by (metis list.pred_inject(2) prod.collapse)
    with ok show ?thesis by (auto simp: leads_ok_def traffic_ok_def pop_call_def up_def member_def)
  qed
  have ex: "c_node (fst ?p) = c_node ?c0 \<and> c_calls (fst ?p) = c_calls ?c0 \<and> c_mail (fst ?p) = c_mail ?c0"
    by (cases call) (auto simp: z_create_def)
  have "leads_ok E (fst ?p)"
    using 0 ex by (auto simp: leads_ok_def traffic_ok_def up_def member_def)
  then show ?thesis
    unfolding c' z_answer_def using k
    by (auto simp: leads_ok_def traffic_ok_def on_node_def up_def member_def)
qed

lemma add_try_leads:
  assumes ok: "leads_ok E c" and t: "\<forall>resp. t = Inr resp \<longrightarrow> gr_id resp = x" and run: "add_try i x t c = Some c'"
  shows "leads_ok E c'"
proof -
  from run obtain b bs where b: "n_ballots (c_node c i) = b # bs"
    and c': "c' = on_node i (\<lambda>n. n\<lparr>n_ballots := b\<lparr>bt_tries := (x, t) # bt_tries b\<rparr> # bs\<rparr>) c"
    by (auto simp: add_try_def split: list.splits if_splits)
  have "ballot_ok E b" "list_all (ballot_ok E) bs"
    using ok b unfolding leads_ok_def traffic_ok_def by (metis list.pred_inject(2))+
  then have "ballot_ok E (b\<lparr>bt_tries := (x, t) # bt_tries b\<rparr>)" "list_all (ballot_ok E) bs"
    using t by (auto simp: ballot_ok_def)
  with ok show ?thesis
    by (auto simp: c' leads_ok_def traffic_ok_def on_node_def up_def member_def)
qed

lemma failed_try_leads:
  "leads_ok E c \<Longrightarrow> add_try i x (Inl OtherException) c = Some c' \<Longrightarrow> leads_ok E c'"
  by (rule add_try_leads) simp_all

lemma vote_leads:
  assumes ok: "leads_ok E c" "members_ok E c" and run: "vote i x c = Some c'"
  shows "leads_ok E c'"
proof -
  have "gr_id resp = x" if "handleGetMemberStateMsg msg (member x c) = Ok resp" for msg resp
    using ok(2) that by (auto simp: handleGetMemberStateMsg_def obind_Ok_iff members_ok_def identity_def)
  with run show ?thesis
    by (auto simp: vote_def split: list.splits if_splits outcome.splits intro: add_try_leads [OF ok(1), of "Inl e" x i c' for e] add_try_leads [OF ok(1), of "Inr resp" x i c' for resp])
qed

lemma count_leads:
  assumes g: "group_ok E" and ok: "leads_ok E c" "members_ok E c" and run: "count_votes i now c = Some c'"
  shows "leads_ok E c'"
proof -
  from run obtain b bs where b: "n_ballots (c_node c i) = b # bs" "up i c"
    "\<forall>x \<in> set (bt_members b). map_of (bt_tries b) x \<noteq> None"
    and c': "c' = settle i (Ok (electionDone now (map (\<lambda>x. the (map_of (bt_tries b) x)) (bt_members b)) (member i c)))
      (on_node i (\<lambda>n. n\<lparr>n_ballots := bs\<rparr>) c)"
    by (auto simp: count_votes_def split: list.splits if_splits)
  have "ballot_ok E b" using ok(1) b(1) unfolding leads_ok_def traffic_ok_def by (metis list.pred_inject(2))
  moreover have "identity E i (member i c)" "role_ok (member i c)"
    using ok b(2) by (simp_all add: members_ok_def leads_ok_def)
  ultimately show ?thesis
    unfolding c' using electionDone_sent [OF g _ _ _ b(3), of i "member i c" now] b(1,2)
    by (intro settle_leads [OF ok(1) b(2)]) (simp_all add: up_def member_def)
qed

lemma handle_leads:
  assumes g: "group_ok E" and ok: "leads_ok E c" "members_ok E c" and run: "handle_answer E i now c = Some c'"
  shows "leads_ok E c'"
proof -
  from run obtain k a rest where a: "n_answers (c_node c i) = (k, a) # rest" "up i c"
    and c': "c' = settle i (answered E now k a (member i c)) (on_node i (\<lambda>n. n\<lparr>n_answers := rest\<rparr>) c)"
    by (auto simp: handle_answer_def split: list.splits if_splits)
  have "cont_ok E i k" using ok(1) a(1) unfolding leads_ok_def traffic_ok_def by (metis list.pred_inject(2) fst_conv)
  moreover have "identity E i (member i c)" "role_ok (member i c)"
    using ok a(2) by (simp_all add: members_ok_def leads_ok_def)
  ultimately show ?thesis
    unfolding c' using answered_sent [OF g, of i "member i c" k now a] a
    by (intro settle_leads [OF ok(1) a(2)]) (simp_all add: up_def member_def)
qed

lemma receive_leads:
  assumes ok: "leads_ok E c" "members_ok E c" and run: "receive_mail n c = Some c'"
  shows "leads_ok E c'"
proof -
  let ?c1 = "c\<lparr>c_mail := remove_nth n (c_mail c)\<rparr>"
  from run obtain l bl where m: "c_mail c ! n = (l, bl)" "n < length (c_mail c)" "up l c"
    and c': "c' = settle l (handleBecomeLeaderMsg bl (member l c)) ?c1"
    by (auto simp: receive_mail_def split: if_splits prod.splits)
  have "(l, bl) \<in> set (c_mail c)" using m by (metis nth_mem)
  then have a: "announcement_ok E l (bl_functionalMembers bl)"
    using ok(1) by (auto simp: leads_ok_def traffic_ok_def list_all_iff)
  have "leads_ok E ?c1"
    using ok(1) set_remove_nth [of n "c_mail c"]
    by (auto simp: leads_ok_def traffic_ok_def list_all_iff up_def member_def)
  moreover have "identity E l (member l c)" "role_ok (member l c)"
    using ok m(3) by (simp_all add: members_ok_def leads_ok_def)
  ultimately show ?thesis
    unfolding c' using handler_sent(7) [OF _ _ a] m(3)
    by (intro id_leads) (auto simp: up_def member_def)
qed

text \<open>Writes change no role, except through the failures of peers.\<close>

lemma client_write_leads:
  assumes ok: "leads_ok E c" and run: "client_write E i msg c = Some c'"
  shows "leads_ok E c'"
proof -
  have "leads_ok E (put_member i r c)"
    if "updateBlobMeta (e_rocksdb E) (e_ser E) msg (member i c) = Ok (r, x)" "up i c" for r x
    using ok that(2) same_role_ok [OF update_role [OF that(1)]] by (intro put_leads) (auto simp: leads_ok_def)
  with run ok show ?thesis
    by (auto simp: client_write_def stop_leads split: if_splits outcome.splits sum.splits prod.splits)
qed

lemma answer_request_leads [simp]: "leads_ok E (answer_request k n res c) = leads_ok E c"
  by (simp add: answer_request_def Let_def)

lemma peer_write_leads:
  assumes ok: "leads_ok E c" and run: "peer_write E k n c = Some c'"
  shows "leads_ok E c'"
proof -
  have "leads_ok E (settle j (Ok (r, effs)) c)"
    if h: "handleKVBMessage (writeTable (e_rocksdb E) (e_parse E) (e_serResp E)) kvb (member j c) =
        Ok (r, effs, x)" "up j c" for kvb j r effs x
    using ok h(2) writeTable_role [OF h(1)] same_role_ok [of "member j c" r]
    by (intro id_leads) (auto simp: leads_ok_def)
  with run ok show ?thesis
    by (auto simp: peer_write_def stop_leads split: if_splits outcome.splits prod.splits)
qed

lemma answered_write_leads:
  assumes g: "group_ok E" and ok: "leads_ok E c" "members_ok E c" and s: "live s c"
    and run: "writePeerDone p res ctx (member (fst s) c) = Ok (ctx', r)"
  shows "leads_ok E (put_member (fst s) r c)"
  using ok live_up [OF s] peer_answer_role [OF g _ _ run, of "fst s"]
  by (intro put_leads) (auto simp: leads_ok_def members_ok_def)

lemma peer_answer_leads:
  assumes g: "group_ok E" and ok: "leads_ok E c" "members_ok E c" and run: "peer_answer k c = Some c'"
  shows "leads_ok E c'"
  using run ok(1)
  by (auto simp: peer_answer_def Let_def stop_leads split: if_splits outcome.splits prod.splits
      intro: answered_write_leads [OF g ok])

subsection \<open>Every reachable state\<close>

lemma frame_leads:
  assumes "leads_ok E c" and "c_node c' = c_node c" and "c_calls c' = c_calls c"
    and "set (c_mail c') \<subseteq> set (c_mail c)"
  shows "leads_ok E c'"
  using assms by (auto simp: leads_ok_def traffic_ok_def up_def member_def list_all_iff)

lemma watch_leads: "leads_ok E c \<Longrightarrow> leads_ok E (issue i (watchCb r) c)"
  using issue_traffic [of E c i "watchCb r"] by (simp add: leads_ok_def watchCb_def del: issue_simps)

lemma timer_leads:
  "leads_ok E c \<Longrightarrow> leads_ok E (issue i (watchCb r) (on_node i (\<lambda>n. n\<lparr>n_timers := t n\<rparr>) c))"
  by (rule watch_leads) (auto simp: leads_ok_def traffic_ok_def on_node_def up_def member_def)

interpretation leads_actions: action_laws E "\<lambda>c. leads_ok E c \<and> members_ok E c"
    "\<lambda>c c'. group_ok E \<longrightarrow> leads_ok E c'" for E
proof (unfold_locales; intro impI; elim conjE)
qed (simp; fail | (rule start_leads watch_leads timer_leads execute_leads handle_leads vote_leads
      failed_try_leads count_leads receive_leads client_write_leads peer_write_leads peer_answer_leads
      stop_leads; assumption)
    | (rule frame_leads, assumption, simp_all add: z_session_ends_def set_remove_nth; fail))+

lemma cluster_do_proceeds:
  assumes "group_ok E" and "leads_ok E c" "members_ok E c" and "cluster_do E a c = Some c'"
  shows "leads_ok E c' \<and> proceeds E c c'"
  using assms leads_actions.every_action proceeds_actions.every_action by blast

lemma cluster_do_leads:
  assumes "group_ok E" and "leads_ok E c" "members_ok E c" and "cluster_do E a c = Some c'"
  shows "leads_ok E c' \<and> members_ok E c'"
  using cluster_do_proceeds [OF assms] by (simp add: proceeds_def)

definition roles_ok :: "'db env \<Rightarrow> 'db cluster \<Rightarrow> bool" where
  "roles_ok E c \<longleftrightarrow> leads_ok E c \<and> members_ok E c"

lemma start_roles_ok: "roles_ok E (cluster_start E dbs)"
  using start_data_ok [of E dbs]
  by (simp add: roles_ok_def data_ok_def leads_ok_def traffic_ok_def) (simp add: cluster_start_def up_def)

interpretation rolesI: inv_system "cluster_init E" "\<lambda>c c'. group_ok E \<and> cluster_step E c c'" "roles_ok E"
  for E
proof unfold_locales
  show "cluster_init E s \<Longrightarrow> roles_ok E s" for s by (auto simp: cluster_init_def start_roles_ok)
  show "roles_ok E s \<Longrightarrow> group_ok E \<and> cluster_step E s t \<Longrightarrow> roles_ok E t" for s t
    by (auto simp: cluster_step_def roles_ok_def dest: cluster_do_leads)
qed

lemma reachable_roles_ok:
  assumes "group_ok E" and "reachable_cluster E c"
  shows "roles_ok E c"
proof -
  from assms(2) obtain as dbs where "cluster_run E as (cluster_start E dbs) = Some c"
    by (auto simp: reachable_cluster_def)
  then have "(\<lambda>c c'. group_ok E \<and> cluster_step E c c')\<^sup>*\<^sup>* (cluster_start E dbs) c"
    using assms(1) cluster_run_steps by simp
  then show ?thesis by (rule rolesI.steps_inv) (rule start_roles_ok)
qed

subsection \<open>The properties\<close>

text \<open>
  C4. In every state a group can reach, under any order of messages, failures, restarts and ends
  of sessions, the peers a leader knows are exactly the other members of the group, in member
  order, and it takes writes exactly while it counts a quorum: every announcement an elector
  sends is one that \<open>leader_functional_iff_quorum\<close> asks for.
\<close>

theorem group_leaders_consistent:
  assumes "group_ok E" and "reachable_cluster E c" and "up i c" and "isLeaderState (member i c)"
  shows "\<exists>lc. leaderCtx (member i c) = Some lc \<and>
    map p_id (lc_peers lc) = filter (\<lambda>j. j \<noteq> i) (e_members E) \<and>
    (mstate (member i c) = LEADER_FUNCTIONAL \<longleftrightarrow> unat (e_quorum E) \<le> nFunctional (lc_peers lc) + 1) \<and>
    (mstate (member i c) = LEADER_WAITING_FOR_QUORUM \<longleftrightarrow>
       nFunctional (lc_peers lc) + 1 < unat (e_quorum E))"
proof -
  have id: "identity E i (member i c)" and q: "quorum_consistent (member i c)"
    using reachable_roles_ok [OF assms(1,2)] assms(3,4)
    by (simp_all add: roles_ok_def members_ok_def leads_ok_def role_ok_def)
  obtain lc where lc: "leaderCtx (member i c) = Some lc" "map p_id (lc_peers lc) = filter (\<lambda>j. j \<noteq> i) (e_members E)"
    using id assms(4) by (auto simp: identity_def replica_ok_def peers_known_def)
  with quorum_consistentD [OF q lc(1)] id show ?thesis by (simp add: identity_def)
qed

text \<open>
  In the runs of the model no member is ever a functional or a syncing follower. The model has no
  action that delivers a \<open>GroupInfoUpdateMsg\<close>, because no code of the repository sends one (see
  Group_Cluster): this records the consequence, it does not test the handler.
\<close>

theorem members_never_join:
  assumes "group_ok E" and "reachable_cluster E c" and "up i c"
  shows "mstate (member i c) \<noteq> FOLLOWER_FUNCTIONAL \<and> mstate (member i c) \<noteq> FOLLOWER_SYNCING"
  using reachable_roles_ok [OF assms(1,2)] assms(3)
  by (simp add: roles_ok_def leads_ok_def role_ok_def)

lemma trio_group_ok: "group_ok (trio x)"
  by (simp add: group_ok_def trio_def)

theorem group_leaders_consistent_witness:
  "\<exists>lc. leaderCtx (member ''b'' after_election) = Some lc \<and> map p_id (lc_peers lc) = [''a'', ''c''] \<and>
     2 \<le> nFunctional (lc_peers lc) + 1"
proof -
  have "isLeaderState (member ''b'' after_election)"
    using after_election(3) by (simp add: isLeaderState_def state_order)
  from group_leaders_consistent [OF trio_group_ok after_election_reachable after_election(2) this]
  show ?thesis using after_election(3) by (auto simp: trio_def)
qed

theorem members_never_join_witness:
  "up ''c'' after_election \<and> mstate (member ''c'' after_election) \<noteq> FOLLOWER_FUNCTIONAL"
proof -
  have "up ''c'' after_election"
    using after_election_view after_election(1) by (auto simp: role_of_def)
  with members_never_join [OF trio_group_ok after_election_reachable this] show ?thesis by simp
qed

end
