(* ===== verification/Cluster_Decline.thy ===== *)
theory Cluster_Decline
  imports Cluster_Leaders Cluster_Safety
begin

section \<open>A leader's group only shrinks\<close>

text \<open>
  A peer whose write failed leaves the set of peers the leader writes to. What should bring it
  back is never sent in a running group (\<open>members_never_join\<close>), so the set only shrinks, and a
  leader that has lost its quorum stays without it until its process ends. The argument needs
  that nothing else moves a leader to another state: it holds the lock, so it has no token of an
  elector, and the answer to its own removal of the elector lock, if it was the elector, came
  before the answer that made it leader.
\<close>

subsection \<open>The order of a member's answers\<close>

fun remove_answer :: "pb_cont \<times> coord_answer \<Rightarrow> bool" where
  "remove_answer (KRemoveLock fms, UnitAnswer (Inr u)) = True"
| "remove_answer x = False"

fun in_order :: "(pb_cont \<times> coord_answer) list \<Rightarrow> bool" where
  "in_order [] = True"
| "in_order (x # xs) = ((leader_answer x \<longrightarrow> \<not> list_ex remove_answer xs) \<and> in_order xs)"

lemma in_order_snoc:
  "in_order (xs @ [a]) \<longleftrightarrow> in_order xs \<and> (remove_answer a \<longrightarrow> \<not> list_ex leader_answer xs)"
  by (induction xs) auto

definition node_order :: "'db node \<Rightarrow> bool" where
  "node_order n \<longleftrightarrow> in_order (n_answers n) \<and>
     (isLeaderState (n_replica n) \<longrightarrow> \<not> list_ex remove_answer (n_answers n))"

definition order_ok :: "'db cluster \<Rightarrow> bool" where
  "order_ok c \<longleftrightarrow> (\<forall>i. up i c \<longrightarrow> node_order (c_node c i))"

lemma order_writes [simp]: "order_ok (c\<lparr>c_writes := w\<rparr>) = order_ok c"
  by (simp add: order_ok_def up_def)

lemma order_frame:
  assumes "order_ok c" and "\<And>j. up j c' \<Longrightarrow> up j c"
    and "\<And>j. n_answers (c_node c' j) = n_answers (c_node c j)"
    and "\<And>j. isLeaderState (member j c') \<Longrightarrow> isLeaderState (member j c)"
  shows "order_ok c'"
  using assms unfolding order_ok_def node_order_def member_def by metis

lemma stop_order: "order_ok c \<Longrightarrow> order_ok (stop_member i c)"
  by (auto simp: order_ok_def stop_member_def on_node_def up_def split: if_splits)

lemma budget_leader: "within_budget r t 0 r' effs \<Longrightarrow> isLeaderState r' \<Longrightarrow> isLeaderState r"
  by (auto simp: within_budget_def leader_token_def split: if_splits)

lemma settle_order:
  fixes c :: "'db cluster"
  assumes ok: "order_ok c" and up: "up i c"
    and f: "n_up (f (c_node c i))" "node_order (f (c_node c i))"
    and b: "\<And>r effs. out = Ok (r, effs) \<Longrightarrow>
      isLeaderState r \<Longrightarrow> \<not> list_ex remove_answer (n_answers (f (c_node c i)))"
  shows "order_ok (settle i out (on_node i f c))"
proof -
  let ?c1 = "on_node i f c"
  have ok1: "order_ok ?c1" using ok f by (auto simp: order_ok_def on_node_def up_def)
  show ?thesis
  proof (cases out)
    case (Ok x)
    obtain r effs where x: "x = (r, effs)" by (cases x)
    have "node_order (c_node (settle i out ?c1) j)" if "up j (settle i out ?c1)" for j
    proof -
      have views: "n_answers (c_node (settle i out ?c1) j) = n_answers (c_node ?c1 j)"
        "n_replica (c_node (settle i out ?c1) j) = (if j = i then r else n_replica (c_node ?c1 j))"
        "up j (settle i out ?c1) = up j ?c1"
        by (simp_all add: Ok x settle_def put_member_def on_node_def up_def del: issue_simps)
      show ?thesis
      proof (cases "j = i")
        case True
        with b [OF Ok [unfolded x]] f(2) show ?thesis
          unfolding node_order_def views by (simp add: on_node_def node_order_def)
      next
        case False
        with that ok1 show ?thesis unfolding node_order_def views by (simp add: order_ok_def node_order_def)
      qed
    qed
    then show ?thesis by (simp add: order_ok_def)
  next
    case Abort
    with ok1 show ?thesis by (simp add: settle_def stop_order)
  qed (use ok1 in \<open>simp add: settle_def\<close>)
qed

lemma budget_order:
  fixes c :: "'db cluster"
  assumes ok: "order_ok c" and up: "up i c"
    and f: "n_up (f (c_node c i))" "n_answers (f (c_node c i)) = n_answers (c_node c i)"
      "n_replica (f (c_node c i)) = member i c"
    and b: "\<And>r effs. out = Ok (r, effs) \<Longrightarrow> within_budget (member i c) t 0 r effs"
  shows "order_ok (settle i out (on_node i f c))"
proof (rule settle_order [of c i f, OF ok up f(1)])
  have n: "node_order (c_node c i)" using ok up by (simp add: order_ok_def)
  then show "node_order (f (c_node c i))" using f by (simp add: node_order_def member_def)
  show "\<not> list_ex remove_answer (n_answers (f (c_node c i)))" if "out = Ok (r, effs)" "isLeaderState r" for r effs
    using n budget_leader [OF b [OF that(1)] that(2)] f(2) by (simp add: node_order_def member_def)
qed

lemma id_order:
  assumes "order_ok c" and "up i c"
    and "\<And>r effs. out = Ok (r, effs) \<Longrightarrow> within_budget (member i c) 0 0 r effs"
  shows "order_ok (settle i out c)"
  using budget_order [of c i "\<lambda>n. n" out 0] assms by (simp add: on_node_def up_def member_def)

lemma put_order:
  assumes "order_ok c" and "up i c" and "within_budget (member i c) 0 0 r []"
  shows "order_ok (put_member i r c)"
  using id_order [OF assms(1,2), of "Ok (r, [])"] assms(3) by (simp add: settle_def)

lemma start_order: "order_ok c \<Longrightarrow> order_ok (start_member E i v p c)"
  by (auto simp: order_ok_def start_member_def PBMember_init_fresh on_node_def up_def node_order_def
      switchState_def isLeaderState_def state_order simp del: issue_simps split: if_splits)

text \<open>The lock is removed by an elector, who has no claim to lead.\<close>

lemma removed_by_elector:
  assumes ok: "cluster_ok E c" and calls: "c_calls c s = (call, k) # rest"
    and a: "a = (if executed \<and> \<not> z_ended c s then snd (z_execute E s call c0) else z_failure call)"
    and r: "remove_answer (k, a)"
  shows "claims c s = 0"
proof -
  from ok calls have call: "call_ok (e_group E) (call, k)"
    unfolding cluster_ok_def cluster_wf_def by (metis list.pred_inject(2))
  obtain fms u where k: "k = KRemoveLock fms" "a = UnitAnswer (Inr u)"
    using r by (cases "(k, a)" rule: remove_answer.cases) auto
  have e: "\<not> z_ended c s" using a k(2) by (cases call) (auto split: if_splits)
  have "0 < tokens c s" using e calls k(1) by (simp add: tokens_def)
  then have "lock E c = Some (PB_LOCKTYPE_ELECTOR, s)"
    using ok_session [OF ok, of s] by (simp add: session_ok_def)
  then show ?thesis
    using no_tokens(2) [OF ok_session [OF ok], of s] by (simp add: PB_LOCKTYPE_ELECTOR_def PB_LOCKTYPE_LEADER_def)
qed

lemma no_claim:
  assumes "claims c s = 0" and "live s c"
  shows "\<not> list_ex leader_answer (n_answers (c_node c (fst s)))" "\<not> isLeaderState (member (fst s) c)"
  using assms
  by (auto simp: claims_def node_claims_def count_if_def filter_empty_conv list_ex_iff leader_token_def
      member_def split: if_splits)

lemma execute_order:
  assumes ok: "cluster_ok E c" "order_ok c" and run: "execute_call E s executed reported c = Some c'"
  shows "order_ok c'"
proof -
  from run obtain call k rest where calls: "c_calls c s = (call, k) # rest"
    by (auto simp: execute_call_def split: list.splits)
  let ?c0 = "pop_call s rest c"
  let ?p = "if executed \<and> \<not> z_ended c s then z_execute E s call ?c0 else (?c0, z_failure call)"
  define a where "a = (if reported then snd ?p else z_failure call)"
  have c': "c' = z_answer s (k, a) (fst ?p)"
    using run by (auto simp: a_def execute_call_def pop_call_def calls Let_def case_prod_beta)
  have "\<not> remove_answer (k, z_failure call)" by (cases call; cases k) auto
  then have cl: "remove_answer (k, a) \<Longrightarrow> claims c s = 0"
    using removed_by_elector [OF ok(1) calls, of "snd ?p" executed ?c0] by (auto simp: a_def split: if_splits)
  have nodes: "c_node (fst ?p) = c_node c"
    by (cases call) (auto simp: z_create_def pop_call_def)
  then have live: "live s (fst ?p) = live s c" by (simp add: node_defs)
  have "node_order (c_node c' j)" if "up j c'" for j
  proof (cases "j = fst s \<and> live s c")
    case True
    then have "node_order (c_node c j)" using ok(2) live_up [of s c] by (auto simp: order_ok_def)
    moreover have "remove_answer (k, a) \<Longrightarrow>
        \<not> list_ex leader_answer (n_answers (c_node c j)) \<and> \<not> isLeaderState (n_replica (c_node c j))"
      using no_claim [OF cl] True by (auto simp: member_def)
    ultimately show ?thesis
      using True unfolding c' z_answer_def live
      by (auto simp: on_node_def nodes node_order_def in_order_snoc simp del: remove_answer.simps)
  next
    case False
    then have "c_node c' j = c_node c j" unfolding c' z_answer_def live by (auto simp: on_node_def nodes)
    with that ok(2) show ?thesis by (simp add: order_ok_def up_def)
  qed
  then show ?thesis by (simp add: order_ok_def)
qed

lemma handle_order:
  assumes ok: "order_ok c" and run: "handle_answer E i now c = Some c'"
  shows "order_ok c'"
proof -
  from run obtain k a rest where a: "n_answers (c_node c i) = (k, a) # rest" "up i c"
    and c': "c' = settle i (answered E now k a (member i c)) (on_node i (\<lambda>n. n\<lparr>n_answers := rest\<rparr>) c)"
    by (auto simp: handle_answer_def split: list.splits if_splits)
  have n: "node_order (c_node c i)" using ok a(2) by (simp add: order_ok_def)
  show ?thesis
    unfolding c'
  proof (rule settle_order [OF ok a(2)])
    show "node_order (c_node c i\<lparr>n_answers := rest\<rparr>)" using n a(1) by (simp add: node_order_def)
    show "\<not> list_ex remove_answer (n_answers (c_node c i\<lparr>n_answers := rest\<rparr>))"
      if "answered E now k a (member i c) = Ok (r, effs)" "isLeaderState r" for r effs
      using answered_budget [OF that(1)] that(2) n a(1)
      by (auto simp: within_budget_def leader_token_def node_order_def member_def split: if_splits)
  qed (use a(2) in \<open>simp add: up_def\<close>)
qed

subsection \<open>What happens to a leader\<close>

definition writable_ids :: "'a PBMember_scheme \<Rightarrow> string set" where
  "writable_ids r = (case leaderCtx r of None \<Rightarrow> {} | Some lc \<Rightarrow> p_id ` set (getWritablePeers (lc_peers lc)))"

definition leads_on :: "'db VolumeReplica \<Rightarrow> 'db VolumeReplica \<Rightarrow> bool" where
  "leads_on r r' \<longleftrightarrow> isLeaderState r' \<and> writable_ids r' \<subseteq> writable_ids r \<and>
     (mstate r = LEADER_WAITING_FOR_QUORUM \<longrightarrow> mstate r' = LEADER_WAITING_FOR_QUORUM)"

lemma leads_on_refl: "isLeaderState r \<Longrightarrow> leads_on r r"
  by (simp add: leads_on_def)

lemma leads_on_trans: "leads_on a b \<Longrightarrow> leads_on b c \<Longrightarrow> leads_on a c"
  by (auto simp: leads_on_def)

lemma leads_on_role:
  fixes r r' :: "'db VolumeReplica"
  assumes "same_role r r'" and "isLeaderState r"
  shows "leads_on r r'"
proof -
  have "writable_ids r' = writable_ids r"
    using assms(1) by (auto simp: same_role_def writable_ids_def split: option.splits)
  with assms show ?thesis by (simp add: leads_on_def same_role_def isLeaderState_def)
qed

lemma setPeer_waiting:
  "p_id ` set (getWritablePeers (setPeer i FOLLOWER_WAIT_TO_JOIN_GROUP v ps)) \<subseteq> p_id ` set (getWritablePeers ps)"
  "nFunctional (setPeer i FOLLOWER_WAIT_TO_JOIN_GROUP v ps) \<le> nFunctional ps"
  by (induction ps) (auto simp: getWritablePeers_def isWritable_def nFunctional_def)

lemma demoted_leads_on:
  fixes r r' :: "'db VolumeReplica"
  assumes ch: "changePeerState i v FOLLOWER_WAIT_TO_JOIN_GROUP r = Ok r'"
    and ok: "identity E j r" "role_ok r" "group_ok E" and l: "isLeaderState r"
  shows "leads_on r r'"
proof -
  have q: "quorum_consistent r" and p: "peers_known r" using ok(1,2) l by (auto simp: role_ok_def identity_def replica_ok_def)
  have q': "quorum_consistent r'"
    using changePeerState_quorum_consistent [OF q p identity_small [OF ok(3,1)] ch] .
  obtain lc where lc: "leaderCtx r = Some lc" using p by (auto simp: peers_known_def)
  obtain lc' where lc': "leaderCtx r' = Some lc'"
    "lc_peers lc' = lc_peers lc \<or> lc_peers lc' = setPeer i FOLLOWER_WAIT_TO_JOIN_GROUP v (lc_peers lc)"
    using ch lc by (auto simp: changePeerState_def Let_def split: option.splits if_splits)
  have "nFunctional (lc_peers lc') \<le> nFunctional (lc_peers lc)" "writable_ids r' \<subseteq> writable_ids r"
    using lc lc' setPeer_waiting [of i v "lc_peers lc"] by (auto simp: writable_ids_def)
  moreover have "mstate r = LEADER_WAITING_FOR_QUORUM \<Longrightarrow> nFunctional (lc_peers lc) + 1 < unat (quorum r)"
    using quorum_consistentD [OF q lc] by blast
  ultimately show ?thesis
    using quorum_consistentD [OF q' lc'(1)] changePeerState_keeps(3,6) [OF ch] l
    by (auto simp: leads_on_def)
qed

lemma answered_leads_on:
  fixes r r' :: "'db VolumeReplica"
  assumes run: "answered E now k a r = Ok (r', effs)" and l: "isLeaderState r"
    and no: "\<not> elector_answer (k, a)" "\<not> leader_answer (k, a)" "\<not> remove_answer (k, a)"
  shows "r' = r"
proof -
  have s: "mstate r = LEADER_WAITING_FOR_QUORUM \<or> mstate r = LEADER_FUNCTIONAL"
    using l by (cases "mstate r") (auto simp: isLeaderState_def state_order)
  show ?thesis
    using run no s
    by (cases "(E, now, k, a, r)" rule: answered.cases)
      (auto simp: memberRootDone_def watchDone_def handleGroupWatchEvent_def orHandleError_def
        electorLockDone_def leaderLockDone_def removeLockDone_def handleError_def
        split: sum.splits outcome.splits)
qed

text \<open>How one action changes a running member.\<close>

lemma settle_member:
  "member i (settle j out c) = (case out of Ok (r, effs) \<Rightarrow> if i = j then r else member i c | _ \<Rightarrow> member i c)"
  by (auto simp: settle_def put_member_def stop_member_def node_defs split: outcome.splits simp del: issue_simps)

lemma view_members [simp]:
  "member i (stop_member j c) = member i c"
  "member i (put_member j r c) = (if i = j then r else member i c)"
  "member i (answer_request k n res c) = member i c"
  "member i (c\<lparr>c_mail := m\<rparr>) = member i c" "member i (c\<lparr>c_writes := w\<rparr>) = member i c"
  "member i (z_session_ends s c) = member i c"
  by (simp_all add: stop_member_def put_member_def answer_request_def z_session_ends_def node_defs Let_def)

lemma node_member:
  "(\<And>n. n_replica (f n) = n_replica n) \<Longrightarrow> member i (on_node j f c) = member i c"
  by (simp add: node_defs)

lemma execute_member:
  assumes "execute_call E s executed reported c = Some c'"
  shows "member i c' = member i c"
proof -
  have ex: "c_node (fst (z_execute E s call c1)) = c_node c1" for call and c1 :: "'a cluster"
    by (cases call) (simp_all add: z_create_def)
  have "c_node (fst (if b then z_execute E s call c1 else (c1, x))) = c_node c1"
    for b call x and c1 :: "'a cluster"
    using ex by simp
  with assms show ?thesis
    by (auto simp: execute_call_def Let_def case_prod_beta z_answer_def node_defs split: list.splits)
qed

lemma add_try_member: "add_try i x t c = Some c' \<Longrightarrow> member j c' = member j c"
  by (auto simp: add_try_def node_member split: list.splits if_splits)

lemma quiet_actions_member:
  assumes run: "cluster_do E a c = Some c'" and "up i c"
    and "\<And>j now. a \<noteq> Handles j now" "\<And>j now. a \<noteq> Counts j now" "\<And>n. a \<noteq> Receives n"
      "\<And>j m. a \<noteq> Writes j m" "\<And>k n. a \<noteq> PeerWrites k n" "\<And>k. a \<noteq> PeerAnswers k"
  shows "member i c' = member i c"
proof (cases a)
  case (Starts j v p)
  with assms(1,2) show ?thesis
    by (auto simp: start_member_def PBMember_init_fresh on_node_def member_def simp del: issue_simps split: if_splits)
next
  case (TimerFires j)
  with run show ?thesis by (auto simp: node_member simp del: issue_simps split: if_splits)
next
  case (Executes s)
  with run show ?thesis by (simp add: execute_member)
next
  case (Fails s e)
  with run show ?thesis by (simp add: execute_member)
next
  case (Votes j x)
  with run show ?thesis
    by (auto simp: vote_def add_try_member split: list.splits if_splits outcome.splits)
next
  case (VoteFails j x)
  with run show ?thesis by (simp add: add_try_member)
qed (use assms in \<open>auto split: if_splits simp del: issue_simps\<close>)

lemma handled_member:
  assumes "handle_answer E j now c = Some c'"
  shows "member i c' = member i c \<or> (\<exists>k b rest effs. n_answers (c_node c i) = (k, b) # rest \<and>
    answered E now k b (member i c) = Ok (member i c', effs))"
proof -
  from assms obtain k b rest where a: "n_answers (c_node c j) = (k, b) # rest"
    and c': "c' = settle j (answered E now k b (member j c)) (on_node j (\<lambda>n. n\<lparr>n_answers := rest\<rparr>) c)"
    by (auto simp: handle_answer_def split: list.splits if_splits)
  then show ?thesis
    by (auto simp: settle_member node_member split: outcome.splits)
qed

lemma counted_member:
  assumes "count_votes j now c = Some c'" and "n_ballots (c_node c i) = []"
  shows "member i c' = member i c"
  using assms
  by (auto simp: count_votes_def settle_member node_member split: list.splits if_splits prod.splits)

lemma mailed_member:
  assumes "receive_mail n c = Some c'"
  shows "member i c' = member i c"
  using assms
  by (auto simp: receive_mail_def settle_member handleBecomeLeaderMsg_def obind_Ok_iff
      split: if_splits prod.splits outcome.splits)

lemma same_role_refl [simp]: "same_role r r"
  by (simp add: same_role_def)

lemma written_member:
  assumes "client_write E j msg c = Some c' \<or> peer_write E k n c = Some c'"
  shows "same_role (member i c) (member i c')"
  using assms
proof
  assume "client_write E j msg c = Some c'"
  then show ?thesis
    by (auto simp: client_write_def update_role 
        split: if_splits outcome.splits sum.splits prod.splits)
next
  assume "peer_write E k n c = Some c'"
  then show ?thesis
    by (auto simp: peer_write_def settle_member writeTable_role(1) 
        split: if_splits outcome.splits prod.splits)
qed

lemma answered_member:
  assumes "peer_answer k c = Some c'"
  shows "member i c' = member i c \<or>
    (\<exists>p res ctx ctx'. writePeerDone p res ctx (member i c) = Ok (ctx', member i c'))"
  using assms
  by (cases "i = fst (ow_leader (c_writes c ! k))")
    (auto simp: peer_answer_def Let_def split: if_splits outcome.splits prod.splits)

text \<open>A leader has nothing of an election left to handle.\<close>

lemma leader_expects_nothing:
  assumes ok: "cluster_ok E c" "order_ok c" and i: "up i c" "isLeaderState (member i c)"
  shows "n_ballots (c_node c i) = []" and "count_if elector_answer (n_answers (c_node c i)) = 0"
    and "count_if leader_answer (n_answers (c_node c i)) = 0"
    and "\<not> list_ex remove_answer (n_answers (c_node c i))"
proof -
  have s: "live (session_of i c) c" "fst (session_of i c) = i"
    using i(1) by (simp_all add: live_def session_of_def up_def)
  have "0 < claims c (session_of i c)"
    using i(2) s by (simp add: claims_def node_claims_def leader_token_def member_def)
  then have "claims c (session_of i c) = 1" "tokens c (session_of i c) = 0"
    using ok_session [OF ok(1), of "session_of i c"] no_tokens(1) [OF ok_session [OF ok(1)], of "session_of i c"]
    by (auto simp: session_ok_def PB_LOCKTYPE_ELECTOR_def PB_LOCKTYPE_LEADER_def)
  then show "n_ballots (c_node c i) = []" "count_if elector_answer (n_answers (c_node c i)) = 0"
    "count_if leader_answer (n_answers (c_node c i)) = 0"
    using s i(2) by (auto simp: tokens_def node_tokens_def claims_def node_claims_def leader_token_def member_def)
  show "\<not> list_ex remove_answer (n_answers (c_node c i))"
    using ok(2) i by (auto simp: order_ok_def node_order_def member_def)
qed

text \<open>One action, seen from a leader.\<close>

lemma leader_step:
  assumes ok: "cluster_ok E c" "order_ok c" "roles_ok E c" "group_ok E"
    and run: "cluster_do E a c = Some c'" and i: "up i c" "isLeaderState (member i c)"
  shows "leads_on (member i c) (member i c')"
proof -
  have role: "identity E i (member i c)" "role_ok (member i c)"
    using ok(3) i(1) by (simp_all add: roles_ok_def members_ok_def leads_ok_def)
  note none = leader_expects_nothing [OF ok(1,2) i]
  have same: ?thesis if "member i c' = member i c" using that i(2) by (simp add: leads_on_refl)
  show ?thesis
  proof (cases a)
    case (Handles j now)
    with run have "handle_answer E j now c = Some c'" by simp
    from handled_member [OF this, of i] show ?thesis
    proof (elim disjE exE conjE)
      fix k b rest effs
      assume b: "n_answers (c_node c i) = (k, b) # rest" "answered E now k b (member i c) = Ok (member i c', effs)"
      have "\<not> elector_answer (k, b)" "\<not> leader_answer (k, b)" "\<not> remove_answer (k, b)"
        using none(2-4) unfolding b(1) by (auto split: if_splits)
      from answered_leads_on [OF b(2) i(2) this] show ?thesis by (rule same)
    qed (rule same)
  next
    case (PeerAnswers k)
    with run have "peer_answer k c = Some c'" by simp
    from answered_member [OF this, of i] show ?thesis
    proof (elim disjE exE)
      fix p res ctx ctx'
      assume "writePeerDone p res ctx (member i c) = Ok (ctx', member i c')"
      then show ?thesis
        by (rule peer_answer_changes) (use same demoted_leads_on [OF _ role ok(4) i(2)] in blast)+
    qed (rule same)
  next
    case (Counts j now)
    with run have "count_votes j now c = Some c'" by simp
    from same [OF counted_member [OF this none(1)]] show ?thesis .
  next
    case (Receives n)
    with run have "receive_mail n c = Some c'" by simp
    from same [OF mailed_member [OF this]] show ?thesis .
  next
    case (Writes j m)
    with run show ?thesis by (auto intro: leads_on_role [OF written_member i(2)])
  next
    case (PeerWrites k n)
    with run show ?thesis by (auto intro: leads_on_role [OF written_member i(2)])
  qed (rule same, rule quiet_actions_member [OF run i(1)], simp_all)+
qed

subsection \<open>The invariant of a run\<close>

definition decline_ok :: "'db env \<Rightarrow> 'db cluster \<Rightarrow> bool" where
  "decline_ok E c \<longleftrightarrow> cluster_ok E c \<and> order_ok c \<and> roles_ok E c"

lemma order_nodes:
  assumes "order_ok c" and "c_node c' = c_node c"
  shows "order_ok c'"
  using assms by (simp add: order_ok_def up_def)

lemma watch_order: "order_ok c \<Longrightarrow> order_ok (issue i (watchCb r) c)"
  by (rule order_nodes) (simp_all add: watchCb_def)

lemma timer_order:
  "order_ok c \<Longrightarrow> order_ok (issue i (watchCb r) (on_node i (\<lambda>n. n\<lparr>n_timers := t n\<rparr>) c))"
  by (rule watch_order) (auto simp: order_ok_def on_node_def up_def node_order_def)

lemma add_try_order:
  assumes "order_ok c" and "add_try i x t c = Some c'"
  shows "order_ok c'"
proof -
  from assms(2) obtain bs where "c' = on_node i (\<lambda>n. n\<lparr>n_ballots := bs\<rparr>) c"
    by (auto simp: add_try_def split: list.splits if_splits)
  with assms(1) show ?thesis by (auto simp: order_ok_def on_node_def up_def node_order_def)
qed

lemma vote_order: "order_ok c \<Longrightarrow> vote i x c = Some c' \<Longrightarrow> order_ok c'"
  by (auto simp: vote_def split: list.splits if_splits outcome.splits intro: add_try_order)

lemma count_order:
  assumes ok: "order_ok c" and run: "count_votes i now c = Some c'"
  shows "order_ok c'"
proof -
  from run obtain tries bs where up: "up i c"
    and c': "c' = settle i (Ok (electionDone now tries (member i c))) (on_node i (\<lambda>n. n\<lparr>n_ballots := bs\<rparr>) c)"
    by (auto simp: count_votes_def split: list.splits if_splits)
  show ?thesis
    unfolding c' using up
    by (intro budget_order [OF ok up]) (auto simp: up_def member_def dest: within_budget_ops(6))
qed

lemma receive_order:
  assumes ok: "order_ok c" and run: "receive_mail n c = Some c'"
  shows "order_ok c'"
proof -
  from run obtain l bl where up: "up l c"
    and c': "c' = settle l (handleBecomeLeaderMsg bl (member l c)) (c\<lparr>c_mail := remove_nth n (c_mail c)\<rparr>)"
    by (auto simp: receive_mail_def split: if_splits prod.splits)
  have "order_ok (c\<lparr>c_mail := remove_nth n (c_mail c)\<rparr>)" using ok by (rule order_nodes) simp
  then show ?thesis
    unfolding c' using up by (intro id_order) (auto simp: up_def dest: within_budget_ops(8))
qed

lemma client_write_order:
  "order_ok c \<Longrightarrow> client_write E i msg c = Some c' \<Longrightarrow> order_ok c'"
  by (auto simp: client_write_def split: if_splits outcome.splits sum.splits prod.splits
      intro: stop_order put_order [OF _ _ write_budget(1)])

lemma answer_request_order [simp]: "order_ok (answer_request k n res c) = order_ok c"
  by (simp add: answer_request_def Let_def)

lemma settled_order:
  assumes "order_ok c" and "up i c" and "within_budget (member i c) 0 0 r effs"
  shows "order_ok (settle i (Ok (r, effs)) c)"
  using assms by (auto intro: id_order)

lemma peer_write_order: "order_ok c \<Longrightarrow> peer_write E k n c = Some c' \<Longrightarrow> order_ok c'"
  by (auto simp: peer_write_def split: if_splits outcome.splits prod.splits
      intro: stop_order settled_order [OF _ _ write_budget(2)])

lemma answered_write_order:
  assumes "order_ok c" and "live s c" and "writePeerDone p res ctx (member (fst s) c) = Ok (ctx', r)"
  shows "order_ok (put_member (fst s) r c)"
  using put_order [OF assms(1) live_up [OF assms(2)] write_budget(3) [OF assms(3)]] .

lemma peer_answer_order: "order_ok c \<Longrightarrow> peer_answer k c = Some c' \<Longrightarrow> order_ok c'"
  by (auto simp: peer_answer_def Let_def split: if_splits outcome.splits prod.splits
      intro: stop_order answered_write_order)

interpretation order_actions: action_laws E "\<lambda>c. cluster_ok E c \<and> order_ok c" "\<lambda>c. order_ok" for E
proof (unfold_locales; elim conjE)
qed (simp add: z_session_ends_def order_nodes; fail | (rule start_order watch_order timer_order execute_order
      handle_order vote_order add_try_order count_order receive_order client_write_order peer_write_order
      peer_answer_order stop_order; assumption))+

lemma cluster_do_order:
  "cluster_ok E c \<Longrightarrow> order_ok c \<Longrightarrow> cluster_do E a c = Some c' \<Longrightarrow> order_ok c'"
  using order_actions.every_action by blast

lemma cluster_do_decline:
  assumes "decline_ok E c" and "cluster_do E a c = Some c'" and "group_ok E" and "\<not> e_expiry E"
  shows "decline_ok E c'"
  using assms cluster_do_ok [of E c a c'] cluster_do_order [of E c a c'] cluster_do_leads [of E c a c']
  by (simp add: decline_ok_def roles_ok_def)

lemma start_decline_ok: "decline_ok E (cluster_start E dbs)"
  by (simp add: decline_ok_def cluster_start_ok start_roles_ok) (simp add: cluster_start_def order_ok_def up_def)

interpretation declineI: inv_system "cluster_init E"
    "\<lambda>c c'. (group_ok E \<and> \<not> e_expiry E) \<and> cluster_step E c c'" "decline_ok E"
  for E
proof unfold_locales
  show "cluster_init E s \<Longrightarrow> decline_ok E s" for s by (auto simp: cluster_init_def start_decline_ok)
  show "decline_ok E s \<Longrightarrow> (group_ok E \<and> \<not> e_expiry E) \<and> cluster_step E s t \<Longrightarrow> decline_ok E t" for s t
    by (auto simp: cluster_step_def intro: cluster_do_decline)
qed

lemma run_decline_ok:
  assumes "decline_ok E c" and "cluster_run E as c = Some c'" and "group_ok E" and "\<not> e_expiry E"
  shows "decline_ok E c'"
proof -
  have "(\<lambda>c c'. (group_ok E \<and> \<not> e_expiry E) \<and> cluster_step E c c')\<^sup>*\<^sup>* c c'"
    using cluster_run_steps [OF assms(2)] assms(3,4) by simp
  then show ?thesis using assms(1) by (rule declineI.steps_inv)
qed

subsection \<open>The property\<close>

text \<open>A process that is there at the end of a run was there all the time.\<close>

lemma run_later:
  assumes "members_ok E c" and "group_ok E" and "leads_ok E c" and "cluster_run E as c = Some c'"
  shows "later c c'"
  using assms(4,1,3)
proof (induction as arbitrary: c)
  case Nil
  then show ?case by (simp add: later_def)
next
  case (Cons a as)
  from Cons.prems(1) obtain c1 where c1: "cluster_do E a c = Some c1" "cluster_run E as c1 = Some c'"
    by (auto split: option.splits)
  have "leads_ok E c1 \<and> proceeds E c c1" using cluster_do_proceeds [OF assms(2) Cons.prems(3,2) c1(1)] .
  then have "members_ok E c1" "leads_ok E c1" "later c c1" by (simp_all add: proceeds_def)
  with Cons.IH [OF c1(2)] show ?case by (blast intro: later_trans)
qed

text \<open>
  C5. As long as sessions end only after their processes, a leader remains one until its process
  ends; the peers it writes to only become fewer; and once it has lost its quorum it never
  functions again.
\<close>

theorem leader_group_only_shrinks:
  assumes "group_ok E" and "\<not> e_expiry E" and "reachable_cluster E c"
    and "up i c" and "isLeaderState (member i c)"
    and "cluster_run E as c = Some c'" and "up i c'" and "session_of i c' = session_of i c"
  shows "isLeaderState (member i c') \<and> writable_ids (member i c') \<subseteq> writable_ids (member i c) \<and>
    (mstate (member i c) = LEADER_WAITING_FOR_QUORUM \<longrightarrow>
     mstate (member i c') = LEADER_WAITING_FOR_QUORUM)"
proof -
  from assms(3) obtain as0 dbs where "cluster_run E as0 (cluster_start E dbs) = Some c"
    by (auto simp: reachable_cluster_def)
  from run_decline_ok [OF start_decline_ok this assms(1,2)] have "decline_ok E c" .
  from assms(6,4,5,8) this have "leads_on (member i c) (member i c')"
  proof (induction as arbitrary: c)
    case Nil
    then show ?case by (simp add: leads_on_refl)
  next
    case (Cons a as)
    from Cons.prems(1) obtain c1 where c1: "cluster_do E a c = Some c1" "cluster_run E as c1 = Some c'"
      by (auto split: option.splits)
    have ok: "cluster_ok E c" "order_ok c" "roles_ok E c" using Cons.prems(5) by (simp_all add: decline_ok_def)
    have ok1: "decline_ok E c1" by (rule cluster_do_decline [OF Cons.prems(5) c1(1) assms(1,2)])
    then have "members_ok E c1" "leads_ok E c1" by (simp_all add: decline_ok_def roles_ok_def)
    then have la: "later c1 c'" using run_later [OF _ assms(1) _ c1(2)] by blast
    moreover have la1: "later c c1"
      using cluster_do_proceeds [OF assms(1) _ _ c1(1)] ok(3) by (simp add: roles_ok_def proceeds_def)
    ultimately have s: "session_of i c1 = session_of i c" "session_of i c' = session_of i c1"
      using Cons.prems(4) later_session by metis+
    then have "up i c1" using la assms(7) unfolding later_def by blast
    have l: "leads_on (member i c) (member i c1)"
      by (rule leader_step [OF ok assms(1) c1(1) Cons.prems(2,3)])
    then have "isLeaderState (member i c1)" by (simp add: leads_on_def)
    from Cons.IH [OF c1(2) \<open>up i c1\<close> this s(2) ok1] l show ?case by (blast intro: leads_on_trans)
  qed
  then show ?thesis by (simp add: leads_on_def)
qed

theorem leader_group_only_shrinks_witness:
  "up ''a'' after_rejoining \<and> up ''c'' after_rejoining \<and>
   mstate (member ''b'' after_rejoining) = LEADER_WAITING_FOR_QUORUM"
proof -
  have "reachable_cluster (trio False) after_failure"
    using rejoining_run(1) unfolding reachable_cluster_def by blast
  moreover have "isLeaderState (member ''b'' after_failure)"
    using rejoining_run(4) by (simp add: isLeaderState_def state_order)
  moreover have "\<not> e_expiry (trio False)" by (simp add: trio_def)
  ultimately show ?thesis
    using leader_group_only_shrinks [OF trio_group_ok _ _ rejoining_run(3) _ rejoining_run(2,5,8)]
      rejoining_run(4,6,7) by blast
qed

end
