(* ===== verification/Cluster_Election.thy ===== *)
theory Cluster_Election
  imports Cluster_Safety Cluster_Writes
begin

section \<open>A free lock leads to a leader\<close>

text \<open>
  The counterpart of the safety properties: from every reachable state in which nobody holds the
  group's lock, one member is allowed to stand for elector and a quorum of members that agree
  answer it, the actions listed in \<open>campaign\<close> make one of them a functional leader that holds the
  lock. No other action is needed; which member leads is determined.
\<close>

declare issue1.simps [simp del]

subsection \<open>What one member changes\<close>

text \<open>
  The states along the way differ from the state \<open>c\<close> at their start in the member \<open>i\<close>, the calls
  of its session, and the data of the coordination service.
\<close>

definition phase ::
  "string \<Rightarrow> 'db VolumeReplica \<Rightarrow> (coord_call \<times> pb_cont) list \<Rightarrow> ballot list \<Rightarrow>
    (string \<times> string \<times> session) list \<Rightarrow> int \<Rightarrow> 'db cluster \<Rightarrow> 'db cluster" where
  "phase i r calls bs nodes ver c =
     c\<lparr>c_node := (c_node c)(i := (c_node c i)\<lparr>n_replica := r, n_ballots := bs\<rparr>),
       c_calls := (c_calls c)(session_of i c := calls), z_nodes := nodes, z_version := ver\<rparr>"

definition idle :: "string \<Rightarrow> 'db cluster \<Rightarrow> bool" where
  "idle i c \<longleftrightarrow> up i c \<and> c_calls c (session_of i c) = [] \<and> n_answers (c_node c i) = [] \<and>
     n_ballots (c_node c i) = []"

lemma phase_views [simp]:
  "member j (phase i r cs bs nodes ver c) = (if j = i then r else member j c)"
  "up j (phase i r cs bs nodes ver c) = up j c"
  "session_of j (phase i r cs bs nodes ver c) = session_of j c"
  "live s (phase i r cs bs nodes ver c) = live s c"
  "c_calls (phase i r cs bs nodes ver c) s = (if s = session_of i c then cs else c_calls c s)"
  "z_nodes (phase i r cs bs nodes ver c) = nodes" "z_version (phase i r cs bs nodes ver c) = ver"
  "z_ended (phase i r cs bs nodes ver c) = z_ended c" "c_mail (phase i r cs bs nodes ver c) = c_mail c"
  "n_ballots (c_node (phase i r cs bs nodes ver c) j) = (if j = i then bs else n_ballots (c_node c j))"
  "n_answers (c_node (phase i r cs bs nodes ver c) j) = n_answers (c_node c j)"
  by (simp_all add: phase_def member_def up_def session_of_def live_def)

text \<open>Two states with the same fields, member by member and session by session, are equal.\<close>

lemma cluster_eqI:
  fixes c c' :: "'db cluster"
  assumes "\<And>j. c_node c j = c_node c' j" and "\<And>s. c_calls c s = c_calls c' s"
    and "c_mail c = c_mail c'" "c_writes c = c_writes c'" "z_nodes c = z_nodes c'" "z_ended c = z_ended c'"
    and "z_sequence c = z_sequence c'" "z_version c = z_version c'"
  shows "c = c'"
  using assms by (intro cluster.equality) auto

lemmas state_eqI = cluster_eqI [OF node.equality]

lemma phase_put [simp]: "put_member i r' (phase i r cs bs nodes ver c) = phase i r' cs bs nodes ver c"
  by (rule state_eqI) (simp_all add: phase_def put_member_def on_node_def)

lemma phase_coord [simp]:
  "issue1 i (phase i r cs bs nodes ver c) (Coord call k) = phase i r (cs @ [(call, k)]) bs nodes ver c"
  by (simp add: phase_def session_of_def issue1.simps)

lemma phase_ballot [simp]:
  "issue1 i (phase i r cs bs nodes ver c) (ElectionRequest ids msg) =
     phase i r cs (bs @ [\<lparr>bt_members = ids, bt_msg = msg, bt_tries = []\<rparr>]) nodes ver c"
  by (simp add: phase_def on_node_def issue1.simps)

lemma idle_phase: "idle i c \<Longrightarrow> c = phase i (member i c) [] [] (z_nodes c) (z_version c) c"
  by (rule state_eqI) (simp_all add: idle_def phase_def member_def)

text \<open>A call is executed, and its answer handled.\<close>

lemma exchange:
  assumes i: "up i c" "n_answers (c_node c i) = []" "\<not> z_ended c (session_of i c)"
    and x: "z_execute E (session_of i c) call (phase i r [] bs nodes ver c) =
      (phase i r [] bs nodes' ver' c, a)"
    and h: "answered E now k a r = Ok (r', effs)"
  shows "cluster_run E [Executes (session_of i c), Handles i now] (phase i r [(call, k)] bs nodes ver c) =
    Some (issue i effs (phase i r' [] bs nodes' ver' c))"
proof -
  let ?s = "session_of i c"
  let ?c1 = "phase i r [] bs nodes' ver' c"
  have pop: "phase i r [(call, k)] bs nodes ver c\<lparr>c_calls := (c_calls (phase i r [(call, k)] bs nodes ver c))(?s := [])\<rparr> =
      phase i r [] bs nodes ver c"
    by (simp add: phase_def)
  have live: "live ?s c" using i(1) by (simp add: live_def session_of_def up_def)
  have e: "execute_call E ?s True True (phase i r [(call, k)] bs nodes ver c) = Some (z_answer ?s (k, a) ?c1)"
    using i(3) x pop by (simp add: execute_call_def)
  have "z_answer ?s (k, a) ?c1 = on_node i (\<lambda>n. n\<lparr>n_answers := [(k, a)]\<rparr>) ?c1"
    using live i(2) by (simp add: z_answer_def on_node_def) (simp add: session_of_def)
  moreover have "on_node i (\<lambda>n. n\<lparr>n_answers := []\<rparr>) (on_node i (\<lambda>n. n\<lparr>n_answers := [(k, a)]\<rparr>) ?c1) = ?c1"
    using i(2) by (intro state_eqI) (simp_all add: on_node_def phase_def)
  ultimately have "handle_answer E i now (z_answer ?s (k, a) ?c1) = Some (settle i (Ok (r', effs)) ?c1)"
    using i(1) h by (simp add: handle_answer_def) (simp add: on_node_def up_def member_def phase_def)
  with e show ?thesis by (simp add: settle_def)
qed

lemma exchange_call:
  assumes "up i c" "n_answers (c_node c i) = []" "\<not> z_ended c (session_of i c)"
    and "z_execute E (session_of i c) call (phase i r [] bs nodes ver c) =
      (phase i r [] bs nodes' ver' c, a)"
    and "answered E now k a r = Ok (r', [Coord call' k'])"
  shows "cluster_run E [Executes (session_of i c), Handles i now] (phase i r [(call, k)] bs nodes ver c) =
    Some (phase i r' [(call', k')] bs nodes' ver' c)"
  using exchange [OF assms] by simp

lemma same_nodes [simp]: "c\<lparr>z_nodes := z_nodes c\<rparr> = c"
  by simp

lemma phase_ballots [simp]:
  "on_node i (\<lambda>n. n\<lparr>n_ballots := bs'\<rparr>) (phase i r cs bs nodes ver c) = phase i r cs bs' nodes ver c"
  by (simp add: phase_def on_node_def)

lemma run_append:
  "cluster_run E as c = Some c1 \<Longrightarrow> cluster_run E bs c1 = r \<Longrightarrow> cluster_run E (as @ bs) c = r"
  by (simp add: cluster_run_append)

subsection \<open>The coordination service\<close>

lemma phase_children [simp]:
  "z_children key (phase i r cs bs nodes ver c) = z_children key (c\<lparr>z_nodes := nodes\<rparr>)"
  by (simp add: z_children_def)

lemma phase_create [simp]:
  "z_create path v s (phase i r cs bs nodes ver c) =
     (if map_of nodes path = None
      then (phase i r cs bs ((path, v, s) # nodes) ver c, TextAnswer (Inr path))
      else (phase i r cs bs nodes ver c, TextAnswer (Inl (StatusException STATUS_DUPLICATE_KEY))))"
  by (simp add: z_create_def phase_def)

lemma phase_set_key:
  "z_execute E s (SetKey (e_group E) v n) (phase i r cs bs nodes ver c) =
     (phase i r cs bs nodes (ver + 1) c, VersionAnswer (Inr (ver + 1)))"
  by (simp add: phase_def)

lemma phase_del_key:
  "map_of nodes path \<noteq> None \<Longrightarrow> z_execute E s (DelKey path n) (phase i r cs bs nodes ver c) =
     (phase i r cs bs (filter (\<lambda>n. fst n \<noteq> path) nodes) ver c, UnitAnswer (Inr ()))"
  by (simp add: phase_def)

lemma child_iff: "x \<in> set (z_children key c) \<longleftrightarrow> map_of (z_nodes c) (key @ ''/'' @ x) \<noteq> None"
proof -
  have "(case n of (p, v, s) \<Rightarrow> if take (length key + 1) p = key @ ''/''
      then Some (drop (length key + 1) p) else None) = Some x \<longleftrightarrow> fst n = key @ ''/'' @ x"
    for n :: "string \<times> string \<times> session"
  proof (cases n)
    case (fields p v s)
    have "take (length key + 1) p = key @ ''/'' \<and> drop (length key + 1) p = x \<longleftrightarrow> p = key @ ''/'' @ x"
      (is "?parts \<longleftrightarrow> _")
    proof
      assume ?parts
      then show "p = key @ ''/'' @ x" by (metis append.assoc append_take_drop_id)
    qed simp
    then show ?thesis by (auto simp: fields)
  qed
  note name = this
  have "x \<in> set (z_children key c) \<longleftrightarrow> (\<exists>n \<in> set (z_nodes c). fst n = key @ ''/'' @ x)"
    unfolding z_children_def set_map_filter_eq mem_Collect_eq name ..
  also have "\<dots> \<longleftrightarrow> key @ ''/'' @ x \<in> fst ` set (z_nodes c)"
    unfolding image_iff by (rule bex_cong [OF refl]) (rule eq_commute)
  finally show ?thesis by (simp only: map_of_eq_None_iff not_not)
qed

lemma lock_child: "hasLock (z_children (e_group E) c) \<longleftrightarrow> lock E c \<noteq> None"
  by (simp add: hasLock_def List.member_iff child_iff lock_def group_lock_def del: append_assoc)

lemma children_with_lock:
  "z_children (e_group E) (c\<lparr>z_nodes := (group_lock E, e) # nodes\<rparr>) =
     PB_LOCK_KEY # z_children (e_group E) (c\<lparr>z_nodes := nodes\<rparr>)"
  by (cases e) (simp add: z_children_def group_lock_def map_filter_simps)

lemma lock_is_no_member:
  "folly_ok f \<Longrightarrow> hasQuorumMemberCount f (PB_LOCK_KEY # children) m = hasQuorumMemberCount f children m"
  by (simp add: hasQuorumMemberCount_def parseMembers_def folly_ok_def PB_LOCK_KEY_def)

subsection \<open>Standing for elector\<close>

text \<open>
  The member is idle and follows no leader, its checks of the group's children succeed.
\<close>

definition may_stand :: "'db env \<Rightarrow> string \<Rightarrow> int \<Rightarrow> 'db cluster \<Rightarrow> bool" where
  "may_stand E i now c \<longleftrightarrow> idle i c \<and> mstate (member i c) = FOLLOWER_WAIT_TO_JOIN_GROUP \<and>
     canIBeElector (e_folly E) now (z_children (e_group E) c) (member i c) = Ok True \<and>
     hasQuorumMemberCount (e_folly E) (z_children (e_group E) c) (member i c) = Ok True"

definition stand :: "string \<Rightarrow> session \<Rightarrow> int \<Rightarrow> action list" where
  "stand i s now = WatchFires i # concat (replicate 4 [Executes s, Handles i now])"

text \<open>The elector once it has the lock, the new term and the members' nodes.\<close>

definition elector :: "'db env \<Rightarrow> string \<Rightarrow> 'db cluster \<Rightarrow> 'db VolumeReplica" where
  "elector E i c = (member i c)\<lparr>termId := narrow32 (z_version c + 1), mstate := EC_ELECTION_IN_PROGRESS\<rparr>"

definition election_request :: "'db VolumeReplica \<Rightarrow> ballot" where
  "election_request r = \<lparr>bt_members = memberIds r,
     bt_msg = \<lparr>gm_groupType = PB_VOLUMES_TYPE, gm_resourceId = resourceId r, gm_termId = termId r\<rparr>,
     bt_tries = []\<rparr>"

definition with_elector :: "'db env \<Rightarrow> string \<Rightarrow> 'db cluster \<Rightarrow> (string \<times> string \<times> session) list" where
  "with_elector E i c = (group_lock E, PB_LOCKTYPE_ELECTOR, session_of i c) # z_nodes c"

lemma stands_for_election:
  assumes f: "folly_ok (e_folly E)" and ready: "may_stand E i now c" and free: "lock E c = None"
    and g: "groupKey (member i c) = e_group E" and s: "\<not> z_ended c (session_of i c)"
  shows "cluster_run E (stand i (session_of i c) now) c =
    Some (phase i (elector E i c) [] [election_request (elector E i c)] (with_elector E i c) (z_version c + 1) c)"
proof -
  let ?s = "session_of i c" and ?r = "member i c" and ?N = "z_nodes c" and ?N1 = "with_elector E i c"
  let ?v = "z_version c" and ?g = "e_group E" and ?cs = "z_children (e_group E) c"
  have i: "up i c" "n_answers (c_node c i) = []" and m: "mstate ?r = FOLLOWER_WAIT_TO_JOIN_GROUP"
    and can: "canIBeElector (e_folly E) now ?cs ?r = Ok True"
    and q: "hasQuorumMemberCount (e_folly E) ?cs ?r = Ok True"
    using ready by (simp_all add: may_stand_def idle_def)
  note ex = exchange [OF i s]
  let ?r1 = "switchState EC_ACQUIRE_LOCK ?r" and ?r2 = "(switchState EC_ACQUIRE_LOCK ?r)\<lparr>termId := narrow32 (?v + 1)\<rparr>"
  have nolock: "\<not> hasLock ?cs" using free lock_child [of E c] by simp
  have q': "hasQuorumMemberCount (e_folly E) (PB_LOCK_KEY # ?cs) r = Ok True" if "quorum r = quorum ?r"
    for r :: "'a VolumeReplica"
    using q that by (simp add: lock_is_no_member [OF f]) (simp add: hasQuorumMemberCount_def)
  have "phase i ?r [] [] ?N ?v c = c" using idle_phase [of i c] ready by (simp add: may_stand_def)
  then have same: "issue1 i c (Coord call k) = phase i ?r [(call, k)] [] ?N ?v c" for call k
    using phase_coord [of i ?r "[]" "[]" ?N ?v c call k] by simp
  have start: "cluster_run E [WatchFires i] c = Some (phase i ?r [(GetChildren ?g True, KWatch)] [] ?N ?v c)"
    using i(1) same by (simp add: watchCb_def g)
  have e1: "cluster_run E [Executes ?s, Handles i now] (phase i ?r [(GetChildren ?g True, KWatch)] [] ?N ?v c) =
      Some (phase i ?r1 [(CreateEphemeral (group_lock E) PB_LOCKTYPE_ELECTOR False, KElectorLock)] [] ?N ?v c)"
    by (rule exchange_call [OF i s, where a = "ChildrenAnswer (Inr ?cs)"])
      (simp_all add: m can nolock watchDone_def orHandleError_def handleGroupWatchEvent_def acquireLock_def
        lockKey_def group_lock_def g switchState_def)
  have e2: "cluster_run E [Executes ?s, Handles i now]
        (phase i ?r1 [(CreateEphemeral (group_lock E) PB_LOCKTYPE_ELECTOR False, KElectorLock)] [] ?N ?v c) =
      Some (phase i ?r1 [(SetKey ?g [] (- 1), KElectorTerm)] [] ?N1 ?v c)"
    using free
    by (intro exchange_call [OF i s, where a = "TextAnswer (Inr (group_lock E))"])
      (simp_all add: lock_def with_elector_def electorLockDone_def increaseTerm_def g switchState_def)
  have e3: "cluster_run E [Executes ?s, Handles i now] (phase i ?r1 [(SetKey ?g [] (- 1), KElectorTerm)] [] ?N1 ?v c) =
      Some (phase i ?r2 [(GetChildren ?g False, KElectorChildren)] [] ?N1 (?v + 1) c)"
    by (rule exchange_call [OF i s phase_set_key]) (simp add: electorTermDone_def g switchState_def)
  have e4: "cluster_run E [Executes ?s, Handles i now]
        (phase i ?r2 [(GetChildren ?g False, KElectorChildren)] [] ?N1 (?v + 1) c) =
      Some (phase i (elector E i c) [] [election_request (elector E i c)] ?N1 (?v + 1) c)"
    by (subst exchange [OF i s, where a = "ChildrenAnswer (Inr (PB_LOCK_KEY # ?cs))" and
          r' = "elector E i c" and effs = "[issueElectionRequest (elector E i c)]"])
      (simp_all add: with_elector_def children_with_lock electorChildrenDone_def orHandleError_def
        startElectionIfQuorum_def q' elector_def switchState_def issueElectionRequest_def election_request_def)
  show ?thesis
    unfolding stand_def using run_append [OF start run_append [OF e1 run_append [OF e2 run_append [OF e3 e4]]]]
    by (simp add: numeral_eq_Suc)
qed

subsection \<open>The votes\<close>

text \<open>What a member answers when it accepts the term of a request, and who is asked to answer.\<close>

definition response :: "'db VolumeReplica \<Rightarrow> GetMemberStateRespMsg" where
  "response r = \<lparr>gr_id = myId r, gr_commitId = commitId r, gr_version = 0, gr_state = mstate r\<rparr>"

definition ballot_action :: "string \<Rightarrow> string list \<Rightarrow> string \<Rightarrow> action" where
  "ballot_action i vs x = (if x \<in> set vs then Votes i x else VoteFails i x)"

definition try_of :: "string list \<Rightarrow> (string \<Rightarrow> GetMemberStateRespMsg) \<Rightarrow> string \<Rightarrow> exn + GetMemberStateRespMsg" where
  "try_of vs f x = (if x \<in> set vs then Inr (f x) else Inl OtherException)"

lemma phase_try:
  assumes "up i c" and "x \<in> set (bt_members b)" and "map_of (bt_tries b) x = None"
  shows "add_try i x t (phase i r cs (b # bs) nodes ver c) =
    Some (phase i r cs (b\<lparr>bt_tries := (x, t) # bt_tries b\<rparr> # bs) nodes ver c)"
  using assms by (simp add: add_try_def)

lemma ballots_cast:
  assumes "up i c" and "distinct xs" and "set xs \<subseteq> set (bt_members b)"
    and "\<forall>x \<in> set xs. map_of (bt_tries b) x = None"
    and "\<forall>x \<in> set xs \<inter> set vs. up x c \<and>
      handleGetMemberStateMsg (bt_msg b) (if x = i then r else member x c) = Ok (f x)"
  shows "cluster_run E (map (ballot_action i vs) xs) (phase i r cs (b # bs) nodes ver c) =
    Some (phase i r cs (b\<lparr>bt_tries := rev (map (\<lambda>x. (x, try_of vs f x)) xs) @ bt_tries b\<rparr> # bs) nodes ver c)"
  using assms(2-5)
proof (induction xs arbitrary: b)
  case (Cons x xs)
  let ?b = "b\<lparr>bt_tries := (x, try_of vs f x) # bt_tries b\<rparr>"
  have "cluster_do E (ballot_action i vs x) (phase i r cs (b # bs) nodes ver c) =
      Some (phase i r cs (?b # bs) nodes ver c)"
    using Cons.prems assms(1) by (auto simp: ballot_action_def try_of_def vote_def phase_try)
  moreover have "cluster_run E (map (ballot_action i vs) xs) (phase i r cs (?b # bs) nodes ver c) =
      Some (phase i r cs (?b\<lparr>bt_tries := rev (map (\<lambda>x. (x, try_of vs f x)) xs) @ bt_tries ?b\<rparr> # bs) nodes ver c)"
    using Cons.prems by (intro Cons.IH) auto
  ultimately show ?case by simp
qed simp

lemma votes_counted:
  assumes up: "up i c" and d: "distinct (bt_members b)"
    and t: "bt_tries b = rev (map (\<lambda>x. (x, g x)) (bt_members b))"
    and e: "electionDone now (map g (bt_members b)) r = (r', [Coord call k])"
  shows "cluster_run E [Counts i now] (phase i r [] [b] nodes ver c) =
    Some (phase i r' [(call, k)] [] nodes ver c)"
proof -
  have lookup: "map_of (bt_tries b) x = Some (g x)" if "x \<in> set (bt_members b)" for x
    unfolding t using d that by (intro map_of_is_SomeI) (auto simp: rev_map o_def)
  show ?thesis using up e by (simp add: count_votes_def settle_def lookup cong: map_cong)
qed

lemma answers_tries: "answers (map (try_of vs f) xs) = map f (filter (\<lambda>x. x \<in> set vs) xs)"
  by (induction xs) (simp_all add: try_of_def)

lemma one_commit:
  assumes "rs \<noteq> []" and "\<forall>r \<in> set rs. gr_commitId r = k"
  shows "with_commit (least_commit rs) rs = rs"
proof -
  have "set (map gr_commitId rs) = {k}" using assms by (cases rs) auto
  then show ?thesis using assms(2) by (simp add: least_commit_def with_commit_def)
qed

text \<open>
  The voters are members that run, that have not seen a later term, and that report one commit id;
  the first of them in the order of the members becomes the leader.
\<close>

definition electorate :: "'db env \<Rightarrow> string list \<Rightarrow> int \<Rightarrow> 'db cluster \<Rightarrow> bool" where
  "electorate E vs k c \<longleftrightarrow> distinct vs \<and> vs \<noteq> [] \<and> set vs \<subseteq> set (e_members E) \<and>
     unat (e_quorum E) \<le> length vs \<and>
     list_all (\<lambda>x. up x c \<and> commitId (member x c) = k \<and>
       termId (member x c) \<le> narrow32 (z_version c + 1)) vs"

definition voters :: "'db env \<Rightarrow> string list \<Rightarrow> string list" where
  "voters E vs = filter (\<lambda>x. x \<in> set vs) (e_members E)"

lemma voters_facts:
  assumes "electorate E vs k c" and "distinct (e_members E)"
  shows "length (voters E vs) = length vs" and "set (voters E vs) = set vs" and "voters E vs \<noteq> []"
proof -
  show s: "set (voters E vs) = set vs" using assms(1) by (auto simp: electorate_def voters_def)
  have "distinct (voters E vs)" using assms(2) by (simp add: voters_def)
  then show "length (voters E vs) = length vs"
    using s assms(1) by (metis distinct_card electorate_def)
  show "voters E vs \<noteq> []" using s assms(1) by (auto simp: electorate_def)
qed

text \<open>The elector with its answers, and the message it sends.\<close>

definition vote_result :: "'db env \<Rightarrow> string \<Rightarrow> string list \<Rightarrow> 'db cluster \<Rightarrow> GetMemberStateRespMsg list" where
  "vote_result E i vs c =
     map (\<lambda>x. response (if x = i then elector E i c else member x c)) (voters E vs)"

definition retired :: "'db env \<Rightarrow> string \<Rightarrow> int \<Rightarrow> 'db cluster \<Rightarrow> 'db VolumeReplica" where
  "retired E i now c =
     (elector E i c)\<lparr>lastElection := now, mstate := FOLLOWER_WAIT_TO_JOIN_GROUP\<rparr>"

definition announcement :: "'db env \<Rightarrow> string \<Rightarrow> string list \<Rightarrow> 'db cluster \<Rightarrow> BecomeLeaderMsg" where
  "announcement E i vs c =
     \<lparr>bl_resourceId = resourceId (member i c), bl_termId = narrow32 (z_version c + 1),
      bl_functionalMembers = map (\<lambda>x. x\<lparr>gr_state := FOLLOWER_FUNCTIONAL\<rparr>) (vote_result E i vs c)\<rparr>"

definition conclude :: "string \<Rightarrow> session \<Rightarrow> int \<Rightarrow> action list" where
  "conclude i s now = [Counts i now, Executes s, Handles i now]"

lemma elector_lock_removed:
  assumes "lock E c = None"
  shows "z_execute E s (DelKey (group_lock E) n) (phase i r [] bs (with_elector E i c) ver c) =
    (phase i r [] bs (z_nodes c) ver c, UnitAnswer (Inr ()))"
proof -
  have "filter (\<lambda>n. fst n \<noteq> group_lock E) (z_nodes c) = z_nodes c"
    using assms by (force simp: filter_id_conv lock_def map_of_eq_None_iff)
  then show ?thesis by (subst phase_del_key) (simp_all add: with_elector_def)
qed

lemma vote_accepted:
  assumes "electorate E vs k c" and "x \<in> set vs"
  shows "handleGetMemberStateMsg (bt_msg (election_request (elector E i c)))
    (if x = i then elector E i c else member x c) = Ok (response (if x = i then elector E i c else member x c))"
  using assms by (auto simp: electorate_def list_all_iff handleGetMemberStateMsg_def throwIfInvalidTerm_def
      election_request_def elector_def response_def)

lemma election_concluded:
  assumes el: "electorate E vs k c" and d: "distinct (e_members E)" and ids: "members_ok E c"
    and i: "up i c" "n_answers (c_node c i) = []" and s: "\<not> z_ended c (session_of i c)"
    and free: "lock E c = None" and g: "groupKey (member i c) = e_group E"
  shows "cluster_run E (map (ballot_action i vs) (e_members E) @ conclude i (session_of i c) now)
      (phase i (elector E i c) [] [election_request (elector E i c)] (with_elector E i c) (z_version c + 1) c) =
    Some (issue i [BecomeLeaderTo (hd (voters E vs)) (announcement E i vs c),
                   AfterDelay GROUPWATCH_INTERVAL_MS (e_group E)]
            (phase i (retired E i now c) [] [] (z_nodes c) (z_version c + 1) c))"
proof -
  let ?r = "elector E i c" and ?N = "z_nodes c" and ?N1 = "with_elector E i c" and ?v = "z_version c + 1"
  let ?s = "session_of i c" and ?ids = "e_members E" and ?rs = "vote_result E i vs c"
  let ?f = "\<lambda>x. response (if x = i then ?r else member x c)" and ?b = "election_request ?r"
  let ?r1 = "?r\<lparr>lastElection := now\<rparr>"
  have m: "memberIds ?r = ?ids" "quorum ?r = e_quorum E"
    using ids by (simp_all add: elector_def members_ok_def identity_def)
  have cast: "cluster_run E (map (ballot_action i vs) ?ids) (phase i ?r [] [?b] ?N1 ?v c) =
      Some (phase i ?r [] [?b\<lparr>bt_tries := rev (map (\<lambda>x. (x, try_of vs ?f x)) ?ids)\<rparr>] ?N1 ?v c)"
    using ballots_cast [OF i(1) d, of ?b vs ?r ?f E "[]" "[]" ?N1 ?v] el vote_accepted [OF el] m(1)
    by (simp add: election_request_def electorate_def list_all_iff)
  have rs: "answers (map (try_of vs ?f) ?ids) = ?rs" "?rs \<noteq> []" "unat (e_quorum E) \<le> length ?rs"
    using voters_facts [OF el d] el by (simp_all add: answers_tries vote_result_def voters_def electorate_def)
  have "\<forall>r \<in> set ?rs. gr_commitId r = k"
    using el voters_facts(2) [OF el d]
    by (auto simp: vote_result_def response_def elector_def electorate_def list_all_iff)
  note one = one_commit [OF rs(2) this]
  have done1: "electionDone now (map (try_of vs ?f) ?ids) ?r = (?r1, [removeLock (KRemoveLock ?rs) ?r])"
    using rs one m(2) by (simp add: electionDone_eq Let_def)
  have count: "cluster_run E [Counts i now]
        (phase i ?r [] [?b\<lparr>bt_tries := rev (map (\<lambda>x. (x, try_of vs ?f x)) ?ids)\<rparr>] ?N1 ?v c) =
      Some (phase i ?r1 [(DelKey (group_lock E) (- 1), KRemoveLock ?rs)] [] ?N1 ?v c)"
    using done1 m(1) d
    by (intro votes_counted [OF i(1)])
      (simp_all add: election_request_def removeLock_def lockKey_def group_lock_def elector_def g)
  have hd: "gr_id (hd ?rs) = hd (voters E vs)"
    using voters_facts(3) [OF el d] ids
    by (simp add: vote_result_def hd_map response_def members_ok_def identity_def elector_def)
  have remove: "answered E now (KRemoveLock ?rs) (UnitAnswer (Inr ())) ?r1 =
      Ok (retired E i now c, [BecomeLeaderTo (hd (voters E vs)) (announcement E i vs c),
                              AfterDelay GROUPWATCH_INTERVAL_MS (e_group E)])"
    using rs(2) hd by (cases ?rs) (auto simp: removeLockDone_def sendBecomeLeaderMsg_def switchState_def
        retired_def announcement_def scheduleGroupWatchEvent_def elector_def g)
  show ?thesis
    unfolding conclude_def
    using run_append [OF cast run_append [OF count exchange [OF i s elector_lock_removed [OF free] remove]]] by simp
qed

subsection \<open>The new leader\<close>

definition accede :: "string \<Rightarrow> session \<Rightarrow> nat \<Rightarrow> int \<Rightarrow> action list" where
  "accede l s n now = [Receives n, Executes s, Handles l now]"

lemma leader_takes_lock:
  assumes mail: "c_mail c = ms @ [(l, bl)]" and l: "idle l c" and s: "\<not> z_ended c (session_of l c)"
    and free: "lock E c = None" and g: "groupKey (member l c) = e_group E"
    and t: "termId (member l c) \<le> bl_termId bl"
    and q: "unat (quorum (member l c)) \<le> length (bl_functionalMembers bl)"
  obtains c' where "cluster_run E (accede l (session_of l c) (length ms) now) c = Some c'"
    and "up l c'" "mstate (member l c') = LEADER_FUNCTIONAL" "session_of l c' = session_of l c"
    and "lock E c' = Some (PB_LOCKTYPE_LEADER, session_of l c)" and "c_mail c' = ms"
proof -
  let ?r = "member l c" and ?c = "c\<lparr>c_mail := ms\<rparr>" and ?N = "z_nodes c" and ?v = "z_version c"
  let ?fms = "bl_functionalMembers bl"
  have idle: "idle l ?c" "member l ?c = ?r" "z_nodes ?c = ?N" "z_version ?c = ?v"
    and ses: "session_of l ?c = session_of l c" and up: "up l ?c" "n_answers (c_node ?c l) = []"
    using l by (simp_all add: idle_def up_def session_of_def member_def)
  have s': "\<not> z_ended ?c (session_of l ?c)" using s by (simp add: ses)
  have same: "phase l ?r [] [] ?N ?v ?c = ?c" using idle_phase [OF idle(1)] idle(2-4) by simp
  then have put: "put_member l ?r ?c = ?c" using phase_put [of l ?r ?r "[]" "[]" ?N ?v ?c] by simp
  have issued: "issue1 l ?c (Coord call k) = phase l ?r [(call, k)] [] ?N ?v ?c" for call k
    using phase_coord [of l ?r "[]" "[]" ?N ?v ?c call k] same by simp
  have receive: "cluster_run E [Receives (length ms)] c =
      Some (phase l ?r [(CreateEphemeral (group_lock E) PB_LOCKTYPE_LEADER False, KLeaderLock ?fms)] [] ?N ?v ?c)"
    using l mail t put
    by (simp add: receive_mail_def idle_def remove_nth_def handleBecomeLeaderMsg_def throwIfInvalidTerm_def
        settle_def acquireLock_def lockKey_def group_lock_def g issued [simplified])
  obtain r' where r': "answered E now (KLeaderLock ?fms) (TextAnswer (Inr (group_lock E))) ?r = Ok (r', [])"
    "mstate r' = LEADER_FUNCTIONAL"
    using q by (auto simp: leaderLockDone_def switchState_def Let_def)
  have x: "z_execute E (session_of l ?c) (CreateEphemeral (group_lock E) PB_LOCKTYPE_LEADER False)
      (phase l ?r [] [] ?N ?v ?c) =
    (phase l ?r [] [] ((group_lock E, PB_LOCKTYPE_LEADER, session_of l c) # ?N) ?v ?c, TextAnswer (Inr (group_lock E)))"
    using free by (simp add: lock_def ses)
  show ?thesis
  proof (rule that)
    show "cluster_run E (accede l (session_of l c) (length ms) now) c =
        Some (phase l r' [] [] ((group_lock E, PB_LOCKTYPE_LEADER, session_of l c) # ?N) ?v ?c)"
      unfolding accede_def
      using run_append [OF receive exchange [OF up s' x r'(1)], unfolded ses] by simp
  qed (use up r'(2) ses in \<open>simp_all add: lock_def\<close>)
qed

subsection \<open>The property\<close>

text \<open>The actions: \<open>i\<close> stands, the voters \<open>vs\<close> answer it, and \<open>l\<close> takes the lock.\<close>

definition campaign :: "'db env \<Rightarrow> string \<Rightarrow> string list \<Rightarrow> int \<Rightarrow> 'db cluster \<Rightarrow> action list" where
  "campaign E i vs now c =
     (let l = hd (voters E vs)
      in stand i (session_of i c) now @
         (map (ballot_action i vs) (e_members E) @ conclude i (session_of i c) now) @
         accede l (session_of l c) (length (c_mail c)) now)"

lemma run_members_ok: "members_ok E c \<Longrightarrow> cluster_run E as c = Some c' \<Longrightarrow> members_ok E c'"
proof (induction as arbitrary: c)
  case (Cons a as)
  from Cons.prems(2) obtain c1 where c1: "cluster_do E a c = Some c1" "cluster_run E as c1 = Some c'"
    by (auto split: option.splits)
  have "members_ok E c1"
    using proceeds_actions.every_action [OF Cons.prems(1) c1(1)] by (simp add: proceeds_def)
  from Cons.IH [OF this c1(2)] show ?case .
qed simp

lemma reachable_members_ok: "reachable_cluster E c \<Longrightarrow> members_ok E c"
  using run_members_ok start_data_ok unfolding reachable_cluster_def data_ok_def by blast

lemma reachable_member:
  assumes "\<not> e_expiry E" and "reachable_cluster E c" and "up i c"
  shows "groupKey (member i c) = e_group E" and "\<not> z_ended c (session_of i c)"
  using reachable_ok [OF assms(1,2)] assms(3)
  by (auto simp: cluster_ok_def cluster_wf_def live_def session_of_def up_def)

text \<open>
  C6. A free lock can lead to a leader. Sessions end only after their process has stopped (no
  \<open>e_expiry\<close>), the members are distinct and folly splits and converts as documented. Then from every
  reachable state in which nobody holds the lock, a member may stand for elector (\<open>may_stand\<close>), a
  quorum of running members that agree on their commit id and have seen no later term can answer it
  (\<open>electorate\<close>), and the first of these in the order of the group's members runs and
  has no call, answer or election request outstanding (\<open>idle\<close>, as the elector, which \<open>may_stand\<close> says), there is a schedule, the one given as \<open>campaign\<close>, that runs to its end without failing and makes
  that member a functional leader which holds the lock with its session. Messages still on the way
  from earlier elections do not prevent it.
\<close>

theorem free_lock_elects_leader:
  assumes env: "folly_ok (e_folly E)" "distinct (e_members E)" "\<not> e_expiry E"
    and reach: "reachable_cluster E c" and free: "lock E c = None"
    and ready: "may_stand E i now c" "electorate E vs k c" and l: "l = hd (voters E vs)" "idle l c"
  shows "\<exists>c'. cluster_run E (campaign E i vs now c) c = Some c' \<and> up l c' \<and>
    mstate (member l c') = LEADER_FUNCTIONAL \<and> session_of l c' = session_of l c \<and>
    lock E c' = Some (PB_LOCKTYPE_LEADER, session_of l c')"
proof -
  let ?bl = "announcement E i vs c" and ?d = "AfterDelay GROUPWATCH_INTERVAL_MS (e_group E)"
  have i: "idle i c" "up i c" "n_answers (c_node c i) = []" using ready(1) by (simp_all add: may_stand_def idle_def)
  have ul: "up l c" using l(2) by (simp add: idle_def)
  note ids = reachable_members_ok [OF reach]
  note mi = reachable_member [OF env(3) reach i(2)] and ml = reachable_member [OF env(3) reach ul]
  note el = ready(2) and facts = voters_facts [OF ready(2) env(2)]
  have voter: "l \<in> set vs" using facts(2,3) l(1) hd_in_set by metis
  define c1 where "c1 = issue i [BecomeLeaderTo l ?bl, ?d]
      (phase i (retired E i now c) [] [] (z_nodes c) (z_version c + 1) c)"
  have c1: "c_mail c1 = c_mail c @ [(l, ?bl)]" "idle l c1" "\<not> z_ended c1 (session_of l c1)"
    "lock E c1 = None" "session_of l c1 = session_of l c"
    "member l c1 = (if l = i then retired E i now c else member l c)"
    using l(2) i(1) ml(2) free
    by (auto simp: c1_def issue1.simps idle_def lock_def on_node_def up_def session_of_def member_def phase_def)
  have "groupKey (member l c1) = e_group E" "quorum (member l c1) = e_quorum E"
    using ids mi(1) ml(1) by (auto simp: c1(6) retired_def elector_def members_ok_def identity_def)
  moreover have "termId (member l c1) \<le> bl_termId ?bl"
    using el voter by (auto simp: c1(6) retired_def elector_def announcement_def electorate_def list_all_iff)
  moreover have "unat (e_quorum E) \<le> length (bl_functionalMembers ?bl)"
    using el facts(1) by (simp add: announcement_def vote_result_def electorate_def)
  ultimately obtain c' where c': "cluster_run E (accede l (session_of l c1) (length (c_mail c)) now) c1 = Some c'"
    "up l c'" "mstate (member l c') = LEADER_FUNCTIONAL" "session_of l c' = session_of l c1"
    "lock E c' = Some (PB_LOCKTYPE_LEADER, session_of l c1)"
    using leader_takes_lock [OF c1(1-4)] by metis
  have run: "cluster_run E (map (ballot_action i vs) (e_members E) @ conclude i (session_of i c) now)
      (phase i (elector E i c) [] [election_request (elector E i c)] (with_elector E i c) (z_version c + 1) c) = Some c1"
    using election_concluded [OF el env(2) ids i(2,3) mi(2) free mi(1)] by (simp add: c1_def l(1))
  have "cluster_run E (campaign E i vs now c) c = Some c'"
    using run_append [OF stands_for_election [OF env(1) ready(1) free mi] run_append [OF run c'(1)]]
    by (simp add: campaign_def Let_def c1(5) l(1) [symmetric])
  with c' c1(5) show ?thesis by auto
qed

text \<open>Two members of three have started, and one of them stands.\<close>

definition gathered :: "(bytes, bytes) smap cluster" where
  "gathered = the (cluster_run (trio False) (joins ''b'' 1 @ joins ''c'' 1) (trio_start False))"

lemma gathered_view:
  "map_option (\<lambda>c. (lock (trio False) c, may_stand (trio False) ''b'' tenSeconds c,
       electorate (trio False) [''b'', ''c''] (- 1) c, idle ''b'' c, hd (voters (trio False) [''b'', ''c''])))
     (cluster_run (trio False) (joins ''b'' 1 @ joins ''c'' 1) (trio_start False)) =
   Some (None, True, True, True, ''b'')"
  by code_simp

lemma free_lock_elects_leader_witness:
  "\<exists>c'. cluster_run (trio False) (campaign (trio False) ''b'' [''b'', ''c''] tenSeconds gathered) gathered = Some c' \<and>
     up ''b'' c' \<and> mstate (member ''b'' c') = LEADER_FUNCTIONAL"
proof -
  obtain c where run: "cluster_run (trio False) (joins ''b'' 1 @ joins ''c'' 1) (trio_start False) = Some c"
    and v: "lock (trio False) c = None" "may_stand (trio False) ''b'' tenSeconds c"
      "electorate (trio False) [''b'', ''c''] (- 1) c" "idle ''b'' c"
      "''b'' = hd (voters (trio False) [''b'', ''c''])"
    using gathered_view by auto
  have c: "c = gathered" using run by (simp add: gathered_def)
  have "reachable_cluster (trio False) gathered" using run unfolding c reachable_cluster_def by blast
  moreover have "folly_ok (e_folly (trio False))" "distinct (e_members (trio False))" "\<not> e_expiry (trio False)"
    using folly_dec_ok by (simp_all add: trio_def folly_ok_def)
  ultimately show ?thesis using free_lock_elects_leader v unfolding c by blast
qed

end
