(* ===== verification/Cluster_Progress.thy ===== *)
theory Cluster_Progress
  imports Cluster_Leaders
begin

section \<open>A quorum that answers acknowledges a write\<close>

text \<open>
  A functional leader that may write, and writable peers that together with it are a quorum, run,
  and are in step with the leader: then the actions listed in \<open>replicate\<close> end with the client's
  promise fulfilled and the record in the journals of the leader and of these peers. Other peers
  need not answer.
\<close>

subsection \<open>One peer\<close>

text \<open>What a replica accepts, and what it answers.\<close>

definition takes :: "'db env \<Rightarrow> UpdateBlobMetaMsg \<Rightarrow> 'db VolumeReplica \<Rightarrow> bool" where
  "takes E m r \<longleftrightarrow> in_sequence m (vr_journal r) \<and> rdb_write (e_rocksdb E) (vr_db r) (updateBatch m) \<noteq> None"

definition ack :: "'db env \<Rightarrow> KVBuffer" where
  "ack E = setType (setPayload (e_serResp E) KVBuffer_new ()) ''UpdateBlobMetaRespMsg''"

lemma peer_accepts:
  fixes r :: "'db VolumeReplica"
  assumes "takes E m r" and "e_parse E buf = Some m"
  obtains r' where "handleKVBMessage (writeTable (e_rocksdb E) (e_parse E) (e_serResp E))
      (peerRequest UPDATE_BLOB_META buf) r = Ok (r', [], Inr (ack E))"
    and "vr_journal r' = vr_journal r @ [record_of m buf]"
proof -
  obtain db' where "rdb_write (e_rocksdb E) (vr_db r) (updateBatch m) = Some db'"
    using assms(1) by (auto simp: takes_def)
  moreover have "peerRequest UPDATE_BLOB_META buf =
      entryKvb \<lparr>je_msgId = UPDATE_BLOB_META, je_entryId = 0, je_buffer = buf\<rparr>"
    by (simp add: peerRequest_def entryKvb_def)
  ultimately show ?thesis
    using assms that by (simp add: takes_def write_dispatch_eq handleMetadataWrite_eq ack_def)
qed

text \<open>The actions that bring a write to the peers of a list, as far as they are among \<open>ids\<close>.\<close>

fun deliver :: "nat \<Rightarrow> string list \<Rightarrow> nat \<Rightarrow> PeerInfo list \<Rightarrow> action list" where
  "deliver k ids n [] = []"
| "deliver k ids n (p # ps) =
     (if p_id p \<in> set ids then PeerWrites k n # PeerAnswers k # deliver k ids n ps
      else deliver k ids (n + 1) ps)"

lemma remove_nth_append: "remove_nth (length xs) (xs @ y # ys) = xs @ ys"
  by (simp add: remove_nth_def)

definition open_at ::
  "nat \<Rightarrow> session \<Rightarrow> WriteCtx \<Rightarrow> (PeerInfo \<times> KVBuffer) list \<Rightarrow> 'db cluster \<Rightarrow> bool" where
  "open_at k s ctx todo c \<longleftrightarrow> k < length (c_writes c) \<and> live s c \<and> ow_leader (c_writes c ! k) = s \<and>
     ow_ctx (c_writes c ! k) = ctx \<and> ow_todo (c_writes c ! k) = todo \<and> ow_answers (c_writes c ! k) = []"

lemma peer_round:
  fixes c :: "'db cluster"
  assumes op: "open_at k s ctx (skipped @ (p, peerRequest UPDATE_BLOB_META buf) # todo) c"
    and p: "up (p_id p) c" "p_id p \<noteq> fst s" and t: "takes E m (member (p_id p) c)" "e_parse E buf = Some m"
    and d: "writePeerDone p (Inr (ack E)) ctx (member (fst s) c) = Ok (ctx', member (fst s) c)"
  obtains c' r' where "cluster_run E [PeerWrites k (length skipped), PeerAnswers k] c = Some c'"
    and "open_at k s ctx' (skipped @ todo) c'"
    and "\<And>j. member j c' = (if j = p_id p then r' else member j c)" and "\<And>j. up j c' = up j c"
    and "vr_journal r' = vr_journal (member (p_id p) c) @ [record_of m buf]"
    and "length (c_writes c') = length (c_writes c)"
proof -
  obtain r' where h: "handleKVBMessage (writeTable (e_rocksdb E) (e_parse E) (e_serResp E))
      (peerRequest UPDATE_BLOB_META buf) (member (p_id p) c) = Ok (r', [], Inr (ack E))"
    and j: "vr_journal r' = vr_journal (member (p_id p) c) @ [record_of m buf]"
    using peer_accepts [OF t] .
  let ?c1 = "answer_request k (length skipped) (Inr (ack E)) (put_member (p_id p) r' c)"
  have w: "peer_write E k (length skipped) c = Some ?c1"
    using op p(1) h by (simp add: peer_write_def request_pending_def open_at_def settle_def)
  have c1: "k < length (c_writes ?c1)" "live s ?c1" "member (fst s) ?c1 = member (fst s) c"
    "ow_leader (c_writes ?c1 ! k) = s" "ow_ctx (c_writes ?c1 ! k) = ctx"
    "ow_answers (c_writes ?c1 ! k) = [(session_of (p_id p) c, p, Inr (ack E))]"
    "ow_todo (c_writes ?c1 ! k) = skipped @ todo"
    using op p(2) by (auto simp: open_at_def answer_request_def Let_def put_member_def node_defs
        remove_nth_append live_def)
  let ?w = "c_writes ?c1 ! k"
  let ?c2 = "(put_member (fst s) (member (fst s) c) ?c1)\<lparr>c_writes := (c_writes ?c1)[k := ?w\<lparr>ow_answers := [],
    ow_acked := ow_acked ?w @ [session_of (p_id p) c], ow_ctx := ctx'\<rparr>]\<rparr>"
  have a: "peer_answer k ?c1 = Some ?c2"
    using c1 d by (simp add: peer_answer_def Let_def)
  show ?thesis
  proof (rule that)
    show "cluster_run E [PeerWrites k (length skipped), PeerAnswers k] c = Some ?c2" using w a by simp
    show "open_at k s ctx' (skipped @ todo) ?c2"
      using c1 by (simp add: open_at_def live_def put_member_def node_defs)
  qed (use j p(2) in \<open>auto simp: put_member_def node_defs answer_request_def Let_def\<close>)
qed

subsection \<open>All the peers\<close>

definition chosen :: "string list \<Rightarrow> PeerInfo list \<Rightarrow> PeerInfo list" where
  "chosen ids ps = filter (\<lambda>p. p_id p \<in> set ids) ps"

lemma success_keeps_member: "writePeerDone p (Inr x) w r = Ok (w', r') \<Longrightarrow> r' = r"
  by (auto simp: writePeerDone_def Let_def split: option.splits)

lemma successes_keep_member: "writeRun (map (\<lambda>p. (p, Inr x)) ps) w r = Ok (w', r') \<Longrightarrow> r' = r"
  by (induction ps arbitrary: w) (auto simp: obind_Ok_iff dest: success_keeps_member)

text \<open>The write \<open>k\<close> has reached the peers \<open>qs\<close>, and nobody else has changed.\<close>

definition spread :: "nat \<Rightarrow> WriteCtx \<Rightarrow> PeerInfo list \<Rightarrow> JournalRecord \<Rightarrow> 'db cluster \<Rightarrow> 'db cluster \<Rightarrow> bool" where
  "spread k ctx qs entry c c' \<longleftrightarrow> length (c_writes c') = length (c_writes c) \<and> ow_ctx (c_writes c' ! k) = ctx \<and>
     (\<forall>j. j \<notin> p_id ` set qs \<longrightarrow> member j c' = member j c) \<and>
     (\<forall>p \<in> set qs. entry \<in> set (vr_journal (member (p_id p) c')))"

lemma delivered:
  fixes c :: "'db cluster"
  assumes "open_at k s ctx (skipped @ map (\<lambda>p. (p, peerRequest UPDATE_BLOB_META buf)) ps) c"
    and "distinct (map p_id ps)" and "fst s \<notin> p_id ` set ps" and parse: "e_parse E buf = Some m"
    and "\<forall>p \<in> set (chosen ids ps). up (p_id p) c \<and> takes E m (member (p_id p) c)"
    and "writeRun (map (\<lambda>p. (p, Inr (ack E))) (chosen ids ps)) ctx (member (fst s) c) = Ok (ctx', r)"
  shows "\<exists>c'. cluster_run E (deliver k ids (length skipped) ps) c = Some c' \<and>
    spread k ctx' (chosen ids ps) (record_of m buf) c c'"
  using assms(1-3,5-)
proof (induction ps arbitrary: skipped ctx c)
  case Nil
  then show ?case by (auto simp: chosen_def open_at_def spread_def)
next
  case (Cons p ps)
  show ?case
  proof (cases "p_id p \<in> set ids")
    case False
    have "open_at k s ctx ((skipped @ [(p, peerRequest UPDATE_BLOB_META buf)]) @
        map (\<lambda>p. (p, peerRequest UPDATE_BLOB_META buf)) ps) c"
      using Cons.prems(1) by simp
    from Cons.IH [OF this] Cons.prems(2-) False show ?thesis by (simp add: chosen_def)
  next
    case True
    then have ch: "chosen ids (p # ps) = p # chosen ids ps" by (simp add: chosen_def)
    from Cons.prems(5) obtain ctx1 r1 where d: "writePeerDone p (Inr (ack E)) ctx (member (fst s) c) = Ok (ctx1, r1)"
      and rest: "writeRun (map (\<lambda>p. (p, Inr (ack E))) (chosen ids ps)) ctx1 r1 = Ok (ctx', r)"
      by (auto simp: ch obind_Ok_iff)
    note same = success_keeps_member [OF d]
    obtain c1 r' where c1: "cluster_run E [PeerWrites k (length skipped), PeerAnswers k] c = Some c1"
      "open_at k s ctx1 (skipped @ map (\<lambda>p. (p, peerRequest UPDATE_BLOB_META buf)) ps) c1"
      "\<And>j. member j c1 = (if j = p_id p then r' else member j c)" "\<And>j. up j c1 = up j c"
      "vr_journal r' = vr_journal (member (p_id p) c) @ [record_of m buf]"
      "length (c_writes c1) = length (c_writes c)"
      using peer_round [of k s ctx skipped p buf "map (\<lambda>p. (p, peerRequest UPDATE_BLOB_META buf)) ps" c E m ctx1]
        Cons.prems(1,3,4) parse d same by (force simp: ch)
    have new: "p_id p \<notin> p_id ` set (chosen ids ps)" using Cons.prems(2) by (auto simp: chosen_def)
    have "\<exists>c'. cluster_run E (deliver k ids (length skipped) ps) c1 = Some c' \<and>
      spread k ctx' (chosen ids ps) (record_of m buf) c1 c'"
    proof (rule Cons.IH [OF c1(2)])
      show "\<forall>q \<in> set (chosen ids ps). up (p_id q) c1 \<and> takes E m (member (p_id q) c1)"
        using Cons.prems(4) new by (auto simp: c1(3,4) ch image_iff)
      show "writeRun (map (\<lambda>p. (p, Inr (ack E))) (chosen ids ps)) ctx1 (member (fst s) c1) = Ok (ctx', r)"
        using rest same Cons.prems(3) by (auto simp: c1(3))
    qed (use Cons.prems(2,3) in auto)
    then obtain c' where c': "cluster_run E (deliver k ids (length skipped) ps) c1 = Some c'"
      "spread k ctx' (chosen ids ps) (record_of m buf) c1 c'"
      by blast
    have "cluster_run E (deliver k ids (length skipped) (p # ps)) c = Some c'"
      using c1(1) c'(1) True by (auto split: option.splits)
    moreover have "spread k ctx' (chosen ids (p # ps)) (record_of m buf) c c'"
      using c'(2) new c1(3,5,6) by (auto simp: spread_def ch)
    ultimately show ?thesis by blast
  qed
qed

subsection \<open>The property\<close>

definition replicate_write :: "string \<Rightarrow> UpdateBlobMetaMsg \<Rightarrow> string list \<Rightarrow> LeaderCtx \<Rightarrow> 'db cluster \<Rightarrow> action list" where
  "replicate_write i msg ids lc c =
     Writes i msg # deliver (length (c_writes c)) ids 0 (getWritablePeers (lc_peers lc))"

lemma successes_fulfil:
  fixes r :: "'a PBMember_scheme"
  assumes lc: "leaderCtx r = Some lc" "distinct (map p_id (lc_peers lc))" "length (lc_peers lc) < 2 ^ 32"
    and q: "1 < quorum r" "unat (quorum r) \<le> length (chosen ids (getWritablePeers (lc_peers lc))) + 1"
  obtains w' where "writeRun (map (\<lambda>p. (p, Inr a)) (chosen ids (getWritablePeers (lc_peers lc))))
      \<lparr>w_nAcked = 0, w_nSuccess = 0, w_nPeers = of_nat (length (getWritablePeers (lc_peers lc))), w_promise = None\<rparr> r =
      Ok (w', r)"
    and "w_promise w' = Some (Inr ())"
proof -
  let ?ps = "getWritablePeers (lc_peers lc)"
  let ?acks = "map (\<lambda>p. (p, Inr a :: exn + KVBuffer)) (chosen ids ?ps)"
  have d: "distinct ?ps" using lc(2) by (simp add: getWritablePeers_def distinct_map)
  have ans: "answers_of (lc_peers lc) ?acks"
    using d by (auto simp: answers_of_def chosen_def comp_def)
  have len: "length ?acks \<le> length ?ps" "length ?ps < 2 ^ 32"
    unfolding length_map chosen_def getWritablePeers_def
    by (rule length_filter_le, rule le_less_trans [OF length_filter_le lc(3)])
  have q0: "0 < quorum r" "1 < unat (quorum r)" using q(1) by (auto simp: word_less_nat_alt)
  obtain w' m' where run: "writeRun ?acks
      \<lparr>w_nAcked = 0, w_nSuccess = 0, w_nPeers = of_nat (length ?ps), w_promise = None\<rparr> r = Ok (w', m')"
    "run_state r lc (length ?ps) ?acks w' m'"
    using writeRun_run_state [OF lc(1,2) q0(1) ans len] by blast
  have "nSucceeded ?acks = length (chosen ids ?ps)" by (simp add: nSucceeded_def)
  then have "w_promise w' = Some (Inr ())"
    using run(2) q0 q(2) by (simp add: run_state_def promiseAfter_def)
  with run(1) successes_keep_member [OF run(1)] that show ?thesis by simp
qed

text \<open>The peers of a leader are the other members.\<close>

lemma leader_peers:
  assumes "group_ok E" and "reachable_cluster E c" and "up i c" and "isLeaderState (member i c)"
    and lc: "leaderCtx (member i c) = Some lc"
  shows "distinct (map p_id (lc_peers lc))" and "length (lc_peers lc) < 2 ^ 32"
    and "i \<notin> p_id ` set (lc_peers lc)" and "quorum (member i c) = e_quorum E"
proof -
  have ids: "members_ok E c" using reachable_roles_ok [OF assms(1,2)] by (simp add: roles_ok_def)
  have known: "map p_id (lc_peers lc) = filter (\<lambda>j. j \<noteq> i) (e_members E)"
    using ids assms(4) lc by (auto simp: members_ok_def identity_def replica_ok_def peers_known_def)
  have "length (lc_peers lc) = length (filter (\<lambda>j. j \<noteq> i) (e_members E))"
    using arg_cong [OF known, of length] by simp
  then show "length (lc_peers lc) < 2 ^ 32"
    using assms(1) by (simp only: group_ok_def) (rule le_less_trans [OF length_filter_le], simp)
  have "i \<notin> set (map p_id (lc_peers lc))" "distinct (map p_id (lc_peers lc))"
    unfolding known using assms(1) by (simp_all add: group_ok_def)
  then show "distinct (map p_id (lc_peers lc))" "i \<notin> p_id ` set (lc_peers lc)" by simp_all
  show "quorum (member i c) = e_quorum E" using ids by (simp add: members_ok_def identity_def)
qed

text \<open>The leader's own step.\<close>

abbreviation new_write :: "LeaderCtx \<Rightarrow> WriteCtx" where
  "new_write lc \<equiv> \<lparr>w_nAcked = 0, w_nSuccess = 0, w_nPeers = of_nat (length (getWritablePeers (lc_peers lc))),
     w_promise = None\<rparr>"

abbreviation requests :: "'db env \<Rightarrow> UpdateBlobMetaMsg \<Rightarrow> LeaderCtx \<Rightarrow> (PeerInfo \<times> KVBuffer) list" where
  "requests E m lc \<equiv> map (\<lambda>p. (p, peerRequest UPDATE_BLOB_META (e_ser E m))) (getWritablePeers (lc_peers lc))"

lemma leader_opens_write:
  fixes c :: "'db cluster"
  assumes i: "up i c" "mstate (member i c) = LEADER_FUNCTIONAL" "leaderCtx (member i c) = Some lc"
    and m: "m = numbered lc msg" "takes E m (member i c)"
  obtains c1 where "cluster_do E (Writes i msg) c = Some c1"
    and "open_at (length (c_writes c)) (session_of i c) (new_write lc) (requests E m lc) c1"
    and "leaderCtx (member i c1) = Some (next_ctx lc)" and "quorum (member i c1) = quorum (member i c)"
    and "vr_journal (member i c1) = vr_journal (member i c) @ [record_of m (e_ser E m)]"
    and "\<And>j. j \<noteq> i \<Longrightarrow> member j c1 = member j c \<and> up j c1 = up j c"
    and "length (c_writes c1) = length (c_writes c) + 1"
proof -
  let ?r = "member i c"
  define r1 where "r1 = ?r\<lparr>leaderCtx := Some (next_ctx lc), vr_journal := vr_journal ?r @ [record_of m (e_ser E m)],
    vr_db := the (rdb_write (e_rocksdb E) (vr_db ?r) (updateBatch msg))\<rparr>"
  let ?c1 = "(put_member i r1 c)\<lparr>c_writes := c_writes c @
    [\<lparr>ow_leader = session_of i c, ow_record = last (vr_journal r1), ow_ctx = new_write lc,
      ow_todo = requests E m lc, ow_answers = [], ow_acked = []\<rparr>]\<rparr>"
  have "updateBlobMeta (e_rocksdb E) (e_ser E) msg ?r = Ok (r1, Inr ((), new_write lc, requests E m lc))"
    using m by (auto simp: updateBlobMeta_eq [OF i(2,3)] takes_def r1_def Let_def)
  then have w: "cluster_do E (Writes i msg) c = Some ?c1"
    using i(1) by (simp add: client_write_def)
  show ?thesis
    by (rule that [OF w]) (use i(1) in \<open>simp_all add: open_at_def live_def put_member_def node_defs r1_def\<close>)
qed

text \<open>
  C7. A quorum that answers acknowledges a write. In every reachable state in which a functional
  leader may write the next record, and writable peers that with the leader make up the quorum
  run and are in step with it, writing and delivering the write to these peers ends with the
  client's promise fulfilled with success, and the record in the journals of the leader and of
  all these peers. The schedule is the one given: no other peer answers before these. (With a quorum
  of one the promise is never fulfilled, see \<open>group_write_fate\<close>.)
\<close>

theorem quorum_acknowledges_write:
  assumes g: "group_ok E" "codec_ok E" "1 < e_quorum E" and reach: "reachable_cluster E c"
    and i: "up i c" "mstate (member i c) = LEADER_FUNCTIONAL" "leaderCtx (member i c) = Some lc"
    and m: "m = numbered lc msg" "takes E m (member i c)"
    and ps: "ps = chosen ids (getWritablePeers (lc_peers lc))" "unat (e_quorum E) \<le> length ps + 1"
    and peers: "list_all (\<lambda>p. up (p_id p) c \<and> takes E m (member (p_id p) c)) ps"
  shows "\<exists>c'. cluster_run E (replicate_write i msg ids lc c) c = Some c' \<and>
    length (c_writes c') = length (c_writes c) + 1 \<and>
    w_promise (ow_ctx (last (c_writes c'))) = Some (Inr ()) \<and>
    list_all (\<lambda>j. record_of m (e_ser E m) \<in> set (vr_journal (member j c'))) (i # map p_id ps)"
proof -
  let ?k = "length (c_writes c)" and ?s = "session_of i c" and ?W = "getWritablePeers (lc_peers lc)"
  have lead: "isLeaderState (member i c)" using i(2) by (simp add: isLeaderState_def state_order)
  have [simp]: "fst ?s = i" by (simp add: node_defs)
  note d = leader_peers [OF g(1) reach i(1) lead i(3)]
  obtain c1 where c1: "cluster_do E (Writes i msg) c = Some c1"
    "open_at ?k ?s (new_write lc) (requests E m lc) c1" "leaderCtx (member i c1) = Some (next_ctx lc)"
    "quorum (member i c1) = quorum (member i c)"
    "vr_journal (member i c1) = vr_journal (member i c) @ [record_of m (e_ser E m)]"
    "\<And>j. j \<noteq> i \<Longrightarrow> member j c1 = member j c \<and> up j c1 = up j c" "length (c_writes c1) = ?k + 1"
    using leader_opens_write [OF i m] by blast
  obtain w' where run: "writeRun (map (\<lambda>p. (p, Inr (ack E))) ps) (new_write lc) (member i c1) = Ok (w', member i c1)"
    and pr: "w_promise w' = Some (Inr ())"
    using successes_fulfil [of "member i c1" "next_ctx lc" ids "ack E"] c1(3,4) d g(3) ps by auto
  have away: "i \<notin> p_id ` set ps" using d(3) by (auto simp: ps(1) chosen_def getWritablePeers_def)
  have "\<exists>c'. cluster_run E (deliver ?k ids (length ([] :: (PeerInfo \<times> KVBuffer) list)) ?W) c1 = Some c' \<and>
    spread ?k w' (chosen ids ?W) (record_of m (e_ser E m)) c1 c'"
  proof (rule delivered)
    show "open_at ?k ?s (new_write lc) ([] @ requests E m lc) c1" using c1(2) by simp
    show "e_parse E (e_ser E m) = Some m" using g(2) by (simp add: codec_ok_def)
    have "p_id p \<noteq> i" if "p \<in> set ps" for p using that away by auto
    then show "\<forall>p \<in> set (chosen ids ?W). up (p_id p) c1 \<and> takes E m (member (p_id p) c1)"
      using peers c1(6) ps(1) by (simp add: list_all_iff)
    show "writeRun (map (\<lambda>p. (p, Inr (ack E))) (chosen ids ?W)) (new_write lc) (member (fst ?s) c1) =
        Ok (w', member i c1)"
      using run by (simp add: ps(1))
  qed (use d(1,3) in \<open>auto simp: getWritablePeers_def distinct_map intro: inj_on_subset\<close>)
  then obtain c' where c': "cluster_run E (deliver ?k ids 0 ?W) c1 = Some c'"
    "spread ?k w' ps (record_of m (e_ser E m)) c1 c'"
    using ps(1) by auto
  have "member i c' = member i c1" using c'(2) away by (simp add: spread_def)
  moreover have "last (c_writes c') = c_writes c' ! ?k"
    using c'(2) c1(7) by (simp add: spread_def last_conv_nth flip: length_0_conv)
  moreover have "cluster_run E (replicate_write i msg ids lc c) c = Some c'"
    using c1(1) c'(1) by (simp add: replicate_write_def)
  ultimately show ?thesis
    using c'(2) c1(5,7) pr by (intro exI [of _ c']) (auto simp: spread_def list_all_iff)
qed

definition leading_view :: "'db env \<Rightarrow> UpdateBlobMetaMsg \<Rightarrow> 'db cluster \<Rightarrow> (PBMemberState \<times> string list \<times> bool list) option" where
  "leading_view E msg c = (case leaderCtx (member ''b'' c) of
     None \<Rightarrow> None
   | Some lc \<Rightarrow> Some (mstate (member ''b'' c), map p_id (chosen [''c''] (getWritablePeers (lc_peers lc))),
       [up ''b'' c, up ''c'' c, takes E (numbered lc msg) (member ''b'' c), takes E (numbered lc msg) (member ''c'' c)]))"

lemma leading_view_after_election:
  "map_option (leading_view (trio False) sample_update) (cluster_run (trio False) first_election (trio_start False)) =
   Some (Some (LEADER_FUNCTIONAL, [''c''], [True, True, True, True]))"
  by code_simp

theorem quorum_acknowledges_write_witness:
  "\<exists>c'. reachable_cluster (trio False) after_election \<and>
     cluster_run (trio False)
       (replicate_write ''b'' sample_update [''c''] (the (leaderCtx (member ''b'' after_election))) after_election)
       after_election = Some c' \<and>
     w_promise (ow_ctx (last (c_writes c'))) = Some (Inr ())"
proof -
  let ?E = "trio False" and ?c = "after_election"
  have v: "leading_view ?E sample_update ?c = Some (LEADER_FUNCTIONAL, [''c''], [True, True, True, True])"
    using leading_view_after_election after_election(1) by simp
  then obtain lc where lc: "leaderCtx (member ''b'' ?c) = Some lc"
    by (auto simp: leading_view_def split: option.splits)
  note v = v [unfolded leading_view_def lc, simplified]
  let ?ps = "chosen [''c''] (getWritablePeers (lc_peers lc))"
  have ps: "list_all (\<lambda>p. up (p_id p) ?c \<and> takes ?E (numbered lc sample_update) (member (p_id p) ?c)) ?ps"
    "unat (e_quorum ?E) \<le> length ?ps + 1"
    using v arg_cong [of _ _ length, OF conjunct1 [OF conjunct2 [OF v]]] by (auto simp: trio_def list_all_iff)
  have E: "codec_ok ?E" "1 < e_quorum ?E" by (simp_all add: trio_codec) (simp add: trio_def)
  show ?thesis
    using quorum_acknowledges_write [OF trio_group_ok E after_election_reachable _ _ lc refl _ refl ps(2,1)]
      v after_election_reachable lc by auto
qed

end
