(* ===== verification/Zk_Queue.thy ===== *)
theory Zk_Queue
  imports Datom_Prelude "HOL-Library.Signed_Division"
begin

section \<open>The blocking queue of the ZooKeeper adapter: \<open>src/infra/zk/blockingqueue.h\<close>\<close>

text \<open>
  \<open>BlockingQueue\<close> is a deque behind a mutex with a condition variable. Each critical section is
  one step of \<open>bq_step\<close>: a \<open>put\<close>; the entry of a \<open>take\<close>, which either gets the head or starts to
  wait; a wake-up, by a signal or spurious; and the time-out of a wait. A time-out is possible
  even if an element has arrived meanwhile: \<open>take\<close> then leaves it in the queue. For reference the
  state keeps what was put and what was taken so far. \<open>SynchronousEventAdapter\<close>
  (\<open>src/infra/zk/event.h\<close>) puts the events it receives into such a queue; \<open>cond_abstime\<close> is the
  deadline computed in \<open>src/infra/zk/mutex.h\<close>.

  The locale \<open>fifo\<close> is what the users of the queue rely on.
\<close>

subsection \<open>The interface\<close>

locale fifo =
  fixes put :: "'e \<Rightarrow> 'q \<Rightarrow> 'q"
    and take_head :: "'q \<Rightarrow> ('e \<times> 'q) option"
    and contents :: "'q \<Rightarrow> 'e list"
  assumes contents_put: "contents (put e q) = contents q @ [e]"
    and take_empty: "contents q = [] \<Longrightarrow> take_head q = None"
    and take_cons: "contents q = e # es \<Longrightarrow> \<exists>q'. take_head q = Some (e, q') \<and> contents q' = es"
begin

lemma contents_puts: "contents (fold put es q) = contents q @ es"
  by (induction es arbitrary: q) (simp_all add: contents_put)

fun drain :: "nat \<Rightarrow> 'q \<Rightarrow> 'e list \<times> 'q" where
  "drain 0 q = ([], q)"
| "drain (Suc n) q =
     (case take_head q of None \<Rightarrow> ([], q) | Some (e, q') \<Rightarrow> (case drain n q' of (es, q2) \<Rightarrow> (e # es, q2)))"

lemma drain_contents:
  "fst (drain n q) = take n (contents q) \<and> contents (snd (drain n q)) = drop n (contents q)"
proof (induction n arbitrary: q)
  case (Suc n)
  show ?case
  proof (cases "contents q")
    case Nil
    then show ?thesis by (simp add: take_empty)
  next
    case (Cons e es)
    then obtain q' where q': "take_head q = Some (e, q')" "contents q' = es" using take_cons by blast
    from Suc [of q'] q' Cons show ?thesis by (auto split: prod.split)
  qed
qed simp

text \<open>What was put into an empty queue comes out in the same order.\<close>

lemma drain_puts:
  assumes "contents q = []" and "length es \<le> n"
  shows "fst (drain n (fold put es q)) = es"
  using assms by (simp add: drain_contents contents_puts)

end

subsection \<open>The queue\<close>

record ('t, 'e) BlockingQueue =
  bq_queue :: "'e list"
  bq_waiting :: "('t \<times> bool) list"    \<comment> \<open>threads inside \<open>take\<close>, and whether with a time-out\<close>
  bq_puts :: "'e list"
  bq_taken :: "('t \<times> 'e) list"
  bq_timedOut :: "'t list"

definition BlockingQueue_new :: "('t, 'e) BlockingQueue" where
  "BlockingQueue_new = \<lparr>bq_queue = [], bq_waiting = [], bq_puts = [], bq_taken = [], bq_timedOut = []\<rparr>"

definition bq_size :: "('t, 'e) BlockingQueue \<Rightarrow> int" where
  "bq_size q = narrow32 (int (length (bq_queue q)))"

definition bq_empty :: "('t, 'e) BlockingQueue \<Rightarrow> bool" where
  "bq_empty q \<longleftrightarrow> bq_queue q = []"

definition bq_put :: "'e \<Rightarrow> ('t, 'e) BlockingQueue \<Rightarrow> ('t, 'e) BlockingQueue" where
  "bq_put e q = q\<lparr>bq_queue := bq_queue q @ [e], bq_puts := bq_puts q @ [e]\<rparr>"

text \<open>The part of \<open>take\<close> after the loop: the head leaves the queue.\<close>

definition bq_pop :: "'t \<Rightarrow> ('t, 'e) BlockingQueue \<Rightarrow> ('e \<times> ('t, 'e) BlockingQueue) option" where
  "bq_pop t q =
     (case bq_queue q of
        [] \<Rightarrow> None
      | e # es \<Rightarrow> Some (e, q\<lparr>bq_queue := es, bq_taken := bq_taken q @ [(t, e)]\<rparr>))"

definition bq_take :: "'t \<Rightarrow> int \<Rightarrow> ('t, 'e) BlockingQueue \<Rightarrow> ('t, 'e) BlockingQueue" where
  "bq_take t timeout q =
     (case bq_pop t q of
        Some (e, q1) \<Rightarrow> q1
      | None \<Rightarrow> q\<lparr>bq_waiting := (t, timeout > 0) # bq_waiting q\<rparr>)"

text \<open>A waiting thread wakes up and tests the loop condition again.\<close>

definition bq_wake :: "'t \<times> bool \<Rightarrow> ('t, 'e) BlockingQueue \<Rightarrow> ('t, 'e) BlockingQueue" where
  "bq_wake w q =
     (case bq_pop (fst w) q of
        Some (e, q1) \<Rightarrow> q1\<lparr>bq_waiting := remove1 w (bq_waiting q1)\<rparr>
      | None \<Rightarrow> q)"

definition bq_timeout :: "'t \<times> bool \<Rightarrow> ('t, 'e) BlockingQueue \<Rightarrow> ('t, 'e) BlockingQueue" where
  "bq_timeout w q =
     q\<lparr>bq_waiting := remove1 w (bq_waiting q), bq_timedOut := bq_timedOut q @ [fst w]\<rparr>"

inductive bq_step :: "('t, 'e) BlockingQueue \<Rightarrow> ('t, 'e) BlockingQueue \<Rightarrow> bool" where
  Put: "bq_step q (bq_put e q)"
| Take: "bq_step q (bq_take t timeout q)"
| Wake: "w \<in> set (bq_waiting q) \<Longrightarrow> bq_step q (bq_wake w q)"
| TimedOut: "w \<in> set (bq_waiting q) \<Longrightarrow> snd w \<Longrightarrow> bq_step q (bq_timeout w q)"

inductive_cases bq_stepE: "bq_step q q'"

text \<open>The sequential view of one thread is a first-in first-out queue.\<close>

interpretation bqF: fifo bq_put "bq_pop t" bq_queue for t
  by unfold_locales (simp_all add: bq_put_def bq_pop_def)

subsection \<open>Properties\<close>

definition bq_inv :: "('t, 'e) BlockingQueue \<Rightarrow> bool" where
  "bq_inv q \<longleftrightarrow> bq_puts q = map snd (bq_taken q) @ bq_queue q"

lemma bq_pop_inv: "bq_inv q \<Longrightarrow> bq_pop t q = Some (e, q1) \<Longrightarrow> bq_inv q1"
  by (auto simp: bq_inv_def bq_pop_def split: list.splits)

interpretation bqI: inv_system "\<lambda>q. q = BlockingQueue_new" bq_step bq_inv
proof unfold_locales
  show "bq_inv q" if "q = BlockingQueue_new" for q :: "('a, 'b) BlockingQueue"
    using that by (simp add: bq_inv_def BlockingQueue_new_def)
  show "bq_inv q'" if "bq_inv q" "bq_step q q'" for q q' :: "('a, 'b) BlockingQueue"
    using that(2)
  proof cases
    case (Put e)
    with that(1) show ?thesis by (simp add: bq_inv_def bq_put_def)
  next
    case (Take t timeout)
    with that(1) show ?thesis
      by (cases "bq_pop t q") (auto simp: bq_take_def bq_inv_def dest: bq_pop_inv [rotated])
  next
    case (Wake w)
    show ?thesis
    proof (cases "bq_pop (fst w) q")
      case None
      with Wake(1) that(1) show ?thesis by (simp add: bq_wake_def)
    next
      case (Some p)
      then have "bq_inv (snd p)" using bq_pop_inv [OF that(1), of "fst w" "fst p" "snd p"] by simp
      with Some Wake(1) show ?thesis by (simp add: bq_wake_def bq_inv_def case_prod_beta)
    qed
  next
    case (TimedOut w)
    with that(1) show ?thesis by (simp add: bq_inv_def bq_timeout_def)
  qed
qed

text \<open>
  The queue is first-in first-out under any interleaving of producers and consumers, with
  wake-ups, spurious wake-ups and time-outs: what was taken so far, in the order of the takes,
  followed by what is in the queue, is exactly what was put, in the order of the puts. In
  particular a take that times out loses nothing.
\<close>

theorem blocking_queue_fifo:
  assumes "bq_step\<^sup>*\<^sup>* BlockingQueue_new q"
  shows "bq_puts q = map snd (bq_taken q) @ bq_queue q"
  using bqI.reachable_inv [OF refl assms] by (simp add: bq_inv_def)

text \<open>A consumer waits, an element arrives, the wait times out all the same, another takes it.\<close>

definition bq_sample :: "(nat, string) BlockingQueue" where
  "bq_sample = bq_take 2 0 (bq_timeout (1, True) (bq_put ''e'' (bq_take 1 100 BlockingQueue_new)))"

theorem blocking_queue_fifo_witness:
  "bq_step\<^sup>*\<^sup>* BlockingQueue_new bq_sample \<and> bq_taken bq_sample = [(2, ''e'')] \<and>
   bq_timedOut bq_sample = [1] \<and> bq_puts bq_sample = map snd (bq_taken bq_sample) @ bq_queue bq_sample"
proof -
  let ?q1 = "bq_take 1 100 BlockingQueue_new :: (nat, string) BlockingQueue"
  have "bq_step (bq_put ''e'' ?q1) (bq_timeout (1, True) (bq_put ''e'' ?q1))"
    by (rule bq_step.TimedOut) (simp_all add: bq_put_def bq_take_def bq_pop_def BlockingQueue_new_def)
  then have steps: "bq_step\<^sup>*\<^sup>* BlockingQueue_new bq_sample"
    unfolding bq_sample_def
    by (meson bq_step.Put bq_step.Take r_into_rtranclp rtranclp.rtrancl_into_rtrancl)
  show ?thesis using blocking_queue_fifo [OF steps] steps
    by (simp add: bq_sample_def bq_put_def bq_take_def bq_pop_def bq_timeout_def BlockingQueue_new_def)
qed

text \<open>Only a take with a positive time-out times out.\<close>

lemma bq_no_timeout:
  assumes "bq_step q q'" and "bq_timedOut q' \<noteq> bq_timedOut q"
  shows "\<exists>t. (t, True) \<in> set (bq_waiting q) \<and> bq_timedOut q' = bq_timedOut q @ [t]"
  using assms
  by (auto elim!: bq_stepE simp: bq_put_def bq_take_def bq_wake_def bq_timeout_def bq_pop_def
      split: list.splits)

subsection \<open>\<open>SynchronousEventAdapter\<close>\<close>

definition syncEventReceived :: "'e \<Rightarrow> ('t, 'e) BlockingQueue \<Rightarrow> ('t, 'e) BlockingQueue" where
  "syncEventReceived e q = bq_put e q"

text \<open>Blocks, without a time-out, while there is no event.\<close>

definition getNextEvent :: "'t \<Rightarrow> ('t, 'e) BlockingQueue \<Rightarrow> ('t, 'e) BlockingQueue" where
  "getNextEvent t q = bq_take t 0 q"

definition hasEvents :: "('t, 'e) BlockingQueue \<Rightarrow> bool" where
  "hasEvents q = (if bq_empty q then False else True)"

lemma hasEvents_no_block:
  "hasEvents q \<longleftrightarrow> bq_waiting (getNextEvent t q) = bq_waiting q"
  by (auto simp: hasEvents_def bq_empty_def getNextEvent_def bq_take_def bq_pop_def split: list.split)

subsection \<open>The deadline of a wait\<close>

text \<open>Seconds and nanoseconds of the absolute time; \<open>timeout\<close> is in milliseconds.\<close>

definition cond_abstime :: "int \<Rightarrow> int \<Rightarrow> int \<Rightarrow> int \<times> int" where
  "cond_abstime tv_sec tv_usec timeout =
     (let microSecs = tv_sec * 1000000 + tv_usec + timeout * 1000
      in (microSecs sdiv 1000000, (microSecs smod 1000000) * 1000))"

text \<open>
  The deadline of a timed wait is exact and well formed: for a clock value with microseconds
  below one million and a time-out that is not negative, the nanoseconds lie in the range that
  \<open>pthread_cond_timedwait\<close> accepts and the deadline is the clock value plus the time-out.
\<close>

theorem cond_abstime_bounds:
  assumes "0 \<le> tv_sec" and "0 \<le> tv_usec" and "tv_usec < 1000000" and "0 \<le> timeout"
    and "cond_abstime tv_sec tv_usec timeout = (sec, nsec)"
  shows "0 \<le> nsec \<and> nsec < 1000000000 \<and>
    sec * 1000000000 + nsec = (tv_sec * 1000000 + tv_usec + timeout * 1000) * 1000"
proof -
  let ?us = "tv_sec * 1000000 + tv_usec + timeout * 1000"
  have "0 \<le> ?us" using assms by simp
  then have sec: "sec = ?us div 1000000" and nsec: "nsec = (?us mod 1000000) * 1000"
    using assms(5) by (auto simp: cond_abstime_def Let_def sgn_if signed_divide_int_def signed_modulo_int_def)
  have scale: "s * 1000000000 + m * 1000 = u * 1000" if "s * 1000000 + m = u" for s m u :: int
    using that by linarith
  have "sec * 1000000000 + nsec = ?us * 1000"
    unfolding sec nsec by (rule scale) (rule div_mult_mod_eq)
  then show ?thesis by (simp add: nsec)
qed

theorem cond_abstime_bounds_witness:
  "cond_abstime 10 999999 1500 = (12, 499999000) \<and> (499999000 :: int) < 1000000000"
  using cond_abstime_bounds [of 10 999999 1500 12 499999000]
  by (simp add: cond_abstime_def signed_divide_int_def signed_modulo_int_def)

end
