(* ===== verification/Zk_Timer.thy ===== *)
theory Zk_Timer
  imports Datom_Prelude
begin

section \<open>Event sources and timers of the ZooKeeper adapter: \<open>src/infra/zk/event.h\<close>\<close>

text \<open>
  \<open>EventSource\<close> keeps a \<open>std::set\<close> of listeners (pointers, in the order of their addresses: an
  ordered type here) and hands an event to each. \<open>Timer\<close> keeps a queue of events sorted by alarm
  time; its worker thread runs \<open>sendAlarms\<close>, whose loop takes the lock, looks at the head and
  removes it if its time has come. \<open>timer_step\<close> interleaves these critical sections of clients and
  worker in any order and with any clock readings. \<open>std::lower_bound\<close> is the standard's partition
  point. Event ids are 32-bit and counted up from 0; fewer than \<open>2 ^ 31\<close> events are scheduled.
\<close>

subsection \<open>Event sources\<close>

definition addListener :: "'l::linorder \<Rightarrow> 'l list \<Rightarrow> 'l list" where
  "addListener l ls = insort_insert l ls"

definition removeListener :: "'l::linorder \<Rightarrow> 'l list \<Rightarrow> 'l list" where
  "removeListener l ls = remove1 l ls"

text \<open>The calls of \<open>eventReceived\<close> that firing an event makes.\<close>

definition fireTo :: "'l \<Rightarrow> 'e \<Rightarrow> ('l \<times> 'e) list" where
  "fireTo l e = [(l, e)]"

definition fireEvent :: "'l list \<Rightarrow> 'e \<Rightarrow> ('l \<times> 'e) list" where
  "fireEvent ls e = concat (map (\<lambda>l. fireTo l e) ls)"

definition listeners_ok :: "'l::linorder list \<Rightarrow> bool" where
  "listeners_ok ls \<longleftrightarrow> sorted ls \<and> distinct ls"

lemma listeners_ok_add: "listeners_ok ls \<Longrightarrow> listeners_ok (addListener l ls)"
  by (simp add: listeners_ok_def addListener_def sorted_insort_insert distinct_insort_insert)

lemma listeners_ok_remove: "listeners_ok ls \<Longrightarrow> listeners_ok (removeListener l ls)"
  by (simp add: listeners_ok_def removeListener_def sorted_remove1)

lemma set_addListener: "set (addListener l ls) = insert l (set ls)"
  by (auto simp: addListener_def set_insort_insert)

lemma set_removeListener: "listeners_ok ls \<Longrightarrow> set (removeListener l ls) = set ls - {l}"
  by (simp add: listeners_ok_def removeListener_def)

lemma fireEvent_map: "fireEvent ls e = map (\<lambda>l. (l, e)) ls"
  by (induction ls) (simp_all add: fireEvent_def fireTo_def)

text \<open>
  A generic event wraps the data of an event with the type its adapter stands for; an
  \<open>EventListenerAdapter\<close> fires every event it receives as such to its own listeners.
\<close>

record 'd GenericEvent =
  ge_type :: int
  ge_event :: 'd

definition adapterReceived :: "int \<Rightarrow> 'l list \<Rightarrow> 'd \<Rightarrow> ('l \<times> 'd GenericEvent) list" where
  "adapterReceived type ls e = fireEvent ls \<lparr>ge_type = type, ge_event = e\<rparr>"

subsection \<open>Timers\<close>

record 'd TimerEvent =
  te_id :: int
  te_alarmTime :: int
  te_userData :: 'd

record 'd Timer =
  tm_currentEventID :: int
  tm_queue :: "'d TimerEvent list"
  tm_terminating :: bool

definition Timer_new :: "'d Timer" where
  "Timer_new = \<lparr>tm_currentEventID = 0, tm_queue = [], tm_terminating = False\<rparr>"

definition getCurrentTimeMillis :: "int \<Rightarrow> int \<Rightarrow> int" where
  "getCurrentTimeMillis tv_sec tv_usec = tv_sec * 1000 + tv_usec div 1000"

definition lower_bound :: "int \<Rightarrow> 'd TimerEvent list \<Rightarrow> nat" where
  "lower_bound absTime q = length (takeWhile (\<lambda>e. te_alarmTime e < absTime) q)"

definition scheduleAt :: "int \<Rightarrow> 'd \<Rightarrow> 'd Timer \<Rightarrow> int \<times> 'd Timer" where
  "scheduleAt absTime d tm =
     (let pos = lower_bound absTime (tm_queue tm);
          i = tm_currentEventID tm;
          event = \<lparr>te_id = i, te_alarmTime = absTime, te_userData = d\<rparr>
      in (i, tm\<lparr>tm_currentEventID := narrow32 (i + 1),
            tm_queue := take pos (tm_queue tm) @ event # drop pos (tm_queue tm)\<rparr>))"

definition scheduleAfter :: "int \<Rightarrow> int \<Rightarrow> 'd \<Rightarrow> 'd Timer \<Rightarrow> int \<times> 'd Timer" where
  "scheduleAfter now timeFromNow d tm = scheduleAt (now + timeFromNow) d tm"

fun eraseFirst :: "int \<Rightarrow> 'd TimerEvent list \<Rightarrow> 'd TimerEvent list \<times> bool" where
  "eraseFirst i [] = ([], False)"
| "eraseFirst i (e # q) =
     (if i = te_id e then (q, True)
      else (case eraseFirst i q of (q', c) \<Rightarrow> (e # q', c)))"

definition cancelAlarm :: "int \<Rightarrow> 'd Timer \<Rightarrow> bool \<times> 'd Timer" where
  "cancelAlarm i tm = (case eraseFirst i (tm_queue tm) of (q, c) \<Rightarrow> (c, tm\<lparr>tm_queue := q\<rparr>))"

text \<open>
  One round of \<open>sendAlarms\<close> under the lock, after the wait for a non-empty queue: the event to
  fire, if any. A head that is not due yet is only waited for.
\<close>

definition sendAlarmsRound :: "int \<Rightarrow> 'd Timer \<Rightarrow> 'd TimerEvent option \<times> 'd Timer" where
  "sendAlarmsRound now tm =
     (case tm_queue tm of
        [] \<Rightarrow> (None, tm)
      | e # q \<Rightarrow>
          if te_alarmTime e - now \<le> 0 then (Some e, tm\<lparr>tm_queue := q\<rparr>) else (None, tm))"

text \<open>The loop, with the clock readings of its rounds, until the destructor ends it.\<close>

fun sendAlarms :: "int list \<Rightarrow> 'd Timer \<Rightarrow> 'd TimerEvent list \<times> 'd Timer" where
  "sendAlarms [] tm = ([], tm)"
| "sendAlarms (now # clock) tm =
     (if tm_terminating tm then ([], tm)
      else (case sendAlarmsRound now tm of
              (fire, tm1) \<Rightarrow>
                (case sendAlarms clock tm1 of
                   (es, tm2) \<Rightarrow> ((case fire of None \<Rightarrow> es | Some e \<Rightarrow> e # es), tm2))))"

subsection \<open>Clients and worker together\<close>

record 'd timer_run =
  tr_timer :: "'d Timer"
  tr_scheduled :: "'d TimerEvent list"
  tr_canceled :: "'d TimerEvent list"
  tr_fired :: "(int \<times> 'd TimerEvent) list"

definition timer_start :: "'d timer_run" where
  "timer_start = \<lparr>tr_timer = Timer_new, tr_scheduled = [], tr_canceled = [], tr_fired = []\<rparr>"

definition run_schedule :: "int \<Rightarrow> 'd \<Rightarrow> 'd timer_run \<Rightarrow> 'd timer_run" where
  "run_schedule absTime d s =
     (case scheduleAt absTime d (tr_timer s) of
        (i, tm) \<Rightarrow> s\<lparr>tr_timer := tm, tr_scheduled :=
          tr_scheduled s @ [\<lparr>te_id = i, te_alarmTime = absTime, te_userData = d\<rparr>]\<rparr>)"

definition run_cancel :: "int \<Rightarrow> 'd timer_run \<Rightarrow> 'd timer_run" where
  "run_cancel i s =
     (case cancelAlarm i (tr_timer s) of
        (c, tm) \<Rightarrow> s\<lparr>tr_timer := tm, tr_canceled := tr_canceled s @
          (case find (\<lambda>e. te_id e = i) (tm_queue (tr_timer s)) of None \<Rightarrow> [] | Some e \<Rightarrow> [e])\<rparr>)"

definition run_round :: "int \<Rightarrow> 'd timer_run \<Rightarrow> 'd timer_run" where
  "run_round now s =
     (case sendAlarmsRound now (tr_timer s) of
        (fire, tm) \<Rightarrow> s\<lparr>tr_timer := tm, tr_fired := tr_fired s @
          (case fire of None \<Rightarrow> [] | Some e \<Rightarrow> [(now, e)])\<rparr>)"

inductive timer_step :: "'d timer_run \<Rightarrow> 'd timer_run \<Rightarrow> bool" where
  Schedule: "timer_step s (run_schedule absTime d s)"
| Cancel: "timer_step s (run_cancel i s)"
| Round: "timer_step s (run_round now s)"

inductive_cases timer_stepE: "timer_step s t"

definition timer_inv :: "'d timer_run \<Rightarrow> bool" where
  "timer_inv s \<longleftrightarrow>
     sorted (map te_alarmTime (tm_queue (tr_timer s))) \<and>
     mset (tr_scheduled s) =
       mset (tm_queue (tr_timer s)) + mset (map snd (tr_fired s)) + mset (tr_canceled s) \<and>
     map te_id (tr_scheduled s) = map (\<lambda>k. narrow32 (int k)) [0..<length (tr_scheduled s)] \<and>
     tm_currentEventID (tr_timer s) = narrow32 (int (length (tr_scheduled s))) \<and>
     (\<forall>(now, e) \<in> set (tr_fired s). te_alarmTime e \<le> now)"

subsection \<open>The invariant is kept\<close>

lemma lower_bound_split:
  "take (lower_bound t q) q = takeWhile (\<lambda>e. te_alarmTime e < t) q"
  "drop (lower_bound t q) q = dropWhile (\<lambda>e. te_alarmTime e < t) q"
  unfolding lower_bound_def by (simp_all add: takeWhile_eq_take [symmetric] dropWhile_eq_drop [symmetric])

lemma sorted_insert_at_bound:
  assumes "sorted (map te_alarmTime q)"
  shows "sorted (map te_alarmTime (take (lower_bound (te_alarmTime e) q) q @ e #
    drop (lower_bound (te_alarmTime e) q) q))"
  unfolding lower_bound_split using assms
  by (induction q) (auto dest: set_takeWhileD set_dropWhileD)

lemma narrow32_small [simp]: "narrow32 0 = 0" "narrow32 1 = 1" "narrow32 2 = 2"
  by (simp_all add: narrow32_id)

lemma narrow32_Suc: "narrow32 (narrow32 i + 1) = narrow32 (i + 1)"
proof -
  have "take_bit 32 (narrow32 i + 1) = take_bit 32 (take_bit 32 (narrow32 i) + 1)"
    by (simp add: take_bit_eq_mod mod_simps)
  also have "take_bit 32 (narrow32 i) = take_bit 32 i" by (simp add: narrow32_def take_bit_signed_take_bit)
  also have "take_bit 32 (take_bit 32 i + 1) = take_bit 32 (i + 1)"
    by (simp add: take_bit_eq_mod mod_simps)
  finally show ?thesis by (simp add: narrow32_def signed_take_bit_eq_iff_take_bit_eq)
qed

lemma narrow32_inj:
  assumes "narrow32 (int k) = narrow32 (int l)" and "k < 2 ^ 32" and "l < 2 ^ 32"
  shows "k = l"
proof -
  have "int k mod 2 ^ 32 = int l mod 2 ^ 32"
    using assms(1) by (simp add: narrow32_def signed_take_bit_eq_iff_take_bit_eq take_bit_eq_mod)
  moreover have "int k < 2 ^ 32" "int l < 2 ^ 32" using assms(2,3) by simp_all
  ultimately show ?thesis by simp
qed

lemma timer_inv_schedule:
  assumes "timer_inv s"
  shows "timer_inv (run_schedule absTime d s)"
proof -
  let ?tm = "tr_timer s"
  let ?e = "\<lparr>te_id = tm_currentEventID ?tm, te_alarmTime = absTime, te_userData = d\<rparr>"
  let ?n = "lower_bound absTime (tm_queue ?tm)"
  let ?q = "take ?n (tm_queue ?tm) @ ?e # drop ?n (tm_queue ?tm)"
  have run: "run_schedule absTime d s = s\<lparr>tr_timer := ?tm\<lparr>tm_currentEventID := narrow32 (tm_currentEventID ?tm + 1),
      tm_queue := ?q\<rparr>, tr_scheduled := tr_scheduled s @ [?e]\<rparr>"
    by (simp add: run_schedule_def scheduleAt_def Let_def)
  have m: "mset (take ?n (tm_queue ?tm)) + mset (drop ?n (tm_queue ?tm)) = mset (tm_queue ?tm)"
    by (metis append_take_drop_id mset_append)
  have "sorted (map te_alarmTime ?q)"
    using sorted_insert_at_bound [of "tm_queue ?tm" ?e] assms by (simp add: timer_inv_def)
  moreover have "narrow32 (tm_currentEventID ?tm + 1) = narrow32 (int (length (tr_scheduled s)) + 1)"
    using assms by (simp add: timer_inv_def narrow32_Suc)
  ultimately show ?thesis
    using assms m [symmetric] by (simp add: run timer_inv_def add.commute)
qed

lemma snd_eraseFirst: "snd (eraseFirst i q) = (i \<in> te_id ` set q)"
  by (induction i q rule: eraseFirst.induct) (auto split: prod.splits)

lemma mset_eraseFirst:
  "mset q = mset (fst (eraseFirst i q)) +
     mset (case find (\<lambda>e. te_id e = i) q of None \<Rightarrow> [] | Some e \<Rightarrow> [e])"
  by (induction i q rule: eraseFirst.induct) (auto split: prod.splits)

lemma set_eraseFirst: "set (fst (eraseFirst i q)) \<subseteq> set q"
  by (induction i q rule: eraseFirst.induct) (auto split: prod.splits)

lemma sorted_eraseFirst: "sorted (map te_alarmTime q) \<Longrightarrow> sorted (map te_alarmTime (fst (eraseFirst i q)))"
proof (induction i q rule: eraseFirst.induct)
  case (2 i e q)
  then show ?case using set_eraseFirst [of i q] by (auto split: prod.splits)
qed simp

text \<open>Ids repeat after \<open>2 ^ 32\<close> events at the earliest.\<close>

lemma timer_inv_ids:
  assumes "timer_inv s" and "length (tr_scheduled s) \<le> 2 ^ 32"
  shows "distinct (map te_id (tr_scheduled s))"
proof -
  have "inj_on (\<lambda>k. narrow32 (int k)) (set [0..<length (tr_scheduled s)])"
    using assms(2) by (intro inj_onI) (rule narrow32_inj, simp_all)
  then show ?thesis using assms(1) by (simp add: timer_inv_def distinct_map)
qed

lemma timer_inv_distinct:
  assumes "timer_inv s" and "length (tr_scheduled s) \<le> 2 ^ 32"
  shows "distinct (map te_id (tm_queue (tr_timer s) @ map snd (tr_fired s) @ tr_canceled s))"
proof -
  let ?all = "tm_queue (tr_timer s) @ map snd (tr_fired s) @ tr_canceled s"
  have "mset ?all = mset (tr_scheduled s)" using assms(1) by (simp add: timer_inv_def)
  then have "mset (map te_id ?all) = mset (map te_id (tr_scheduled s))" unfolding mset_map by (rule arg_cong)
  then show ?thesis using mset_eq_imp_distinct_iff timer_inv_ids [OF assms] by blast
qed

lemma timer_inv_cancel:
  assumes "timer_inv s"
  shows "timer_inv (run_cancel i s)"
proof -
  let ?q = "tm_queue (tr_timer s)"
  have run: "run_cancel i s = s\<lparr>tr_timer := (tr_timer s)\<lparr>tm_queue := fst (eraseFirst i ?q)\<rparr>,
      tr_canceled := tr_canceled s @
        (case find (\<lambda>e. te_id e = i) ?q of None \<Rightarrow> [] | Some e \<Rightarrow> [e])\<rparr>"
    by (simp add: run_cancel_def cancelAlarm_def split: prod.split)
  have "sorted (map te_alarmTime (fst (eraseFirst i ?q)))"
    using assms by (simp add: timer_inv_def sorted_eraseFirst)
  with assms mset_eraseFirst [of ?q i] show ?thesis by (simp add: run timer_inv_def)
qed

lemma timer_inv_round:
  assumes "timer_inv s"
  shows "timer_inv (run_round now s)"
  using assms
  by (cases "tm_queue (tr_timer s)") (auto simp: run_round_def sendAlarmsRound_def timer_inv_def)

interpretation timerI: inv_system "\<lambda>s. s = timer_start" timer_step timer_inv
proof unfold_locales
  show "timer_inv s" if "s = timer_start" for s :: "'a timer_run"
    using that by (simp add: timer_inv_def timer_start_def Timer_new_def)
  show "timer_inv t" if "timer_inv s" "timer_step s t" for s t :: "'a timer_run"
    using that(2,1) by cases (simp_all add: timer_inv_schedule timer_inv_cancel timer_inv_round)
qed

subsection \<open>Properties\<close>

text \<open>
  An alarm is delivered once and never early: in every reachable state of a timer with any
  number of clients, each scheduled event is exactly one of waiting, fired once or canceled; it
  fired only at a clock reading that had reached its alarm time; the queue is sorted by alarm time,
  so that the worker always looks at an earliest event; and ids are pairwise different as long as
  the 32-bit counter has not gone round, that is for the first \<open>2 ^ 32\<close> events.
\<close>

theorem timer_fires_once_never_early:
  assumes "timer_step\<^sup>*\<^sup>* timer_start s"
  shows "mset (tr_scheduled s) =
      mset (tm_queue (tr_timer s)) + mset (map snd (tr_fired s)) + mset (tr_canceled s) \<and>
    (length (tr_scheduled s) \<le> 2 ^ 32 \<longrightarrow> distinct (map te_id (tr_scheduled s))) \<and>
    (\<forall>(now, e) \<in> set (tr_fired s). te_alarmTime e \<le> now) \<and>
    sorted (map te_alarmTime (tm_queue (tr_timer s)))"
  using timerI.reachable_inv [OF refl assms] timer_inv_ids [of s] unfolding timer_inv_def by blast

definition timer_sample :: "string timer_run" where
  "timer_sample = run_round 7 (run_cancel 0 (run_round 4 (run_schedule 5 ''b'' (run_schedule 9 ''a'' timer_start))))"

lemma timer_sample_steps: "timer_step\<^sup>*\<^sup>* timer_start timer_sample"
  unfolding timer_sample_def
  by (meson timer_step.intros r_into_rtranclp rtranclp.rtrancl_into_rtrancl)

theorem timer_fires_once_never_early_witness:
  "tr_fired timer_sample = [(7, \<lparr>te_id = 1, te_alarmTime = 5, te_userData = ''b''\<rparr>)] \<and>
   length (tr_scheduled timer_sample) = 2 \<and> length (tr_canceled timer_sample) = 1 \<and>
   (\<forall>(now, e) \<in> set (tr_fired timer_sample). te_alarmTime e \<le> now)"
  using timer_fires_once_never_early [OF timer_sample_steps]
  by (simp add: timer_sample_def run_schedule_def run_cancel_def run_round_def scheduleAt_def
      cancelAlarm_def sendAlarmsRound_def timer_start_def Timer_new_def lower_bound_def Let_def)

text \<open>
  Canceling is decisive: \<open>cancelAlarm\<close> answers true exactly if the event is still waiting, and
  then the event is never fired, whatever happens afterwards (until the ids repeat).
\<close>

theorem cancel_is_final:
  assumes "timer_step\<^sup>*\<^sup>* timer_start s" and "timer_step\<^sup>*\<^sup>* (run_cancel i s) t"
    and "length (tr_scheduled t) \<le> 2 ^ 32"
  shows "fst (cancelAlarm i (tr_timer s)) = (i \<in> te_id ` set (tm_queue (tr_timer s))) \<and>
    (fst (cancelAlarm i (tr_timer s)) \<longrightarrow> i \<notin> te_id ` snd ` set (tr_fired t))"
proof -
  have inv: "timer_inv s" by (rule timerI.reachable_inv [OF refl assms(1)])
  have c: "fst (cancelAlarm i (tr_timer s)) = (i \<in> te_id ` set (tm_queue (tr_timer s)))"
    using snd_eraseFirst [of i "tm_queue (tr_timer s)"] by (simp add: cancelAlarm_def case_prod_beta)
  have keep: "set (tr_canceled u) \<subseteq> set (tr_canceled v)" if "timer_step\<^sup>*\<^sup>* u v" for u v :: "'a timer_run"
    using that
    by (induction rule: rtranclp_induct)
      (auto elim!: timer_stepE simp: run_schedule_def run_cancel_def run_round_def split: prod.splits)
  have t: "timer_inv t" by (rule timerI.steps_inv [OF assms(2) timer_inv_cancel [OF inv]])
  have "i \<notin> te_id ` snd ` set (tr_fired t)" if "i \<in> te_id ` set (tm_queue (tr_timer s))"
  proof -
    from that obtain e where "find (\<lambda>e. te_id e = i) (tm_queue (tr_timer s)) = Some e" "te_id e = i"
      by (cases "find (\<lambda>e. te_id e = i) (tm_queue (tr_timer s))") (auto simp: find_None_iff find_Some_iff)
    then have "e \<in> set (tr_canceled (run_cancel i s))" "te_id e = i"
      by (simp_all add: run_cancel_def split: prod.splits)
    then have "i \<in> te_id ` set (tr_canceled t)" using keep [OF assms(2)] by auto
    then show ?thesis using timer_inv_distinct [OF t assms(3)] by (auto simp: image_image)
  qed
  with c show ?thesis by blast
qed

theorem cancel_is_final_witness:
  "\<not> fst (cancelAlarm 1 (tr_timer timer_sample)) \<and>
   fst (cancelAlarm 0 (tr_timer (run_schedule 9 ''a'' timer_start))) \<and>
   0 \<notin> te_id ` snd ` set (tr_fired (run_round 99 (run_cancel 0 (run_schedule 9 ''a'' timer_start))))"
proof -
  let ?s = "run_schedule 9 ''a'' timer_start"
  have s: "timer_step\<^sup>*\<^sup>* timer_start ?s" by (rule r_into_rtranclp) (rule timer_step.Schedule)
  have t: "timer_step\<^sup>*\<^sup>* (run_cancel 0 ?s) (run_round 99 (run_cancel 0 ?s))"
    by (rule r_into_rtranclp) (rule timer_step.Round)
  have "fst (cancelAlarm 0 (tr_timer ?s))"
    by (simp add: run_schedule_def scheduleAt_def timer_start_def Timer_new_def cancelAlarm_def
        lower_bound_def Let_def)
  moreover have "\<not> fst (cancelAlarm 1 (tr_timer timer_sample))"
    by (simp add: timer_sample_def run_schedule_def run_cancel_def run_round_def scheduleAt_def
      cancelAlarm_def sendAlarmsRound_def timer_start_def Timer_new_def lower_bound_def Let_def)
  moreover have "length (tr_scheduled (run_round 99 (run_cancel 0 ?s))) \<le> 2 ^ 32"
    by (simp add: run_schedule_def scheduleAt_def timer_start_def run_cancel_def run_round_def split: prod.split)
  ultimately show ?thesis using cancel_is_final [OF s t] by blast
qed

text \<open>Events with one alarm time are queued, and so fired, last scheduled first.\<close>

lemma equal_alarms_last_first:
  assumes "sorted (map te_alarmTime (tm_queue tm))"
  shows "filter (\<lambda>e. te_alarmTime e = t) (tm_queue (snd (scheduleAt t d tm))) =
    \<lparr>te_id = tm_currentEventID tm, te_alarmTime = t, te_userData = d\<rparr> #
      filter (\<lambda>e. te_alarmTime e = t) (tm_queue tm)"
proof -
  have "filter (\<lambda>e. te_alarmTime e = t) (takeWhile (\<lambda>e. te_alarmTime e < t) (tm_queue tm)) = []"
    by (auto simp: filter_empty_conv dest: set_takeWhileD)
  moreover from this have "filter (\<lambda>e. te_alarmTime e = t) (dropWhile (\<lambda>e. te_alarmTime e < t) (tm_queue tm)) =
      filter (\<lambda>e. te_alarmTime e = t) (tm_queue tm)"
    by (metis append_Nil filter_append takeWhile_dropWhile_id)
  ultimately show ?thesis by (simp add: scheduleAt_def Let_def lower_bound_split)
qed

text \<open>Undisturbed, the worker drains the due events in the order of their alarm times.\<close>

lemma sendAlarms_due:
  assumes "\<not> tm_terminating tm" and "length (tm_queue tm) \<le> length clock"
    and "\<forall>e \<in> set (tm_queue tm). \<forall>now \<in> set clock. te_alarmTime e \<le> now"
  shows "fst (sendAlarms clock tm) = tm_queue tm"
  using assms
proof (induction clock arbitrary: tm)
  case (Cons now clock)
  show ?case
  proof (cases "tm_queue tm")
    case Nil
    have "fst (sendAlarms c tm) = []" for c
      by (induction c) (simp_all add: sendAlarmsRound_def Nil split: prod.split)
    from this [of "now # clock"] Nil show ?thesis by (simp del: sendAlarms.simps)
  next
    case (Cons e q)
    have "fst (sendAlarms clock (tm\<lparr>tm_queue := q\<rparr>)) = q"
      using Cons.prems local.Cons by (subst Cons.IH) auto
    with Cons.prems local.Cons show ?thesis by (simp add: sendAlarmsRound_def case_prod_beta)
  qed
qed simp

end
