(* ===== verification/Zk_Adapter.thy ===== *)
theory Zk_Adapter
  imports Coordination_Client Zk_Timer Zk_Queue "HOL-Library.Option_ord"
begin

section \<open>The ZooKeeper adapter and its connection: \<open>src/infra/zk/zkadapter.cc\<close>\<close>

text \<open>
  \<open>ZooKeeperAdapter\<close> wraps the synchronous C client of ZooKeeper. This theory holds its data, the
  validation of paths, the retry policy and the connection: \<open>disconnect\<close>, \<open>reconnect\<close>,
  \<open>waitUntilConnected\<close> and \<open>verifyConnection\<close>, which every operation calls first.

  The record has the fields of the class and, at its end, the environment: the results of the
  coming calls of \<open>zookeeper_init\<close> (\<open>za_inits\<close>), what happens during the coming waits on the
  state lock (\<open>za_waits\<close>: the session events the dispatcher thread processes meanwhile, and the
  milliseconds the wait took) and the state of ZooKeeper. A call that needs more observations than
  are given has not returned yet: \<open>ZPending\<close>. The state lock is recursive; \<open>za_lockDepth\<close> counts
  how often it is held and \<open>za_waitDepths\<close> records the depth at each wait.
\<close>

subsection \<open>Exceptions, configuration, events\<close>

record ZooKeeperException =
  ze_message :: string
  ze_code :: int

definition zkException :: "string \<Rightarrow> ZooKeeperException" where
  "zkException msg = \<lparr>ze_message = msg, ze_code = 0\<rparr>"

definition zkExceptionRC :: "string \<Rightarrow> int \<Rightarrow> ZooKeeperException" where
  "zkExceptionRC msg rc =
     \<lparr>ze_message = msg @ '' (ZK error code: '' @ dec_of_int rc @ '')'', ze_code = rc\<rparr>"

record ZooKeeperConfig =
  zcf_hosts :: string
  zcf_leaseTimeout :: int
  zcf_autoReconnect :: bool
  zcf_connectTimeout :: int

text \<open>The default arguments of the constructor.\<close>

definition ZooKeeperConfig_new :: "string \<Rightarrow> int \<Rightarrow> ZooKeeperConfig" where
  "ZooKeeperConfig_new hosts leaseTimeout =
     \<lparr>zcf_hosts = hosts, zcf_leaseTimeout = leaseTimeout, zcf_autoReconnect = True,
      zcf_connectTimeout = 15000\<rparr>"

record 'c ZKWatcherEvent =
  we_type :: int
  we_state :: int
  we_path :: string
  we_context :: "'c option"

definition ZKWatcherEvent_new :: "'c ZKWatcherEvent" where
  "ZKWatcherEvent_new = \<lparr>we_type = -1, we_state = -1, we_path = [], we_context = None\<rparr>"

definition watcherEvent :: "int \<Rightarrow> int \<Rightarrow> string \<Rightarrow> 'c ZKWatcherEvent" where
  "watcherEvent type state path =
     \<lparr>we_type = type, we_state = state, we_path = path, we_context = None\<rparr>"

datatype dispatcher = EventDispatcher | UserEventDispatcher

datatype AdapterState = AS_DISCONNECTED | AS_CONNECTING | AS_CONNECTED | AS_SESSION_EXPIRED

datatype WatchableMethod = NODE_EXISTS | GET_NODE_CHILDREN | GET_NODE_DATA

type_synonym ('l, 'c) Listener2Context = "('l option \<times> 'c) list"
type_synonym ('l, 'c) Path2Listener2Context = "(string \<times> ('l, 'c) Listener2Context) list"

record ('l, 'c, 'z) ZooKeeperAdapter =
  za_listeners :: "'l list"
  za_zkContexts :: "WatchableMethod \<Rightarrow> ('l, 'c) Path2Listener2Context"
  za_zkConfig :: ZooKeeperConfig
  za_zkHandle :: bool
  za_events :: "(dispatcher, 'c ZKWatcherEvent) BlockingQueue"
  za_userEvents :: "(dispatcher, 'c ZKWatcherEvent) BlockingQueue"
  za_terminating :: bool
  za_connected :: bool
  za_state :: AdapterState
  za_remainingConnectTimeout :: int
  za_lockDepth :: nat
  za_waitDepths :: "nat list"
  za_inits :: "bool list"
  za_waits :: "(int list \<times> int) list"
  za_zoo :: 'z

subsection \<open>Results\<close>

datatype 'a zresult = ZOk 'a | ZThrow ZooKeeperException | ZPending

definition zreturn :: "'a \<Rightarrow> 's \<Rightarrow> 's \<times> 'a zresult" where
  "zreturn x s = (s, ZOk x)"

definition zthrow :: "ZooKeeperException \<Rightarrow> 's \<Rightarrow> 's \<times> 'a zresult" where
  "zthrow e s = (s, ZThrow e)"

definition zbind :: "('s \<Rightarrow> 's \<times> 'a zresult) \<Rightarrow> ('a \<Rightarrow> 's \<Rightarrow> 's \<times> 'b zresult) \<Rightarrow> 's \<Rightarrow> 's \<times> 'b zresult" where
  "zbind m k s =
     (case m s of
        (s1, ZOk x) \<Rightarrow> k x s1
      | (s1, ZThrow e) \<Rightarrow> (s1, ZThrow e)
      | (s1, ZPending) \<Rightarrow> (s1, ZPending))"

lemma zbind_simps [outcome_simps]:
  "m s = (s1, ZOk x) \<Longrightarrow> zbind m k s = k x s1"
  "m s = (s1, ZThrow e) \<Longrightarrow> zbind m k s = (s1, ZThrow e)"
  "m s = (s1, ZPending) \<Longrightarrow> zbind m k s = (s1, ZPending)"
  by (simp_all add: zbind_def)

lemma zbind_cases:
  assumes "zbind m k s = (t, r)"
  obtains s1 x where "m s = (s1, ZOk x)" and "k x s1 = (t, r)"
  | e where "m s = (t, ZThrow e)" and "r = ZThrow e"
  | "m s = (t, ZPending)" and "r = ZPending"
  using assms by (cases "m s") (auto simp: zbind_def split: zresult.splits)

subsection \<open>Paths\<close>

fun hasDoubleSlash :: "string \<Rightarrow> bool" where
  "hasDoubleSlash (a # b # cs) \<longleftrightarrow> a = CHR ''/'' \<and> b = CHR ''/'' \<or> hasDoubleSlash (b # cs)"
| "hasDoubleSlash cs \<longleftrightarrow> False"

definition validatePath :: "string \<Rightarrow> ZooKeeperException option" where
  "validatePath path =
     (if path = [] \<or> hd path \<noteq> CHR ''/''
      then Some (zkException (''Node path must start with '' @ [CHR 0x27] @ ''/'' @ [CHR 0x27] @
             '' butit was '' @ [CHR 0x27] @ path @ [CHR 0x27]))
      else if length path > 1 \<and> last path = CHR ''/''
      then Some (zkException (''Node path must not end with '' @ [CHR 0x27] @ ''/'' @ [CHR 0x27] @
             '' but it was '' @ [CHR 0x27] @ path @ [CHR 0x27]))
      else if length path > 1 \<and> hasDoubleSlash path
      then Some (zkException (''Node path must not contain '' @ [CHR 0x27] @ ''//'' @ [CHR 0x27] @
             '' but it was '' @ [CHR 0x27] @ path @ [CHR 0x27]))
      else None)"

text \<open>What a valid path is: the root, or a sequence of names that are not empty and have no slash.\<close>

definition node_name :: "string \<Rightarrow> bool" where
  "node_name c \<longleftrightarrow> c \<noteq> [] \<and> CHR ''/'' \<notin> set c"

definition path_of :: "string list \<Rightarrow> string" where
  "path_of names = (if names = [] then ''/'' else concat (map (\<lambda>c. CHR ''/'' # c) names))"

lemma hasDoubleSlash_name:
  "CHR ''/'' \<notin> set c \<Longrightarrow> c \<noteq> [] \<Longrightarrow> hasDoubleSlash (c @ cs) = hasDoubleSlash cs"
proof (induction c)
  case (Cons a c)
  then show ?case by (cases c; cases cs) auto
qed simp

lemma hasDoubleSlash_Cons: "hasDoubleSlash cs \<Longrightarrow> hasDoubleSlash (a # cs)"
  by (cases cs) auto

lemma hasDoubleSlash_names:
  assumes "\<forall>c \<in> set names. node_name c"
  shows "\<not> hasDoubleSlash (concat (map (\<lambda>c. CHR ''/'' # c) names))"
  using assms
proof (induction names)
  case (Cons c names)
  then obtain a c' where c: "c = a # c'" "a \<noteq> CHR ''/''" by (cases c) (auto simp: node_name_def)
  with Cons show ?case using hasDoubleSlash_name [of c] by (auto simp: node_name_def)
qed simp

lemma last_names:
  assumes "\<forall>c \<in> set names. node_name c" and "names \<noteq> []"
  shows "last (concat (map (\<lambda>c. CHR ''/'' # c) names)) \<noteq> CHR ''/''"
  using assms
proof (induction names rule: rev_induct)
  case (snoc c names)
  then have c: "c \<noteq> []" "CHR ''/'' \<notin> set c" by (auto simp: node_name_def)
  then have "last c \<noteq> CHR ''/''" using last_in_set by metis
  with c(1) show ?case by simp
qed simp

text \<open>Every string splits into a name, possibly empty, and a rest that starts with a slash.\<close>

lemma split_name:
  obtains c r where "cs = c @ r" and "CHR ''/'' \<notin> set c" and "r = [] \<or> (\<exists>r'. r = CHR ''/'' # r')"
proof -
  have "\<exists>c r. cs = c @ r \<and> CHR ''/'' \<notin> set c \<and> (r = [] \<or> (\<exists>r'. r = CHR ''/'' # r'))"
  proof (induction cs)
    case (Cons x cs)
    then obtain c r where cr: "cs = c @ r" "CHR ''/'' \<notin> set c" "r = [] \<or> (\<exists>r'. r = CHR ''/'' # r')"
      by blast
    show ?case
    proof (cases "x = CHR ''/''")
      case True
      then show ?thesis by (intro exI [of _ "[]"] exI [of _ "x # cs"]) simp
    next
      case False
      with cr show ?thesis by (intro exI [of _ "x # c"] exI [of _ r]) simp
    qed
  qed simp
  with that show thesis by blast
qed

lemma valid_rest_names:
  assumes "\<not> hasDoubleSlash (CHR ''/'' # cs)" and "last (CHR ''/'' # cs) \<noteq> CHR ''/''"
  shows "\<exists>names. names \<noteq> [] \<and> (\<forall>c \<in> set names. node_name c) \<and>
    CHR ''/'' # cs = concat (map (\<lambda>c. CHR ''/'' # c) names)"
  using assms
proof (induction "length cs" arbitrary: cs rule: less_induct)
  case less
  obtain c r where cs: "cs = c @ r" and ns: "CHR ''/'' \<notin> set c"
    and r: "r = [] \<or> (\<exists>r'. r = CHR ''/'' # r')" by (rule split_name)
  have ne: "c \<noteq> []" using less.prems r by (auto simp: cs)
  with ns have c: "node_name c" by (simp add: node_name_def)
  from r consider "r = []" | r' where "r = CHR ''/'' # r'" by blast
  then show ?case
  proof cases
    case 1
    with c cs show ?thesis by (intro exI [of _ "[c]"]) simp
  next
    case (2 r')
    have "\<not> hasDoubleSlash (c @ r)" using less.prems(1) hasDoubleSlash_Cons cs by blast
    then have "\<not> hasDoubleSlash (CHR ''/'' # r')"
      unfolding hasDoubleSlash_name [OF ns ne] 2 .
    moreover have "last (CHR ''/'' # r') \<noteq> CHR ''/''" using less.prems(2) ne by (simp add: cs 2)
    moreover have "length r' < length cs" by (simp add: cs 2)
    ultimately obtain names where "names \<noteq> []" "\<forall>c \<in> set names. node_name c"
      "CHR ''/'' # r' = concat (map (\<lambda>c. CHR ''/'' # c) names)"
      using less.hyps by blast
    with c show ?thesis by (intro exI [of _ "c # names"]) (simp add: cs 2)
  qed
qed

lemma validatePath_names:
  "validatePath path = None \<longleftrightarrow> (\<exists>names. (\<forall>c \<in> set names. node_name c) \<and> path = path_of names)"
proof
  assume v: "validatePath path = None"
  then have h: "path \<noteq> []" "hd path = CHR ''/''" by (auto simp: validatePath_def split: if_splits)
  then obtain cs where p: "path = CHR ''/'' # cs" by (cases path) auto
  show "\<exists>names. (\<forall>c \<in> set names. node_name c) \<and> path = path_of names"
  proof (cases cs)
    case Nil
    with p show ?thesis by (intro exI [of _ "[]"]) (simp add: path_of_def)
  next
    case (Cons a cs')
    with v p have "\<not> hasDoubleSlash (CHR ''/'' # cs)" "last (CHR ''/'' # cs) \<noteq> CHR ''/''"
      by (auto simp: validatePath_def split: if_splits)
    from valid_rest_names [OF this] p show ?thesis by (auto simp: path_of_def)
  qed
next
  assume "\<exists>names. (\<forall>c \<in> set names. node_name c) \<and> path = path_of names"
  then obtain names where n: "\<forall>c \<in> set names. node_name c" "path = path_of names" by blast
  show "validatePath path = None"
  proof (cases names)
    case Nil
    with n show ?thesis by (simp add: validatePath_def path_of_def)
  next
    case (Cons c names')
    with n hasDoubleSlash_names [OF n(1)] last_names [OF n(1)] show ?thesis
      by (simp add: validatePath_def path_of_def)
  qed
qed

text \<open>
  C33. \<open>validatePath\<close> accepts exactly the well-formed paths: the root, and the paths that consist of
  one or more names, each preceded by a slash, where a name is not empty and contains no slash.
\<close>

theorem validatePath_iff_names:
  "validatePath path = None \<longleftrightarrow> (\<exists>names. (\<forall>c \<in> set names. node_name c) \<and> path = path_of names)"
  by (rule validatePath_names)

theorem validatePath_iff_names_witness:
  "validatePath ''/a/b'' = None \<and> validatePath ''/a//b'' \<noteq> None \<and> validatePath ''a'' \<noteq> None \<and>
   validatePath ''/a/'' \<noteq> None"
proof -
  have "validatePath ''/a/b'' = None"
    using validatePath_iff_names [of "''/a/b''"]
    by (auto simp: path_of_def node_name_def intro!: exI [of _ "[''a'', ''b'']"])
  then show ?thesis by (simp add: validatePath_def)
qed

subsection \<open>Retries\<close>

definition retryOnError :: "int \<Rightarrow> bool" where
  "retryOnError zkErrorCode \<longleftrightarrow> zkErrorCode = ZCONNECTIONLOSS \<or> zkErrorCode = ZOPERATIONTIMEOUT"

definition RetryHandler_new :: "ZooKeeperConfig \<Rightarrow> int" where
  "RetryHandler_new zkConfig = (if zcf_autoReconnect zkConfig then 2 else 0)"

text \<open>Whether to retry, and the retries left.\<close>

definition handleRC :: "int \<Rightarrow> int \<Rightarrow> bool \<times> int" where
  "handleRC rc retries =
     (if \<not> retryOnError rc then (False, retries)
      else (retries > 0, retries - 1))"

text \<open>
  The loop of every operation: \<open>call\<close> verifies the connection and calls ZooKeeper; it is repeated
  while the code is an error that the handler lets retry.
\<close>

function retryLoop ::
  "('s \<Rightarrow> 's \<times> (int \<times> 'd) zresult) \<Rightarrow> int \<Rightarrow> 's \<Rightarrow> 's \<times> (int \<times> 'd) zresult" where
  "retryLoop call retries s =
     (case call s of
        (s1, ZOk (rc, d)) \<Rightarrow>
          if rc \<noteq> ZOK \<and> fst (handleRC rc retries) then retryLoop call (snd (handleRC rc retries)) s1
          else (s1, ZOk (rc, d))
      | (s1, ZThrow e) \<Rightarrow> (s1, ZThrow e)
      | (s1, ZPending) \<Rightarrow> (s1, ZPending))"
  by auto

termination
  by (relation "measure (\<lambda>(call, retries, s). nat retries)") (auto simp: handleRC_def split: if_splits)

declare retryLoop.simps [simp del]

lemma retryLoop_result:
  "call s = (s1, ZOk (rc, d)) \<Longrightarrow> rc = ZOK \<or> \<not> retryOnError rc \<or> n \<le> 0 \<Longrightarrow>
     retryLoop call n s = (s1, ZOk (rc, d))"
  "call s = (s1, ZThrow e) \<Longrightarrow> retryLoop call n s = (s1, ZThrow e)"
  "call s = (s1, ZPending) \<Longrightarrow> retryLoop call n s = (s1, ZPending)"
  by (subst retryLoop.simps; auto simp: handleRC_def)+

lemma retryLoop_again:
  "call s = (s1, ZOk (rc, d)) \<Longrightarrow> rc \<noteq> ZOK \<Longrightarrow> retryOnError rc \<Longrightarrow> n > 0 \<Longrightarrow>
     retryLoop call n s = retryLoop call (n - 1) s1"
  by (subst retryLoop.simps) (simp add: handleRC_def)

lemma retryLoop_cases:
  assumes "retryLoop call n s = (t, r)"
  obtains (retry) s1 rc d where "call s = (s1, ZOk (rc, d))" and "rc \<noteq> ZOK" and "retryOnError rc" and "n > 0"
      and "retryLoop call (n - 1) s1 = (t, r)"
  | (final) rc d where "call s = (t, ZOk (rc, d))" and "r = ZOk (rc, d)"
      and "rc = ZOK \<or> \<not> retryOnError rc \<or> n \<le> 0"
  | (throw) e where "call s = (t, ZThrow e)" and "r = ZThrow e"
  | (pending) "call s = (t, ZPending)" and "r = ZPending"
proof -
  obtain s1 q where c: "call s = (s1, q)" by (cases "call s")
  show thesis
  proof (cases q)
    case (ZOk p)
    obtain rc d where p: "p = (rc, d)" by (cases p)
    show thesis
    proof (cases "rc \<noteq> ZOK \<and> retryOnError rc \<and> n > 0")
      case True
      with c ZOk p assms show thesis by (intro retry) (auto simp: retryLoop_again)
    next
      case False
      with c ZOk p assms show thesis by (intro final) (auto simp: retryLoop_result)
    qed
  next
    case (ZThrow e)
    with c assms show thesis by (intro throw) (auto simp: retryLoop_result)
  next
    case ZPending
    with c assms show thesis by (intro pending) (auto simp: retryLoop_result)
  qed
qed

text \<open>What every call keeps, the loop keeps.\<close>

lemma retryLoop_inv:
  assumes "\<And>s. I s \<Longrightarrow> I (fst (call s))"
  shows "I s \<Longrightarrow> retryLoop call n s = (t, r) \<Longrightarrow> I t"
proof (induction "nat n" arbitrary: n s)
  case 0
  from 0(3) show ?case
    by (cases rule: retryLoop_cases) (use 0(1) assms [OF 0(2)] in simp_all)
next
  case (Suc k)
  note I1 = assms [OF Suc(3)]
  from Suc(4) show ?case
  proof (cases rule: retryLoop_cases)
    case (retry s1 rc d)
    have "k = nat (n - 1)" using Suc(2) by simp
    then show ?thesis using Suc(1) [OF _ _ retry(5)] I1 retry(1) by simp
  qed (use I1 in simp_all)
qed

subsection \<open>The connection\<close>

definition zaLock :: "('l, 'c, 'z) ZooKeeperAdapter \<Rightarrow> ('l, 'c, 'z) ZooKeeperAdapter" where
  "zaLock a = a\<lparr>za_lockDepth := za_lockDepth a + 1\<rparr>"

definition zaUnlock :: "('l, 'c, 'z) ZooKeeperAdapter \<Rightarrow> ('l, 'c, 'z) ZooKeeperAdapter" where
  "zaUnlock a = a\<lparr>za_lockDepth := za_lockDepth a - 1\<rparr>"

definition setState :: "AdapterState \<Rightarrow> ('l, 'c, 'z) ZooKeeperAdapter \<Rightarrow> ('l, 'c, 'z) ZooKeeperAdapter" where
  "setState newState a = (if newState \<noteq> za_state a then a\<lparr>za_state := newState\<rparr> else a)"

definition resetRemainingConnectTimeout ::
  "('l, 'c, 'z) ZooKeeperAdapter \<Rightarrow> ('l, 'c, 'z) ZooKeeperAdapter" where
  "resetRemainingConnectTimeout a =
     a\<lparr>za_remainingConnectTimeout := zcf_connectTimeout (za_zkConfig a)\<rparr>"

definition waitedForConnect :: "int \<Rightarrow> ('l, 'c, 'z) ZooKeeperAdapter \<Rightarrow> ('l, 'c, 'z) ZooKeeperAdapter" where
  "waitedForConnect time a = a\<lparr>za_remainingConnectTimeout := za_remainingConnectTimeout a - time\<rparr>"

definition zaDisconnect :: "('l, 'c, 'z) ZooKeeperAdapter \<Rightarrow> ('l, 'c, 'z) ZooKeeperAdapter" where
  "zaDisconnect a =
     (let a1 = zaLock a
      in zaUnlock (if za_zkHandle a1 then setState AS_DISCONNECTED (a1\<lparr>za_zkHandle := False\<rparr>) else a1))"

definition zaReconnect ::
  "('l, 'c, 'z) ZooKeeperAdapter \<Rightarrow> ('l, 'c, 'z) ZooKeeperAdapter \<times> unit zresult" where
  "zaReconnect a =
     (let a1 = zaDisconnect (zaLock a)
      in case za_inits a1 of
           [] \<Rightarrow> (a1, ZPending)
         | handle # inits \<Rightarrow>
             let a2 = resetRemainingConnectTimeout (a1\<lparr>za_zkHandle := handle, za_inits := inits\<rparr>)
             in if handle then (zaUnlock (setState AS_CONNECTING a2), ZOk ())
                else (zaUnlock a2, ZThrow (zkException (''Unable to connect to ZK running at '' @
                       [CHR 0x27] @ zcf_hosts (za_zkConfig a2) @ [CHR 0x27]))))"

text \<open>The part of \<open>processEvents\<close> that a session event runs, under the state lock.\<close>

definition sessionEvent :: "int \<Rightarrow> ('l, 'c, 'z) ZooKeeperAdapter \<Rightarrow> ('l, 'c, 'z) ZooKeeperAdapter" where
  "sessionEvent state a =
     (let a1 = zaLock a
      in zaUnlock
        (if state = ZOO_CONNECTED_STATE
         then setState AS_CONNECTED (resetRemainingConnectTimeout (a1\<lparr>za_connected := True\<rparr>))
         else if state = ZOO_CONNECTING_STATE
         then setState AS_CONNECTING (a1\<lparr>za_connected := False\<rparr>)
         else if state = ZOO_EXPIRED_SESSION_STATE then setState AS_SESSION_EXPIRED a1
         else a1))"

definition reconnectIfExpired ::
  "('l, 'c, 'z) ZooKeeperAdapter \<Rightarrow> ('l, 'c, 'z) ZooKeeperAdapter \<times> unit zresult" where
  "reconnectIfExpired a = (if za_state a = AS_SESSION_EXPIRED then zaReconnect a else (a, ZOk ()))"

text \<open>
  The loop of \<open>waitUntilConnected\<close>: what is left to wait. While the thread waits, the lock is
  released and the dispatcher runs the session events.
\<close>

fun waitLoop ::
  "(int list \<times> int) list \<Rightarrow> int \<Rightarrow> ('l, 'c, 'z) ZooKeeperAdapter \<Rightarrow>
    ('l, 'c, 'z) ZooKeeperAdapter \<times> int zresult" where
  "waitLoop waits toWait a =
     (if \<not> (za_state a \<noteq> AS_CONNECTED \<and> toWait > 0) then (a\<lparr>za_waits := waits\<rparr>, ZOk toWait)
      else
        (case reconnectIfExpired a of
           (a1, ZThrow e) \<Rightarrow> (a1\<lparr>za_waits := waits\<rparr>, ZThrow e)
         | (a1, ZPending) \<Rightarrow> (a1\<lparr>za_waits := waits\<rparr>, ZPending)
         | (a1, ZOk _) \<Rightarrow>
             (case waits of
                [] \<Rightarrow> (a1\<lparr>za_waits := waits\<rparr>, ZPending)
              | (events, milliSecs) # waits' \<Rightarrow>
                  waitLoop waits' (toWait - milliSecs)
                    (fold sessionEvent events
                       (a1\<lparr>za_waitDepths := za_waitDepths a1 @ [za_lockDepth a1]\<rparr>)))))"

declare waitLoop.simps [simp del]

definition zaConnectedOrThrow ::
  "int \<Rightarrow> ('l, 'c, 'z) ZooKeeperAdapter \<Rightarrow> ('l, 'c, 'z) ZooKeeperAdapter \<times> unit zresult" where
  "zaConnectedOrThrow timeout a =
     (if za_state a = AS_CONNECTED then (a, ZOk ())
      else (a, ZThrow (zkException
        (if timeout > 0 then ''Timed out while waiting for connection to ZK''
         else ''Global timeout expired and still not connected to ZK''))))"

definition waitUntilConnected ::
  "('l, 'c, 'z) ZooKeeperAdapter \<Rightarrow> ('l, 'c, 'z) ZooKeeperAdapter \<times> unit zresult" where
  "waitUntilConnected a =
     (let timeout = za_remainingConnectTimeout a
      in zbind (if timeout > 0
                then zbind (waitLoop (za_waits a) timeout)
                       (\<lambda>toWait s. (waitedForConnect (timeout - toWait) s, ZOk ()))
                else zreturn ())
           (\<lambda>_. zaConnectedOrThrow timeout) a)"

definition reconnectIfDown ::
  "('l, 'c, 'z) ZooKeeperAdapter \<Rightarrow> ('l, 'c, 'z) ZooKeeperAdapter \<times> unit zresult" where
  "reconnectIfDown a =
     (if za_state a \<noteq> AS_CONNECTING
      then if \<not> zcf_autoReconnect (za_zkConfig a)
           then (a, ZThrow (zkException (''ZK connection is down and '' @
                  ''auto-reconnect is not allowed'')))
           else zaReconnect a
      else (a, ZOk ()))"

definition verifyLocked ::
  "('l, 'c, 'z) ZooKeeperAdapter \<Rightarrow> ('l, 'c, 'z) ZooKeeperAdapter \<times> unit zresult" where
  "verifyLocked a =
     (if za_state a = AS_DISCONNECTED
      then (a, ZThrow (zkException (''Disconnected from ZK. Please use reconnect() '' @
             ''before attempting to use any ZK API'')))
      else if za_state a \<noteq> AS_CONNECTED
      then zbind reconnectIfDown (\<lambda>_. waitUntilConnected) a
      else (a, ZOk ()))"

definition verifyConnection ::
  "('l, 'c, 'z) ZooKeeperAdapter \<Rightarrow> ('l, 'c, 'z) ZooKeeperAdapter \<times> unit zresult" where
  "verifyConnection a =
     (case verifyLocked (zaLock a) of
        (a1, ZOk _) \<Rightarrow> (zaUnlock a1, ZOk ())
      | (a1, ZThrow e) \<Rightarrow> (zaUnlock a1, ZThrow e)
      | (a1, ZPending) \<Rightarrow> (a1, ZPending))"

text \<open>
  The constructor: the two dispatcher threads are the steps of \<open>Zk_Events\<close>. The destructor
  disconnects and tells the threads to end.
\<close>

definition ZooKeeperAdapter_new ::
  "ZooKeeperConfig \<Rightarrow> 'l::linorder option \<Rightarrow> bool \<Rightarrow> bool list \<Rightarrow> (int list \<times> int) list \<Rightarrow> 'z \<Rightarrow>
    ('l, 'c, 'z) ZooKeeperAdapter \<times> unit zresult" where
  "ZooKeeperAdapter_new config listener establishConnection inits waits zoo =
     (let a = \<lparr>za_listeners = (case listener of None \<Rightarrow> [] | Some l \<Rightarrow> addListener l []),
               za_zkContexts = (\<lambda>_. []), za_zkConfig = config, za_zkHandle = False,
               za_events = BlockingQueue_new, za_userEvents = BlockingQueue_new, za_terminating = False, za_connected = False,
               za_state = AS_DISCONNECTED, za_remainingConnectTimeout = 0, za_lockDepth = 0,
               za_waitDepths = [], za_inits = inits, za_waits = waits, za_zoo = zoo\<rparr>;
          a1 = resetRemainingConnectTimeout a
      in if establishConnection then zaReconnect a1 else (a1, ZOk ()))"

definition ZooKeeperAdapter_destroy :: "('l, 'c, 'z) ZooKeeperAdapter \<Rightarrow> ('l, 'c, 'z) ZooKeeperAdapter" where
  "ZooKeeperAdapter_destroy a = (zaDisconnect a)\<lparr>za_terminating := True\<rparr>"

subsection \<open>The handle and the state\<close>

text \<open>As the enum \<open>AdapterState\<close> documents it: the handle is null exactly when disconnected.\<close>

definition adapter_ok :: "('l, 'c, 'z) ZooKeeperAdapter \<Rightarrow> bool" where
  "adapter_ok a \<longleftrightarrow> (za_zkHandle a \<longleftrightarrow> za_state a \<noteq> AS_DISCONNECTED)"

lemmas connection_defs = zaLock_def zaUnlock_def setState_def resetRemainingConnectTimeout_def
  waitedForConnect_def

lemma zaDisconnect_fields [simp]:
  "za_zkHandle (zaDisconnect a) = False" "za_lockDepth (zaDisconnect a) = za_lockDepth a"
  "za_waitDepths (zaDisconnect a) = za_waitDepths a" "za_inits (zaDisconnect a) = za_inits a"
  "za_state (zaDisconnect a) = (if za_zkHandle a then AS_DISCONNECTED else za_state a)"
  by (auto simp: zaDisconnect_def connection_defs Let_def)

lemma sessionEvent_fields [simp]:
  "za_zkHandle (sessionEvent e a) = za_zkHandle a" "za_lockDepth (sessionEvent e a) = za_lockDepth a"
  "za_waitDepths (sessionEvent e a) = za_waitDepths a"
  by (auto simp: sessionEvent_def connection_defs Let_def)

lemma sessionEvent_connected:
  "za_state a \<noteq> AS_DISCONNECTED \<Longrightarrow> za_state (sessionEvent e a) \<noteq> AS_DISCONNECTED"
  by (auto simp: sessionEvent_def connection_defs Let_def)

lemma sessionEvents_fields [simp]:
  "za_zkHandle (fold sessionEvent es a) = za_zkHandle a"
  "za_lockDepth (fold sessionEvent es a) = za_lockDepth a"
  "za_waitDepths (fold sessionEvent es a) = za_waitDepths a"
  by (induction es arbitrary: a) simp_all

lemma sessionEvents_connected:
  "za_state a \<noteq> AS_DISCONNECTED \<Longrightarrow> za_state (fold sessionEvent es a) \<noteq> AS_DISCONNECTED"
  by (induction es arbitrary: a) (simp_all add: sessionEvent_connected)

text \<open>The result of a step: what it does to the lock, the recorded waits and the handle.\<close>

definition lock_kept :: "('l, 'c, 'z) ZooKeeperAdapter \<Rightarrow> ('l, 'c, 'z) ZooKeeperAdapter \<Rightarrow> 'r zresult \<Rightarrow> bool" where
  "lock_kept a b r \<longleftrightarrow> (r \<noteq> ZPending \<longrightarrow> za_lockDepth b = za_lockDepth a)"

definition waits_at :: "nat \<Rightarrow> ('l, 'c, 'z) ZooKeeperAdapter \<Rightarrow> ('l, 'c, 'z) ZooKeeperAdapter \<Rightarrow> bool" where
  "waits_at d a b \<longleftrightarrow> (\<exists>n. za_waitDepths b = za_waitDepths a @ replicate n d)"

lemma waits_at_refl: "za_waitDepths b = za_waitDepths a \<Longrightarrow> waits_at d a b"
  by (auto simp: waits_at_def intro: exI [of _ 0])

lemma waits_at_one: "za_waitDepths b = za_waitDepths a @ [d] \<Longrightarrow> waits_at d b c \<Longrightarrow> waits_at d a c"
  unfolding waits_at_def by (metis append.assoc append_Cons append_Nil replicate_Suc)

lemma zaReconnect_result:
  assumes "zaReconnect a = (b, r)" and "adapter_ok a"
  shows "adapter_ok b \<and> lock_kept a b r \<and> za_waitDepths b = za_waitDepths a \<and>
    (r = ZOk () \<longrightarrow> za_state b = AS_CONNECTING)"
proof (cases "za_inits (zaDisconnect (zaLock a))")
  case Nil
  with assms show ?thesis by (auto simp: zaReconnect_def Let_def adapter_ok_def lock_kept_def connection_defs)
next
  case (Cons h inits)
  with assms show ?thesis
    by (cases h) (auto simp: zaReconnect_def Let_def adapter_ok_def lock_kept_def connection_defs)
qed

lemma reconnectIfExpired_result:
  assumes "reconnectIfExpired a = (b, r)" and "adapter_ok a" and "za_state a \<noteq> AS_DISCONNECTED"
  shows "adapter_ok b \<and> lock_kept a b r \<and> za_waitDepths b = za_waitDepths a \<and>
    (r = ZOk () \<longrightarrow> za_state b \<noteq> AS_DISCONNECTED)"
  using assms zaReconnect_result [of a b r]
  by (auto simp: reconnectIfExpired_def lock_kept_def split: if_splits)

lemma waitLoop_cases:
  assumes "waitLoop waits toWait a = (b, r)"
  obtains (finished) "za_state a = AS_CONNECTED \<or> toWait \<le> 0" and "b = a\<lparr>za_waits := waits\<rparr>"
      and "r = ZOk toWait"
  | (stopped) a1 r1 where "reconnectIfExpired a = (a1, r1)" and "b = a1\<lparr>za_waits := waits\<rparr>"
      and "r = ZPending \<and> (r1 = ZPending \<or> waits = []) \<or> (\<exists>e. r1 = ZThrow e \<and> r = ZThrow e)"
  | (waited) a1 es ms ws where "reconnectIfExpired a = (a1, ZOk ())" and "waits = (es, ms) # ws"
      and "waitLoop ws (toWait - ms) (fold sessionEvent es
             (a1\<lparr>za_waitDepths := za_waitDepths a1 @ [za_lockDepth a1]\<rparr>)) = (b, r)"
  using assms
  by (subst (asm) waitLoop.simps) (auto split: if_splits prod.splits zresult.splits list.splits)

lemma waitLoop_result:
  assumes "waitLoop waits toWait a = (b, r)" and "adapter_ok a" and "za_state a \<noteq> AS_DISCONNECTED"
  shows "adapter_ok b \<and> lock_kept a b r \<and> waits_at (za_lockDepth a) a b \<and>
    (\<forall>t. r = ZOk t \<longrightarrow> za_state b \<noteq> AS_DISCONNECTED \<and> (za_state b = AS_CONNECTED \<or> t \<le> 0))"
  using assms
proof (induction waits arbitrary: toWait a rule: length_induct)
  case (1 waits)
  from "1.prems"(1) show ?case
  proof (cases rule: waitLoop_cases)
    case finished
    with "1.prems" show ?thesis by (auto simp: adapter_ok_def lock_kept_def waits_at_refl)
  next
    case (stopped a1 r1)
    with reconnectIfExpired_result [OF stopped(1) "1.prems"(2,3)] show ?thesis
      by (auto simp: adapter_ok_def lock_kept_def waits_at_refl)
  next
    case (waited a1 es ms ws)
    note a1 = reconnectIfExpired_result [OF waited(1) "1.prems"(2,3)]
    let ?a2 = "fold sessionEvent es (a1\<lparr>za_waitDepths := za_waitDepths a1 @ [za_lockDepth a1]\<rparr>)"
    have st: "za_state ?a2 \<noteq> AS_DISCONNECTED" using a1 by (intro sessionEvents_connected) simp
    with a1 have "adapter_ok ?a2" by (simp add: adapter_ok_def)
    moreover have "length ws < length waits" by (simp add: waited(2))
    ultimately show ?thesis
      using "1.IH" [rule_format, OF _ waited(3)] st a1 waits_at_one [of ?a2 a "za_lockDepth a" b]
      by (simp add: lock_kept_def)
  qed
qed

lemma waitUntilConnected_result:
  assumes "waitUntilConnected a = (b, r)" and "adapter_ok a" and "za_state a \<noteq> AS_DISCONNECTED"
  shows "adapter_ok b \<and> lock_kept a b r \<and> waits_at (za_lockDepth a) a b \<and>
    (r = ZOk () \<longrightarrow> za_state b = AS_CONNECTED)"
proof (cases "za_remainingConnectTimeout a > 0")
  case False
  with assms show ?thesis
    by (auto simp: waitUntilConnected_def zbind_def zreturn_def zaConnectedOrThrow_def lock_kept_def
        waits_at_refl split: if_splits)
next
  case True
  obtain c q where w: "waitLoop (za_waits a) (za_remainingConnectTimeout a) a = (c, q)" by fastforce
  note c = waitLoop_result [OF w assms(2,3)]
  from assms(1) w True c show ?thesis
    by (cases q) (auto simp: waitUntilConnected_def zbind_def zaConnectedOrThrow_def lock_kept_def
        Let_def connection_defs adapter_ok_def waits_at_def split: if_splits)
qed

lemma verifyLocked_result:
  assumes "verifyLocked a = (b, r)" and "adapter_ok a"
  shows "adapter_ok b \<and> lock_kept a b r \<and> waits_at (za_lockDepth a) a b \<and>
    (r = ZOk () \<longrightarrow> za_state b = AS_CONNECTED)"
proof (cases "za_state a = AS_DISCONNECTED \<or> za_state a = AS_CONNECTED")
  case True
  with assms show ?thesis by (auto simp: verifyLocked_def lock_kept_def waits_at_refl)
next
  case False
  obtain a1 r1 where re: "reconnectIfDown a = (a1, r1)" by fastforce
  have a1: "adapter_ok a1 \<and> lock_kept a a1 r1 \<and> za_waitDepths a1 = za_waitDepths a \<and>
      (r1 = ZOk () \<longrightarrow> za_state a1 \<noteq> AS_DISCONNECTED)"
    using re zaReconnect_result [of a a1 r1] assms(2) False
    by (auto simp: reconnectIfDown_def lock_kept_def split: if_splits)
  show ?thesis
  proof (cases r1)
    case (ZOk u)
    then have "waitUntilConnected a1 = (b, r)"
      using assms(1) False re by (simp add: verifyLocked_def zbind_def)
    from waitUntilConnected_result [OF this] a1 ZOk show ?thesis by (simp add: lock_kept_def waits_at_def)
  qed (use assms(1) False re a1 in \<open>auto simp: verifyLocked_def zbind_def lock_kept_def waits_at_refl\<close>)
qed

lemma verifyConnection_result:
  assumes "verifyConnection a = (b, r)" and "adapter_ok a"
  shows "adapter_ok b \<and> lock_kept a b r \<and> waits_at (za_lockDepth a + 1) a b \<and>
    (r = ZOk () \<longrightarrow> za_state b = AS_CONNECTED)"
proof -
  obtain c q where c: "verifyLocked (zaLock a) = (c, q)" by fastforce
  have "adapter_ok (zaLock a)" using assms(2) by (simp add: adapter_ok_def zaLock_def)
  from verifyLocked_result [OF c this] assms(1) c show ?thesis
    by (cases q) (auto simp: verifyConnection_def zaLock_def zaUnlock_def adapter_ok_def lock_kept_def
        waits_at_def)
qed

text \<open>The connection sends no request to ZooKeeper, and keeps the configuration.\<close>

definition same_zoo :: "('l, 'c, 'z) ZooKeeperAdapter \<Rightarrow> ('l, 'c, 'z) ZooKeeperAdapter \<Rightarrow> bool" where
  "same_zoo a b \<longleftrightarrow> za_zoo b = za_zoo a \<and> za_zkConfig b = za_zkConfig a"

lemma same_zoo_session: "same_zoo a (fold sessionEvent es b) = same_zoo a b"
proof (induction es arbitrary: b)
  case (Cons e es)
  have "same_zoo a (sessionEvent e b) = same_zoo a b"
    by (auto simp: same_zoo_def sessionEvent_def connection_defs Let_def)
  with Cons show ?case by simp
qed simp

lemma same_zoo_reconnect: "same_zoo a (fst (zaReconnect a))"
  by (auto simp: same_zoo_def zaReconnect_def zaDisconnect_def connection_defs Let_def split: list.split)

lemma same_zoo_waitLoop: "waitLoop waits toWait a = (b, r) \<Longrightarrow> same_zoo a b"
proof (induction waits arbitrary: toWait a rule: length_induct)
  case (1 waits)
  have re: "same_zoo a (fst (reconnectIfExpired a))"
    using same_zoo_reconnect [of a] by (simp add: reconnectIfExpired_def same_zoo_def)
  from "1.prems" show ?case
  proof (cases rule: waitLoop_cases)
    case (waited a1 es ms ws)
    have "length ws < length waits" by (simp add: waited(2))
    from "1.IH" [rule_format, OF this waited(3)] re waited(1) same_zoo_session [of a es] show ?thesis
      by (auto simp: same_zoo_def)
  qed (use re in \<open>auto simp: same_zoo_def\<close>)
qed

lemma same_zoo_verifyConnection:
  fixes a :: "('l, 'c, 'z) ZooKeeperAdapter"
  assumes "verifyConnection a = (b, r)"
  shows "same_zoo a b"
proof -
  have wait: "same_zoo c d" if "waitUntilConnected c = (d, q)" for c d :: "('l, 'c, 'z) ZooKeeperAdapter" and q
  proof -
    obtain e x where w: "waitLoop (za_waits c) (za_remainingConnectTimeout c) c = (e, x)" by fastforce
    from same_zoo_waitLoop [OF w] that w show ?thesis
      by (auto simp: waitUntilConnected_def zbind_def zreturn_def zaConnectedOrThrow_def same_zoo_def
          connection_defs Let_def split: if_splits zresult.splits)
  qed
  obtain c q where c: "reconnectIfDown (zaLock a) = (c, q)" by fastforce
  have "same_zoo a c"
    using c same_zoo_reconnect [of "zaLock a"]
    by (auto simp: reconnectIfDown_def same_zoo_def zaLock_def split: if_splits dest: arg_cong [of _ _ fst])
  moreover obtain d x where "waitUntilConnected c = (d, x)" by fastforce
  ultimately show ?thesis
    using assms c wait [of c d x]
    by (auto simp: verifyConnection_def verifyLocked_def zbind_def same_zoo_def zaLock_def zaUnlock_def
        split: if_splits zresult.splits prod.splits)
qed

text \<open>
  C30. \<open>verifyConnection\<close> keeps its promises on every path, exceptions included: the recursive state
  lock is held as often afterwards as before; the thread only ever waits with the lock held exactly
  once more than its caller holds it (so that waiting releases it); the handle stays null exactly in
  the disconnected state; and a normal return means that the adapter is connected with a handle.
\<close>

theorem verifyConnection_contract:
  assumes "verifyConnection a = (b, r)" and "za_zkHandle a \<longleftrightarrow> za_state a \<noteq> AS_DISCONNECTED"
  shows "(r \<noteq> ZPending \<longrightarrow> za_lockDepth b = za_lockDepth a) \<and>
    (\<exists>n. za_waitDepths b = za_waitDepths a @ replicate n (za_lockDepth a + 1)) \<and>
    (za_zkHandle b \<longleftrightarrow> za_state b \<noteq> AS_DISCONNECTED) \<and>
    (r = ZOk () \<longrightarrow> za_state b = AS_CONNECTED \<and> za_zkHandle b)"
  using verifyConnection_result [OF assms(1)] assms(2)
  by (auto simp: adapter_ok_def lock_kept_def waits_at_def)

text \<open>An adapter whose session expires during the first wait and that then connects.\<close>

definition adapter_sample :: "(nat, unit, unit) ZooKeeperAdapter" where
  "adapter_sample = fst (ZooKeeperAdapter_new (ZooKeeperConfig_new ''h'' 30) None True [True, True]
     [([ZOO_EXPIRED_SESSION_STATE], 10), ([], 5), ([ZOO_CONNECTED_STATE], 20)] ())"

lemmas adapter_eval = adapter_sample_def ZooKeeperAdapter_new_def ZooKeeperConfig_new_def zaReconnect_def
  zaDisconnect_def connection_defs verifyConnection_def verifyLocked_def reconnectIfDown_def
  reconnectIfExpired_def waitUntilConnected_def waitLoop.simps zaConnectedOrThrow_def sessionEvent_def
  zbind_def zk_states Let_def

theorem verifyConnection_contract_witness:
  "\<exists>b. verifyConnection adapter_sample = (b, ZOk ()) \<and> za_state b = AS_CONNECTED \<and> za_zkHandle b \<and>
     za_lockDepth b = 0 \<and> za_waitDepths b = [1, 1, 1]"
proof -
  obtain b where b: "verifyConnection adapter_sample = (b, ZOk ())" "za_waitDepths b = [1, 1, 1]"
    by (simp add: adapter_eval)
  moreover have "za_zkHandle adapter_sample \<longleftrightarrow> za_state adapter_sample \<noteq> AS_DISCONNECTED"
    "za_lockDepth adapter_sample = 0"
    by (simp_all add: adapter_eval)
  ultimately show ?thesis using verifyConnection_contract [OF b(1)] by auto
qed

text \<open>
  A session event of a connection that has been closed breaks that: if \<open>processEvents\<close> handles
  a queued \<open>ZOO_CONNECTED_STATE\<close> event after \<open>disconnect\<close>, the adapter believes to be connected
  although the handle is null, and \<open>verifyConnection\<close> lets every operation through to ZooKeeper
  with that null handle.
\<close>

theorem stale_session_event_breaks_state:
  "za_state (sessionEvent ZOO_CONNECTED_STATE (zaDisconnect a)) = AS_CONNECTED \<and>
   \<not> za_zkHandle (sessionEvent ZOO_CONNECTED_STATE (zaDisconnect a)) \<and>
   verifyConnection (sessionEvent ZOO_CONNECTED_STATE (zaDisconnect a)) =
     (sessionEvent ZOO_CONNECTED_STATE (zaDisconnect a), ZOk ())"
proof -
  have "za_state (sessionEvent ZOO_CONNECTED_STATE (zaDisconnect a)) = AS_CONNECTED"
    by (simp add: sessionEvent_def connection_defs Let_def)
  then show ?thesis by (simp add: verifyConnection_def verifyLocked_def zaLock_def zaUnlock_def)
qed

subsection \<open>How long a call waits\<close>

lemma zaReconnect_env:
  assumes "zaReconnect a = (b, r)"
  shows "za_waits b = za_waits a \<and> za_zkConfig b = za_zkConfig a \<and>
    (za_inits a \<noteq> [] \<longrightarrow> r \<noteq> ZPending \<and> za_inits b = tl (za_inits a) \<and>
       za_remainingConnectTimeout b = zcf_connectTimeout (za_zkConfig a))"
  using assms
  by (cases "za_inits a")
    (auto simp: zaReconnect_def zaDisconnect_def connection_defs Let_def split: if_splits)

lemma sessionEvents_env [simp]:
  "za_inits (fold sessionEvent es a) = za_inits a" "za_zkConfig (fold sessionEvent es a) = za_zkConfig a"
  by (induction es arbitrary: a) (auto simp: sessionEvent_def connection_defs Let_def)

lemma waitLoop_returns:
  assumes "waitLoop waits toWait a = (b, r)" and "toWait \<le> sum_list (map snd waits)"
    and "length waits \<le> length (za_inits a)"
  shows "r \<noteq> ZPending"
  using assms
proof (induction waits arbitrary: toWait a)
  case Nil
  then show ?case by (auto simp: waitLoop.simps)
next
  case (Cons w ws)
  have inits: "za_inits a \<noteq> []" using Cons.prems(3) by auto
  from Cons.prems(1) show ?case
  proof (cases rule: waitLoop_cases)
    case (stopped a1 r1)
    with inits zaReconnect_env [of a a1 r1] show ?thesis
      by (auto simp: reconnectIfExpired_def split: if_splits)
  next
    case (waited a1 es ms ws')
    have "length ws \<le> length (za_inits a1)"
      using waited(1) zaReconnect_env [of a a1 "ZOk ()"] Cons.prems(3) inits
      by (auto simp: reconnectIfExpired_def split: if_splits)
    moreover have ws: "ws' = ws" using waited(2) by simp
    ultimately show ?thesis
      using Cons.IH [OF waited(3) [unfolded ws]] waited(2) Cons.prems(2) by simp
  qed simp
qed

text \<open>What the loop has waited when it ends: each wait started before the time was used up.\<close>

lemma waitLoop_time:
  assumes "waitLoop waits toWait a = (b, ZOk t)"
  shows "\<exists>n \<le> length waits. za_waits b = drop n waits \<and> t = toWait - sum_list (map snd (take n waits)) \<and>
    (\<forall>k < n. sum_list (map snd (take k waits)) < toWait) \<and> (za_state b = AS_CONNECTED \<or> t \<le> 0)"
  using assms
proof (induction waits arbitrary: toWait a)
  case Nil
  then show ?case by (cases rule: waitLoop_cases) auto
next
  case (Cons w ws)
  show ?case
  proof (cases "za_state a = AS_CONNECTED \<or> toWait \<le> 0")
    case True
    with Cons.prems show ?thesis by (auto simp: waitLoop.simps [of "w # ws"] intro!: exI [of _ 0])
  next
    case False
    from Cons.prems False obtain a1 where run: "waitLoop ws (toWait - snd w) a1 = (b, ZOk t)"
      by (cases rule: waitLoop_cases) auto
    obtain n where n: "n \<le> length ws" "za_waits b = drop n ws"
      "t = toWait - snd w - sum_list (map snd (take n ws))"
      "\<forall>k < n. sum_list (map snd (take k ws)) < toWait - snd w" "za_state b = AS_CONNECTED \<or> t \<le> 0"
      using Cons.IH [OF run] by blast
    have "sum_list (map snd (take k (w # ws))) < toWait" if "k < Suc n" for k
      using that n(4) False by (cases k) auto
    with n show ?thesis by (intro exI [of _ "Suc n"]) auto
  qed
qed

text \<open>
  C31. A call that waits for the connection returns: however often the session expires meanwhile, as
  soon as the waits add up to the connect time-out (the remaining one, or the full one after a
  reconnect) and \<open>zookeeper_init\<close> has returned once for each wait and once more, \<open>verifyConnection\<close>
  has returned or thrown.
\<close>

theorem verifyConnection_returns:
  assumes "za_remainingConnectTimeout a \<le> sum_list (map snd (za_waits a))"
    and "zcf_connectTimeout (za_zkConfig a) \<le> sum_list (map snd (za_waits a))"
    and "length (za_waits a) < length (za_inits a)"
  shows "snd (verifyConnection a) \<noteq> ZPending"
proof -
  obtain c q where c: "verifyLocked (zaLock a) = (c, q)" by fastforce
  have "q \<noteq> ZPending"
  proof (cases "za_state a = AS_DISCONNECTED \<or> za_state a = AS_CONNECTED")
    case True
    with c show ?thesis by (auto simp: verifyLocked_def zaLock_def)
  next
    case False
    obtain a1 r1 where re: "reconnectIfDown (zaLock a) = (a1, r1)" by fastforce
    have a1: "r1 \<noteq> ZPending" "za_waits a1 = za_waits a" "length (za_waits a) \<le> length (za_inits a1)"
      "za_remainingConnectTimeout a1 \<le> sum_list (map snd (za_waits a))"
      using re assms zaReconnect_env [of "zaLock a" a1 r1]
      by (auto simp: reconnectIfDown_def zaLock_def split: if_splits)
    obtain b t where w: "waitLoop (za_waits a1) (za_remainingConnectTimeout a1) a1 = (b, t)" by fastforce
    have "t \<noteq> ZPending" using waitLoop_returns [OF w] a1 by simp
    with c False re a1(1) w show ?thesis
      by (cases r1; cases t) (auto simp: verifyLocked_def zaLock_def zbind_def waitUntilConnected_def
          zreturn_def zaConnectedOrThrow_def Let_def split: if_splits)
  qed
  with c show ?thesis by (cases q) (simp_all add: verifyConnection_def)
qed

theorem verifyConnection_returns_witness:
  "snd (verifyConnection (adapter_sample\<lparr>za_waits := [([ZOO_EXPIRED_SESSION_STATE], 9000), ([], 6000)],
     za_inits := [True, False, True]\<rparr>)) \<noteq> ZPending"
  by (rule verifyConnection_returns) (simp_all add: adapter_eval)

text \<open>
  The connect time-out is kept: a call that finds the adapter connecting waits only while the
  waits so far add up to less than the remaining time-out, takes the time it waited off what
  remains, and throws only if that reached the time-out without a connection.
\<close>

theorem connect_timeout_kept:
  assumes "waitLoop (za_waits a) (za_remainingConnectTimeout a) a = (c, ZOk t)"
    and "0 < za_remainingConnectTimeout a"
  shows "\<exists>n \<le> length (za_waits a). \<exists>b r. waitUntilConnected a = (b, r) \<and> za_waits b = drop n (za_waits a) \<and>
    (\<forall>k < n. sum_list (map snd (take k (za_waits a))) < za_remainingConnectTimeout a) \<and>
    za_remainingConnectTimeout b = za_remainingConnectTimeout c - sum_list (map snd (take n (za_waits a))) \<and>
    (if za_state b = AS_CONNECTED then r = ZOk ()
     else r = ZThrow (zkException ''Timed out while waiting for connection to ZK'') \<and>
       za_remainingConnectTimeout a \<le> sum_list (map snd (take n (za_waits a))))"
proof -
  obtain n where n: "n \<le> length (za_waits a)" "za_waits c = drop n (za_waits a)"
    "t = za_remainingConnectTimeout a - sum_list (map snd (take n (za_waits a)))"
    "\<forall>k < n. sum_list (map snd (take k (za_waits a))) < za_remainingConnectTimeout a"
    "za_state c = AS_CONNECTED \<or> t \<le> 0"
    using waitLoop_time [OF assms(1)] by blast
  let ?b = "waitedForConnect (za_remainingConnectTimeout a - t) c"
  have "waitUntilConnected a = zaConnectedOrThrow (za_remainingConnectTimeout a) ?b"
    using assms by (simp add: waitUntilConnected_def zbind_def Let_def)
  with n assms(2) show ?thesis
    by (auto simp: zaConnectedOrThrow_def waitedForConnect_def intro!: exI [of _ n])
qed

theorem connect_timeout_kept_witness:
  "\<exists>b. waitUntilConnected (adapter_sample\<lparr>za_waits := [([], 9000), ([], 6000), ([], 1)]\<rparr>) =
     (b, ZThrow (zkException ''Timed out while waiting for connection to ZK'')) \<and> za_waits b = [([], 1)]"
proof -
  let ?a = "adapter_sample\<lparr>za_waits := [([], 9000), ([], 6000), ([], 1)]\<rparr>"
  obtain c where w: "waitLoop (za_waits ?a) (za_remainingConnectTimeout ?a) ?a = (c, ZOk 0)"
    by (simp add: adapter_eval)
  have "0 < za_remainingConnectTimeout ?a" by (simp add: adapter_eval)
  from connect_timeout_kept [OF w this] show ?thesis
    by (simp add: adapter_eval)
qed

end
