(* ===== verification/Zk_Events.thy ===== *)
theory Zk_Events
  imports Zk_Adapter "HOL-Library.Sublist"
begin

section \<open>Watch events of the ZooKeeper adapter: \<open>src/infra/zk/zkadapter.cc\<close>\<close>

text \<open>
  ZooKeeper calls \<open>zkWatcher\<close>, which queues the event. The event dispatcher thread
  (\<open>processEvents\<close>) takes it, changes the connection state if it is a session event and passes it
  to a second queue; the user event dispatcher (\<open>processUserEvents\<close>) takes it from there and calls
  the listeners (\<open>handleEvent\<close>). Operations register a context with a listener for a path
  (\<open>registerContext\<close>); an event takes the contexts of its path out of the table. Each definition
  is one critical section or one round of a loop. The result of firing is the list of the calls of
  \<open>eventReceived\<close>. \<open>events_step\<close> interleaves the threads: each access to a queue, to the state or to the
  tables and each call of a listener is a step of its own, and a dispatcher may hold an event between
  its steps. The listeners themselves are those given before the threads run.
\<close>

subsection \<open>Contexts\<close>

definition registerContext ::
  "WatchableMethod \<Rightarrow> string \<Rightarrow> 'l::linorder option \<Rightarrow> 'c \<Rightarrow> ('l, 'c, 'z) ZooKeeperAdapter \<Rightarrow>
    ('l, 'c, 'z) ZooKeeperAdapter" where
  "registerContext method path listener context a =
     (let paths = za_zkContexts a method;
          listeners = (case map_of paths path of None \<Rightarrow> [] | Some ls \<Rightarrow> ls)
      in a\<lparr>za_zkContexts := (za_zkContexts a)
           (method := smap_put path (smap_put listener context listeners) paths)\<rparr>)"

definition findAndRemoveListenerContext ::
  "WatchableMethod \<Rightarrow> string \<Rightarrow> ('l, 'c, 'z) ZooKeeperAdapter \<Rightarrow>
    ('l, 'c) Listener2Context \<times> ('l, 'c, 'z) ZooKeeperAdapter" where
  "findAndRemoveListenerContext method path a =
     (case map_of (za_zkContexts a method) path of
        None \<Rightarrow> ([], a)
      | Some listeners \<Rightarrow>
          (listeners, a\<lparr>za_zkContexts := (za_zkContexts a)
             (method := AList.delete path (za_zkContexts a method))\<rparr>))"

subsection \<open>Handling an event\<close>

text \<open>A null listener stands for all the registered ones.\<close>

definition handleEventFor ::
  "int \<Rightarrow> int \<Rightarrow> string \<Rightarrow> ('l, 'c) Listener2Context \<Rightarrow> ('l, 'c, 'z) ZooKeeperAdapter \<Rightarrow>
    ('l \<times> 'c ZKWatcherEvent) list" where
  "handleEventFor type state path listeners a =
     (if listeners = [] then fireEvent (za_listeners a) (watcherEvent type state path)
      else concat (map (\<lambda>(l, context).
        let event = (watcherEvent type state path)\<lparr>we_context := Some context\<rparr>
        in case l of Some x \<Rightarrow> fireTo x event | None \<Rightarrow> fireEvent (za_listeners a) event) listeners))"

definition handleEvent ::
  "int \<Rightarrow> int \<Rightarrow> string \<Rightarrow> ('l, 'c, 'z) ZooKeeperAdapter \<Rightarrow>
    ('l, 'c, 'z) ZooKeeperAdapter \<times> ('l \<times> 'c ZKWatcherEvent) list" where
  "handleEvent type state path a =
     (let (context, context2, a1) =
        (if type \<noteq> ZOO_SESSION_EVENT \<and> type \<noteq> ZOO_NOTWATCHING_EVENT
         then if type = ZOO_CHANGED_EVENT \<or> type = ZOO_DELETED_EVENT
              then (case findAndRemoveListenerContext GET_NODE_DATA path a of
                     (c, b) \<Rightarrow> (case findAndRemoveListenerContext NODE_EXISTS path b of
                        (c2, b2) \<Rightarrow> if c = [] then (c2, [], b2) else (c, c2, b2)))
              else if type = ZOO_CHILD_EVENT
              then (case findAndRemoveListenerContext GET_NODE_CHILDREN path a of (c, b) \<Rightarrow> (c, [], b))
              else if type = ZOO_CREATED_EVENT
              then (case findAndRemoveListenerContext NODE_EXISTS path a of (c, b) \<Rightarrow> (c, [], b))
              else ([], [], a)
         else ([], [], a))
      in (a1, handleEventFor type state path context a1 @
            (if context2 \<noteq> [] then handleEventFor type state path context2 a1 else [])))"

subsection \<open>The two dispatchers\<close>

definition enqueueEvent ::
  "int \<Rightarrow> int \<Rightarrow> string \<Rightarrow> ('l, 'c, 'z) ZooKeeperAdapter \<Rightarrow> ('l, 'c, 'z) ZooKeeperAdapter" where
  "enqueueEvent type state path a = a\<lparr>za_events := bq_put (watcherEvent type state path) (za_events a)\<rparr>"

text \<open>The global watcher; \<open>context\<close>: does the handle have one? \<open>path\<close> may be null.\<close>

definition zkWatcher ::
  "bool \<Rightarrow> int \<Rightarrow> int \<Rightarrow> string option \<Rightarrow> ('l, 'c, 'z) ZooKeeperAdapter \<Rightarrow> ('l, 'c, 'z) ZooKeeperAdapter" where
  "zkWatcher context type state path a =
     (let sPath = (case path of
            None \<Rightarrow> []
          | Some p \<Rightarrow> if state = ZOO_SESSION_EVENT \<or> state = ZOO_NOTWATCHING_EVENT then [] else p)
      in if context then enqueueEvent type state sPath a else a)"

text \<open>
  A round of \<open>processEvents\<close>: the event is taken, applied to the state if it is a session event, and
  passed on. Without an event the wait of 100 ms times out.
\<close>

definition takeEvent ::
  "('l, 'c, 'z) ZooKeeperAdapter \<Rightarrow> ('c ZKWatcherEvent \<times> ('l, 'c, 'z) ZooKeeperAdapter) option" where
  "takeEvent a =
     (case bq_pop EventDispatcher (za_events a) of
        None \<Rightarrow> None
      | Some (source, q) \<Rightarrow> Some (source, a\<lparr>za_events := q\<rparr>))"

definition applyEvent :: "'c ZKWatcherEvent \<Rightarrow> ('l, 'c, 'z) ZooKeeperAdapter \<Rightarrow> ('l, 'c, 'z) ZooKeeperAdapter" where
  "applyEvent source a = (if we_type source = ZOO_SESSION_EVENT then sessionEvent (we_state source) a else a)"

definition passEvent :: "'c ZKWatcherEvent \<Rightarrow> ('l, 'c, 'z) ZooKeeperAdapter \<Rightarrow> ('l, 'c, 'z) ZooKeeperAdapter" where
  "passEvent source a = a\<lparr>za_userEvents := bq_put source (za_userEvents a)\<rparr>"

definition processEventsRound :: "('l, 'c, 'z) ZooKeeperAdapter \<Rightarrow> ('l, 'c, 'z) ZooKeeperAdapter" where
  "processEventsRound a =
     (case takeEvent a of
        None \<Rightarrow> a
      | Some (source, a1) \<Rightarrow> passEvent source (applyEvent source a1))"

text \<open>
  A round of \<open>processUserEvents\<close>, with the calls it makes. An exception of a listener is logged
  and ends the handling of that event only.
\<close>

definition takeUserEvent ::
  "('l, 'c, 'z) ZooKeeperAdapter \<Rightarrow> ('c ZKWatcherEvent \<times> ('l, 'c, 'z) ZooKeeperAdapter) option" where
  "takeUserEvent a =
     (case bq_pop UserEventDispatcher (za_userEvents a) of
        None \<Rightarrow> None
      | Some (source, q) \<Rightarrow> Some (source, a\<lparr>za_userEvents := q\<rparr>))"

definition handleTaken ::
  "'c ZKWatcherEvent \<Rightarrow> ('l, 'c, 'z) ZooKeeperAdapter \<Rightarrow>
    ('l, 'c, 'z) ZooKeeperAdapter \<times> ('l \<times> 'c ZKWatcherEvent) list" where
  "handleTaken source a = handleEvent (we_type source) (we_state source) (we_path source) a"

definition processUserEventsRound ::
  "('l, 'c, 'z) ZooKeeperAdapter \<Rightarrow> ('l, 'c, 'z) ZooKeeperAdapter \<times> ('l \<times> 'c ZKWatcherEvent) list" where
  "processUserEventsRound a =
     (case takeUserEvent a of
        None \<Rightarrow> (a, [])
      | Some (source, a1) \<Rightarrow> handleTaken source a1)"

text \<open>The loops: each round first reads \<open>m_terminating\<close>.\<close>

fun processEvents :: "nat \<Rightarrow> ('l, 'c, 'z) ZooKeeperAdapter \<Rightarrow> ('l, 'c, 'z) ZooKeeperAdapter" where
  "processEvents 0 a = a"
| "processEvents (Suc n) a = (if za_terminating a then a else processEvents n (processEventsRound a))"

fun processUserEvents ::
  "nat \<Rightarrow> ('l, 'c, 'z) ZooKeeperAdapter \<Rightarrow> ('l, 'c, 'z) ZooKeeperAdapter \<times> ('l \<times> 'c ZKWatcherEvent) list" where
  "processUserEvents 0 a = (a, [])"
| "processUserEvents (Suc n) a =
     (if za_terminating a then (a, [])
      else (case processUserEventsRound a of
              (a1, calls) \<Rightarrow> (case processUserEvents n a1 of (a2, calls2) \<Rightarrow> (a2, calls @ calls2))))"

subsection \<open>Who is called\<close>

text \<open>Reference: the methods whose contexts an event concerns, and the contexts of a path.\<close>

definition concerned :: "int \<Rightarrow> WatchableMethod list" where
  "concerned type =
     (if type = ZOO_CHANGED_EVENT \<or> type = ZOO_DELETED_EVENT then [GET_NODE_DATA, NODE_EXISTS]
      else if type = ZOO_CHILD_EVENT then [GET_NODE_CHILDREN]
      else if type = ZOO_CREATED_EVENT then [NODE_EXISTS]
      else [])"

definition contextsOf :: "WatchableMethod \<Rightarrow> string \<Rightarrow> ('l, 'c, 'z) ZooKeeperAdapter \<Rightarrow> ('l, 'c) Listener2Context" where
  "contextsOf m path a = (case map_of (za_zkContexts a m) path of None \<Rightarrow> [] | Some ls \<Rightarrow> ls)"

lemma findAndRemove_eq:
  "findAndRemoveListenerContext m path a =
     (contextsOf m path a,
      a\<lparr>za_zkContexts := (za_zkContexts a)(m := AList.delete path (za_zkContexts a m))\<rparr>)"
proof (cases "map_of (za_zkContexts a m) path")
  case None
  then have "AList.delete path (za_zkContexts a m) = za_zkContexts a m"
    by (simp add: map_of_eq_None_iff delete_id)
  then have "a = a\<lparr>za_zkContexts := (za_zkContexts a)(m := AList.delete path (za_zkContexts a m))\<rparr>" by simp
  with None show ?thesis by (simp add: findAndRemoveListenerContext_def contextsOf_def)
next
  case (Some ls)
  then show ?thesis by (simp add: findAndRemoveListenerContext_def contextsOf_def)
qed

lemma handleEventFor_append:
  "xs \<noteq> [] \<Longrightarrow> handleEventFor type st path xs a @
     (if ys \<noteq> [] then handleEventFor type st path ys a else []) = handleEventFor type st path (xs @ ys) a"
  by (simp add: handleEventFor_def)

lemma handleEventFor_contexts [simp]:
  "handleEventFor type st path ls (a\<lparr>za_zkContexts := x\<rparr>) = handleEventFor type st path ls a"
  by (simp add: handleEventFor_def case_prod_beta Let_def cong: option.case_cong)

lemma handleEvent_eq:
  "handleEvent type st path a =
     (a\<lparr>za_zkContexts := (\<lambda>m. if m \<in> set (concerned type) then AList.delete path (za_zkContexts a m)
                            else za_zkContexts a m)\<rparr>,
      handleEventFor type st path (concat (map (\<lambda>m. contextsOf m path a) (concerned type))) a)"
proof -
  have other: "contextsOf NODE_EXISTS path (a\<lparr>za_zkContexts := (za_zkContexts a)(GET_NODE_DATA := x)\<rparr>) =
      contextsOf NODE_EXISTS path a" for x
    by (simp add: contextsOf_def)
  have tables: "(za_zkContexts a)(m := AList.delete path (za_zkContexts a m)) =
      (\<lambda>k. if k = m then AList.delete path (za_zkContexts a k) else za_zkContexts a k)" for m
    by auto
  have same: "a\<lparr>za_zkContexts := za_zkContexts a\<rparr> = a" by simp
  consider "type \<in> {ZOO_CHANGED_EVENT, ZOO_DELETED_EVENT}" | "type = ZOO_CHILD_EVENT" | "type = ZOO_CREATED_EVENT"
    | "type \<notin> {ZOO_CHANGED_EVENT, ZOO_DELETED_EVENT, ZOO_CHILD_EVENT, ZOO_CREATED_EVENT}" by blast
  then show ?thesis
  proof cases
    case 1
    let ?c = "contextsOf GET_NODE_DATA path a" and ?e = "contextsOf NODE_EXISTS path a"
    let ?a = "a\<lparr>za_zkContexts := (za_zkContexts a)
        (GET_NODE_DATA := AList.delete path (za_zkContexts a GET_NODE_DATA),
         NODE_EXISTS := AList.delete path (za_zkContexts a NODE_EXISTS))\<rparr>"
    have tab: "?a = a\<lparr>za_zkContexts := (\<lambda>m. if m \<in> set (concerned type)
        then AList.delete path (za_zkContexts a m) else za_zkContexts a m)\<rparr>"
      using 1 by (intro arg_cong [where f = "\<lambda>c. a\<lparr>za_zkContexts := c\<rparr>"]) (auto simp: concerned_def)
    have con: "concat (map (\<lambda>m. contextsOf m path a) (concerned type)) = ?c @ ?e"
      using 1 by (auto simp: concerned_def)
    have "handleEvent type st path a =
        (?a, handleEventFor type st path (if ?c = [] then ?e else ?c) a @
           (if ?c \<noteq> [] \<and> ?e \<noteq> [] then handleEventFor type st path ?e a else []))"
      using 1 by (auto simp: handleEvent_def findAndRemove_eq other zk_events)
    then show ?thesis
      unfolding tab [symmetric] con using handleEventFor_append [of ?c type st path a ?e] by (cases "?c = []") auto
  next
    case 4
    then have "concerned type = []" by (simp add: concerned_def)
    with 4 show ?thesis by (simp add: handleEvent_def same)
  qed (auto simp: handleEvent_def findAndRemove_eq concerned_def zk_events tables)
qed

text \<open>
  An event calls exactly those who wait for it, once: with the contexts registered for its path
  by the methods its type concerns (a change or a deletion concerns the readers of the node's data
  and those who asked for its existence), each listener is called with its own context; if there is
  none, all registered listeners are called without a context. These contexts are then gone, and
  all others are untouched.
\<close>

theorem handleEvent_delivers_once:
  "handleEvent type st path a =
     (a\<lparr>za_zkContexts := (\<lambda>m. if m \<in> set (concerned type) then AList.delete path (za_zkContexts a m)
                            else za_zkContexts a m)\<rparr>,
      handleEventFor type st path (concat (map (\<lambda>m. contextsOf m path a) (concerned type))) a)"
  by (rule handleEvent_eq)

text \<open>Two readers and one that asked for existence, when the node changes.\<close>

definition watching_sample :: "(nat, string, unit) ZooKeeperAdapter" where
  "watching_sample = registerContext NODE_EXISTS ''/n'' None ''any'' (registerContext GET_NODE_DATA ''/n'' (Some 2) ''b''
     (registerContext GET_NODE_DATA ''/n'' (Some 1) ''a''
       ((fst (ZooKeeperAdapter_new (ZooKeeperConfig_new ''h'' 30) (Some 7) False [] [] ())))))"

lemma watching_sample_calls:
  "snd (handleEvent ZOO_CHANGED_EVENT 3 ''/n'' watching_sample) =
     map (\<lambda>(l, c). (l, \<lparr>we_type = 3, we_state = 3, we_path = ''/n'', we_context = Some c\<rparr>))
       [(1, ''a''), (2, ''b''), (7, ''any'')]"
  unfolding handleEvent_eq
  by (simp add: watching_sample_def contextsOf_def registerContext_def ZooKeeperAdapter_new_def
      connection_defs concerned_def zk_events handleEventFor_def fireTo_def fireEvent_def watcherEvent_def
      addListener_def Let_def insort_insert_key_def)

subsection \<open>The threads\<close>

text \<open>
  The handling of an event, for reference: the contexts that were registered for it, with their
  methods, the listeners of the adapter, and the calls made so far; a listener may have thrown.
\<close>

record ('l, 'c) delivery =
  dl_event :: "'c ZKWatcherEvent"
  dl_contexts :: "(WatchableMethod \<times> 'l option \<times> 'c) list"
  dl_listeners :: "'l list"
  dl_calls :: "('l \<times> 'c ZKWatcherEvent) list"
  dl_failed :: bool

definition concernedContexts ::
  "'c ZKWatcherEvent \<Rightarrow> ('l, 'c, 'z) ZooKeeperAdapter \<Rightarrow> (WatchableMethod \<times> 'l option \<times> 'c) list" where
  "concernedContexts e a =
     concat (map (\<lambda>m. map (\<lambda>(l, c). (m, l, c)) (contextsOf m (we_path e) a)) (concerned (we_type e)))"

definition newDelivery :: "'c ZKWatcherEvent \<Rightarrow> ('l, 'c, 'z) ZooKeeperAdapter \<Rightarrow> ('l, 'c) delivery" where
  "newDelivery e a = \<lparr>dl_event = e, dl_contexts = concernedContexts e a, dl_listeners = za_listeners a,
     dl_calls = [], dl_failed = False\<rparr>"

text \<open>
  The adapter with what its dispatchers have in hand: \<open>er_moving\<close> the event of \<open>processEvents\<close> and
  whether it has been applied, \<open>er_taken\<close> the event of \<open>processUserEvents\<close> before it is handled,
  \<open>er_due\<close> the calls it has still to make; the calls made so far; and, for reference, the events
  handled and the contexts registered and replaced.
\<close>

record ('l, 'c, 'z) events_run =
  er_adapter :: "('l, 'c, 'z) ZooKeeperAdapter"
  er_moving :: "('c ZKWatcherEvent \<times> bool) option"
  er_taken :: "'c ZKWatcherEvent option"
  er_due :: "('l \<times> 'c ZKWatcherEvent) list"
  er_calls :: "('l \<times> 'c ZKWatcherEvent) list"
  er_log :: "('l, 'c) delivery list"
  er_registered :: "(WatchableMethod \<times> string \<times> 'l option \<times> 'c) list"
  er_replaced :: "(WatchableMethod \<times> string \<times> 'l option \<times> 'c) list"

text \<open>The context that a registration replaces.\<close>

definition replacedContext ::
  "WatchableMethod \<Rightarrow> string \<Rightarrow> 'l option \<Rightarrow> ('l, 'c, 'z) ZooKeeperAdapter \<Rightarrow>
    (WatchableMethod \<times> string \<times> 'l option \<times> 'c) list" where
  "replacedContext m path l a = (case map_of (contextsOf m path a) l of None \<Rightarrow> [] | Some c \<Rightarrow> [(m, path, l, c)])"

definition called :: "'l \<times> 'c ZKWatcherEvent \<Rightarrow> bool \<Rightarrow> ('l, 'c) delivery list \<Rightarrow> ('l, 'c) delivery list" where
  "called x threw ds =
     butlast ds @ [(last ds)\<lparr>dl_calls := dl_calls (last ds) @ [x], dl_failed := threw\<rparr>]"

inductive events_step :: "('l::linorder, 'c, 'z) events_run \<Rightarrow> ('l, 'c, 'z) events_run \<Rightarrow> bool" where
  Watch: "events_step s (s\<lparr>er_adapter := zkWatcher context type state path (er_adapter s)\<rparr>)"
| Take: "er_moving s = None \<Longrightarrow> \<not> za_terminating (er_adapter s) \<Longrightarrow> takeEvent (er_adapter s) = Some (e, a) \<Longrightarrow>
    events_step s (s\<lparr>er_adapter := a, er_moving := Some (e, False)\<rparr>)"
| Apply: "er_moving s = Some (e, False) \<Longrightarrow>
    events_step s (s\<lparr>er_adapter := applyEvent e (er_adapter s), er_moving := Some (e, True)\<rparr>)"
| Pass: "er_moving s = Some (e, True) \<Longrightarrow>
    events_step s (s\<lparr>er_adapter := passEvent e (er_adapter s), er_moving := None\<rparr>)"
| UserTake: "er_taken s = None \<Longrightarrow> er_due s = [] \<Longrightarrow> \<not> za_terminating (er_adapter s) \<Longrightarrow>
    takeUserEvent (er_adapter s) = Some (e, a) \<Longrightarrow> events_step s (s\<lparr>er_adapter := a, er_taken := Some e\<rparr>)"
| Handle: "er_taken s = Some e \<Longrightarrow>
    handleTaken e (er_adapter s) = (a, calls) \<Longrightarrow>
    events_step s (s\<lparr>er_adapter := a, er_taken := None, er_due := calls,
      er_log := er_log s @ [newDelivery e (er_adapter s)]\<rparr>)"
| Call: "er_due s = x # rest \<Longrightarrow>
    events_step s (s\<lparr>er_due := rest, er_calls := er_calls s @ [x], er_log := called x False (er_log s)\<rparr>)"
| CallThrows: "er_due s = x # rest \<Longrightarrow>
    events_step s (s\<lparr>er_due := [], er_calls := er_calls s @ [x], er_log := called x True (er_log s)\<rparr>)"
| Register: "events_step s (s\<lparr>er_adapter := registerContext m path listener c (er_adapter s),
    er_registered := er_registered s @ [(m, path, listener, c)],
    er_replaced := er_replaced s @ replacedContext m path listener (er_adapter s)\<rparr>)"
| Disconnect: "events_step s (s\<lparr>er_adapter := zaDisconnect (er_adapter s)\<rparr>)"
| Reconnect: "events_step s (s\<lparr>er_adapter := fst (zaReconnect (er_adapter s))\<rparr>)"
| Destroy: "events_step s (s\<lparr>er_adapter := ZooKeeperAdapter_destroy (er_adapter s)\<rparr>)"

inductive_cases events_stepE: "events_step s t"

text \<open>After the constructor.\<close>

definition events_init ::
  "ZooKeeperConfig \<Rightarrow> 'l::linorder option \<Rightarrow> bool \<Rightarrow> bool list \<Rightarrow> (int list \<times> int) list \<Rightarrow> 'z \<Rightarrow> ('l, 'c, 'z) events_run" where
  "events_init config listener establish inits waits zoo =
     \<lparr>er_adapter = fst (ZooKeeperAdapter_new config listener establish inits waits zoo), er_moving = None,
      er_taken = None, er_due = [], er_calls = [], er_log = [], er_registered = [], er_replaced = []\<rparr>"

text \<open>A round of a dispatcher that is not interrupted is a sequence of such steps.\<close>

lemma round_is_steps:
  assumes "er_moving s = None" and "\<not> za_terminating (er_adapter s)"
  shows "events_step\<^sup>*\<^sup>* s (s\<lparr>er_adapter := processEventsRound (er_adapter s)\<rparr>)"
proof (cases "takeEvent (er_adapter s)")
  case None
  then show ?thesis by (simp add: processEventsRound_def)
next
  case (Some p)
  obtain e a where p: "p = (e, a)" by (cases p)
  let ?s1 = "s\<lparr>er_adapter := a, er_moving := Some (e, False)\<rparr>"
  let ?s2 = "s\<lparr>er_adapter := applyEvent e a, er_moving := Some (e, True)\<rparr>"
  have "events_step s ?s1" by (rule events_step.Take) (use assms Some p in simp_all)
  moreover have "events_step ?s1 ?s2" using events_step.Apply [of ?s1 e] by simp
  moreover have "events_step ?s2 (s\<lparr>er_adapter := passEvent e (applyEvent e a), er_moving := None\<rparr>)"
    using events_step.Pass [of ?s2 e] by simp
  moreover have "s\<lparr>er_adapter := passEvent e (applyEvent e a), er_moving := None\<rparr> =
      s\<lparr>er_adapter := processEventsRound (er_adapter s)\<rparr>"
    using assms(1) Some p by (cases s) (simp add: processEventsRound_def)
  ultimately show ?thesis by (metis (no_types, lifting) rtranclp.simps)
qed

subsection \<open>Events arrive in order\<close>

text \<open>
  Whom an event must be passed to: each context registered for it to its listener, or, without a
  listener, to all listeners; if there is none, the event alone to all listeners.
\<close>

definition owed :: "('l, 'c) delivery \<Rightarrow> ('l \<times> 'c ZKWatcherEvent) list" where
  "owed d =
     (let e = watcherEvent (we_type (dl_event d)) (we_state (dl_event d)) (we_path (dl_event d))
      in if dl_contexts d = [] then map (\<lambda>l. (l, e)) (dl_listeners d)
         else concat (map (\<lambda>(m, l, c). map (\<lambda>x. (x, e\<lparr>we_context := Some c\<rparr>))
                (case l of Some x \<Rightarrow> [x] | None \<Rightarrow> dl_listeners d)) (dl_contexts d)))"

lemma handleEvent_owed:
  "snd (handleTaken e a) = owed (newDelivery e a)"
proof -
  let ?cs = "concat (map (\<lambda>m. contextsOf m (we_path e) a) (concerned (we_type e)))"
  have cs: "?cs = map snd (concernedContexts e a)"
    by (simp add: concernedContexts_def map_concat comp_def case_prod_beta)
  show ?thesis
    unfolding handleTaken_def handleEvent_eq snd_conv cs
    by (auto simp: owed_def newDelivery_def handleEventFor_def fireTo_def fireEvent_map Let_def case_prod_beta
        comp_def intro!: arg_cong [where f = concat] split: option.split)
qed


definition queuedEvents :: "('l, 'c, 'z) ZooKeeperAdapter \<Rightarrow> 'c ZKWatcherEvent list" where
  "queuedEvents a = bq_puts (za_events a)"

definition handledEvents :: "('l, 'c, 'z) ZooKeeperAdapter \<Rightarrow> 'c ZKWatcherEvent list" where
  "handledEvents a = map snd (bq_taken (za_userEvents a))"

text \<open>\<open>mv\<close>: the event between the queues.\<close>

definition pipeline_inv :: "'c ZKWatcherEvent list \<Rightarrow> ('l, 'c, 'z) ZooKeeperAdapter \<Rightarrow> bool" where
  "pipeline_inv mv a \<longleftrightarrow> bq_inv (za_events a) \<and> bq_inv (za_userEvents a) \<and>
     map snd (bq_taken (za_events a)) = bq_puts (za_userEvents a) @ mv"

definition finished :: "('l, 'c) delivery \<Rightarrow> bool" where
  "finished d \<longleftrightarrow> dl_calls d = owed d \<or> (dl_failed d \<and> prefix (dl_calls d) (owed d))"

definition log_inv :: "('l, 'c) delivery list \<Rightarrow> ('l \<times> 'c ZKWatcherEvent) list \<Rightarrow> bool" where
  "log_inv ds due \<longleftrightarrow>
     (if due = [] then list_all finished ds
      else ds \<noteq> [] \<and> list_all finished (butlast ds) \<and> owed (last ds) = dl_calls (last ds) @ due)"

definition moving :: "('l, 'c, 'z) events_run \<Rightarrow> 'c ZKWatcherEvent list" where
  "moving s = (case er_moving s of None \<Rightarrow> [] | Some (e, applied) \<Rightarrow> [e])"

definition taken :: "('l, 'c, 'z) events_run \<Rightarrow> 'c ZKWatcherEvent list" where
  "taken s = (case er_taken s of None \<Rightarrow> [] | Some e \<Rightarrow> [e])"

definition run_inv :: "('l, 'c, 'z) events_run \<Rightarrow> bool" where
  "run_inv s \<longleftrightarrow> pipeline_inv (moving s) (er_adapter s) \<and>
     handledEvents (er_adapter s) = map dl_event (er_log s) @ taken s \<and>
     er_calls s = concat (map dl_calls (er_log s)) \<and> log_inv (er_log s) (er_due s) \<and>
     (er_taken s \<noteq> None \<longrightarrow> er_due s = [])"

lemma connection_keeps_queues:
  "za_events (zaDisconnect a) = za_events a" "za_userEvents (zaDisconnect a) = za_userEvents a"
  "za_events (fst (zaReconnect a)) = za_events a" "za_userEvents (fst (zaReconnect a)) = za_userEvents a"
  "za_events (sessionEvent x a) = za_events a" "za_userEvents (sessionEvent x a) = za_userEvents a"
  "za_events (applyEvent e a) = za_events a" "za_userEvents (applyEvent e a) = za_userEvents a"
  "za_events (ZooKeeperAdapter_destroy a) = za_events a" "za_userEvents (ZooKeeperAdapter_destroy a) = za_userEvents a"
  by (auto simp: zaDisconnect_def zaReconnect_def sessionEvent_def applyEvent_def ZooKeeperAdapter_destroy_def
      connection_defs Let_def split: list.split)

lemma registerContext_keeps_queues [simp]:
  "za_events (registerContext m path l c a) = za_events a"
  "za_userEvents (registerContext m path l c a) = za_userEvents a"
  by (simp_all add: registerContext_def Let_def)

lemma bq_put_inv: "bq_inv q \<Longrightarrow> bq_inv (bq_put e q)"
  by (simp add: bq_inv_def bq_put_def)

lemma bq_put_fields [simp]: "bq_taken (bq_put e q) = bq_taken q" "bq_puts (bq_put e q) = bq_puts q @ [e]"
  by (simp_all add: bq_put_def)

lemma bq_pop_fields:
  "bq_pop t q = Some (e, q1) \<Longrightarrow>
     bq_queue q = e # bq_queue q1 \<and> bq_taken q1 = bq_taken q @ [(t, e)] \<and> bq_puts q1 = bq_puts q"
  by (auto simp: bq_pop_def split: list.splits)

lemma takeEvent_Some:
  assumes "takeEvent a = Some (e, b)"
  obtains q where "bq_pop EventDispatcher (za_events a) = Some (e, q)" and "b = a\<lparr>za_events := q\<rparr>"
  using assms by (auto simp: takeEvent_def split: option.splits)

lemma takeUserEvent_Some:
  assumes "takeUserEvent a = Some (e, b)"
  obtains q where "bq_pop UserEventDispatcher (za_userEvents a) = Some (e, q)" and "b = a\<lparr>za_userEvents := q\<rparr>"
  using assms by (auto simp: takeUserEvent_def split: option.splits)

lemma pipeline_take:
  assumes "pipeline_inv [] a" and "takeEvent a = Some (e, b)"
  shows "pipeline_inv [e] b" and "za_userEvents b = za_userEvents a"
proof -
  obtain q where q: "bq_pop EventDispatcher (za_events a) = Some (e, q)" "b = a\<lparr>za_events := q\<rparr>"
    using takeEvent_Some [OF assms(2)] .
  with assms(1) bq_pop_inv bq_pop_fields [OF q(1)] show "pipeline_inv [e] b" "za_userEvents b = za_userEvents a"
    by (auto simp: pipeline_inv_def)
qed

lemma pipeline_pass: "pipeline_inv [e] a \<Longrightarrow> pipeline_inv [] (passEvent e a)"
  by (simp add: pipeline_inv_def passEvent_def bq_put_inv)

lemma pipeline_user:
  assumes "pipeline_inv mv a" and "takeUserEvent a = Some (e, b)"
  shows "pipeline_inv mv b" and "handledEvents b = handledEvents a @ [e]" and "za_events b = za_events a"
proof -
  obtain q where q: "bq_pop UserEventDispatcher (za_userEvents a) = Some (e, q)" "b = a\<lparr>za_userEvents := q\<rparr>"
    using takeUserEvent_Some [OF assms(2)] .
  with assms(1) bq_pop_inv bq_pop_fields [OF q(1)]
  show "pipeline_inv mv b" "handledEvents b = handledEvents a @ [e]" "za_events b = za_events a"
    by (auto simp: pipeline_inv_def handledEvents_def)
qed

lemma pipeline_same:
  "za_events b = za_events a \<Longrightarrow> za_userEvents b = za_userEvents a \<Longrightarrow>
     pipeline_inv mv b = pipeline_inv mv a \<and> handledEvents b = handledEvents a"
  by (simp add: pipeline_inv_def handledEvents_def)

lemma handleEvent_keeps_queues:
  "handleTaken e a = (b, calls) \<Longrightarrow> za_events b = za_events a \<and> za_userEvents b = za_userEvents a"
  unfolding handleTaken_def handleEvent_eq by auto

text \<open>The log under a call.\<close>

lemma log_inv_new: "log_inv ds [] \<Longrightarrow> log_inv (ds @ [newDelivery e a]) (owed (newDelivery e a))"
  by (simp add: log_inv_def finished_def) (simp add: newDelivery_def)

lemma owed_called [simp]: "owed (d\<lparr>dl_calls := x, dl_failed := b\<rparr>) = owed d"
  by (simp add: owed_def cong: if_cong option.case_cong)

lemma log_inv_called:
  assumes "log_inv ds (x # rest)"
  shows "log_inv (called x False ds) rest" and "log_inv (called x True ds) []"
    and "concat (map dl_calls (called x b ds)) = concat (map dl_calls ds) @ [x]"
    and "map dl_event (called x b ds) = map dl_event ds"
proof -
  obtain ds' d where ds: "ds = ds' @ [d]" using assms by (cases ds rule: rev_cases) (auto simp: log_inv_def)
  with assms have ok: "list_all finished ds'" "owed d = dl_calls d @ x # rest" by (simp_all add: log_inv_def)
  show "log_inv (called x False ds) rest" "log_inv (called x True ds) []"
    using ok by (auto simp: called_def ds log_inv_def finished_def)
  show "concat (map dl_calls (called x b ds)) = concat (map dl_calls ds) @ [x]"
    "map dl_event (called x b ds) = map dl_event ds"
    by (simp_all add: called_def ds)
qed

lemma run_inv_step:
  assumes "events_step s t" and "run_inv s"
  shows "run_inv t"
  using assms(1)
proof cases
  case (Watch ctx type state path)
  with assms(2) show ?thesis
    by (simp add: run_inv_def moving_def taken_def zkWatcher_def enqueueEvent_def Let_def pipeline_inv_def
        handledEvents_def bq_put_inv)
next
  case (Take e a)
  with assms(2) pipeline_take [of "er_adapter s" e a] show ?thesis
    by (simp add: run_inv_def moving_def taken_def handledEvents_def)
next
  case (Apply e)
  with assms(2) pipeline_same [OF connection_keeps_queues(7,8) [of e "er_adapter s"]] show ?thesis
    by (simp add: run_inv_def moving_def taken_def)
next
  case (Pass e)
  with assms(2) pipeline_pass [of e "er_adapter s"] show ?thesis
    by (simp add: run_inv_def moving_def taken_def) (simp add: handledEvents_def passEvent_def)
next
  case (UserTake e a)
  with assms(2) pipeline_user [of "moving s" "er_adapter s" e a] show ?thesis
    by (simp add: run_inv_def moving_def taken_def)
next
  case (Handle e a calls)
  note same = pipeline_same [OF conjunct1 [OF handleEvent_keeps_queues [OF Handle(3)]]
      conjunct2 [OF handleEvent_keeps_queues [OF Handle(3)]]]
  have calls: "calls = owed (newDelivery e (er_adapter s))" using handleEvent_owed [of e "er_adapter s"] Handle(3) by simp
  have "er_due s = []" using assms(2) Handle(2) by (simp add: run_inv_def)
  with assms(2) have "log_inv (er_log s @ [newDelivery e (er_adapter s)]) calls"
    unfolding calls by (intro log_inv_new) (simp add: run_inv_def)
  with assms(2) Handle(1,2) same show ?thesis
    by (simp add: run_inv_def moving_def taken_def) (simp add: newDelivery_def)
next
  case (Call x rest)
  with assms(2) log_inv_called [of "er_log s" x rest] show ?thesis
    by (simp add: run_inv_def moving_def taken_def)
next
  case (CallThrows x rest)
  with assms(2) log_inv_called [of "er_log s" x rest] show ?thesis
    by (simp add: run_inv_def moving_def taken_def)
qed (use assms(2) in \<open>simp_all add: run_inv_def moving_def taken_def pipeline_inv_def handledEvents_def
  connection_keeps_queues\<close>)

interpretation eventsI: inv_system
  "\<lambda>s. s = events_init config listener establish inits waits zoo" events_step run_inv
  for config and listener :: "'l::linorder option" and establish inits waits and zoo :: 'z
proof unfold_locales
  show "run_inv s" if "s = events_init config listener establish inits waits zoo" for s :: "('l, 'c, 'z) events_run"
    unfolding that
    by (simp add: events_init_def ZooKeeperAdapter_new_def Let_def run_inv_def pipeline_inv_def moving_def taken_def
        handledEvents_def log_inv_def connection_keeps_queues resetRemainingConnectTimeout_def BlockingQueue_new_def bq_inv_def)
qed (rule run_inv_step)


text \<open>
  Two events, of which the first has been passed on and its only call is still due, while the
  dispatcher holds the second.
\<close>

definition events_start :: "(nat, string, nat) events_run" where
  "events_start = events_init (ZooKeeperConfig_new ''h'' 30) (Some 7) False [] [] 0"

definition events_taken :: "(nat, string, nat) events_run" where
  "events_taken = (let a = er_adapter events_start;
     a1 = zkWatcher True ZOO_CHILD_EVENT 3 (Some ''/b'') (zkWatcher True ZOO_SESSION_EVENT 3 None a);
     a2 = processEventsRound a1
   in events_start\<lparr>er_adapter := snd (the (takeUserEvent a2)), er_taken := Some (watcherEvent (- 1) 3 [])\<rparr>)"

definition events_two :: "(nat, string, nat) events_run" where
  "events_two = (let a = er_adapter events_taken; e = watcherEvent (- 1) 3 [] in events_taken
     \<lparr>er_adapter := snd (the (takeEvent (fst (handleTaken e a)))), er_taken := None,
      er_due := snd (handleTaken e a), er_log := [newDelivery e a],
      er_moving := Some (watcherEvent 4 3 ''/b'', False)\<rparr>)"

lemmas events_two_eval = events_two_def events_taken_def events_start_def events_init_def ZooKeeperAdapter_new_def
  zkWatcher_def enqueueEvent_def processEventsRound_def takeEvent_def applyEvent_def passEvent_def takeUserEvent_def
  handleTaken_def sessionEvent_def connection_defs bq_put_def bq_pop_def BlockingQueue_new_def watcherEvent_def
  zk_events zk_states

lemma events_taken_steps: "events_step\<^sup>*\<^sup>* events_start events_taken"
proof -
  let ?s1 = "events_start\<lparr>er_adapter := zkWatcher True ZOO_SESSION_EVENT 3 None (er_adapter events_start)\<rparr>"
  let ?s2 = "events_start\<lparr>er_adapter := zkWatcher True ZOO_CHILD_EVENT 3 (Some ''/b'') (er_adapter ?s1)\<rparr>"
  let ?s3 = "events_start\<lparr>er_adapter := processEventsRound (er_adapter ?s2)\<rparr>"
  have "events_step events_start ?s1" by (rule events_step.Watch)
  moreover have "events_step ?s1 ?s2"
    using events_step.Watch [of ?s1 True ZOO_CHILD_EVENT 3 "Some ''/b''"] by simp
  moreover have "events_step\<^sup>*\<^sup>* ?s2 ?s3"
    using round_is_steps [of ?s2] by (simp add: events_two_eval Let_def)
  moreover have "events_step ?s3 events_taken"
    using events_step.UserTake [of ?s3 "watcherEvent (- 1) 3 []" "er_adapter events_taken"]
    by (simp add: events_two_eval Let_def)
  ultimately show ?thesis by (meson r_into_rtranclp rtranclp.rtrancl_into_rtrancl rtranclp_trans)
qed



text \<open>
  The test for session events in \<open>zkWatcher\<close> compares the state with event types: for the states that
  ZooKeeper reports it never applies.
\<close>

lemma zkWatcher_keeps_path:
  assumes "state \<in> {0, ZOO_CONNECTING_STATE, ZOO_ASSOCIATING_STATE, ZOO_CONNECTED_STATE,
    ZOO_EXPIRED_SESSION_STATE, ZOO_AUTH_FAILED_STATE}"
  shows "zkWatcher True type state (Some path) a = enqueueEvent type state path a"
  using assms by (auto simp: zkWatcher_def zk_states zk_events)

subsection \<open>Every event is handled\<close>

lemma dispatch_round:
  assumes "pipeline_inv [] a" and "bq_queue (za_events a) = e # es" and "\<not> za_terminating a"
  shows "pipeline_inv [] (processEventsRound a)" and "bq_queue (za_events (processEventsRound a)) = es"
    and "queuedEvents (processEventsRound a) = queuedEvents a" and "\<not> za_terminating (processEventsRound a)"
proof -
  obtain q where q: "bq_pop EventDispatcher (za_events a) = Some (e, q)" "bq_queue q = es"
    using bqF.take_cons [OF assms(2)] by blast
  let ?b = "a\<lparr>za_events := q\<rparr>"
  have take: "takeEvent a = Some (e, ?b)" by (simp add: takeEvent_def q(1))
  then have round: "processEventsRound a = passEvent e (applyEvent e ?b)" by (simp add: processEventsRound_def)
  have "pipeline_inv [e] (applyEvent e ?b)"
    using pipeline_take(1) [OF assms(1) take] by (simp add: pipeline_inv_def connection_keeps_queues)
  then show "pipeline_inv [] (processEventsRound a)" unfolding round by (rule pipeline_pass)
  show "bq_queue (za_events (processEventsRound a)) = es" "queuedEvents (processEventsRound a) = queuedEvents a"
    using q bq_pop_fields [OF q(1)] by (simp_all add: round passEvent_def queuedEvents_def connection_keeps_queues)
  show "\<not> za_terminating (processEventsRound a)"
    using assms(3) by (auto simp: round passEvent_def applyEvent_def sessionEvent_def connection_defs Let_def)
qed

lemma user_round:
  assumes "pipeline_inv mv a" and "bq_queue (za_userEvents a) = e # es" and "\<not> za_terminating a"
  shows "pipeline_inv mv (fst (processUserEventsRound a))"
    and "bq_queue (za_userEvents (fst (processUserEventsRound a))) = es"
    and "za_events (fst (processUserEventsRound a)) = za_events a"
    and "\<not> za_terminating (fst (processUserEventsRound a))"
proof -
  obtain q where q: "bq_pop UserEventDispatcher (za_userEvents a) = Some (e, q)" "bq_queue q = es"
    using bqF.take_cons [OF assms(2)] by blast
  let ?b = "a\<lparr>za_userEvents := q\<rparr>"
  have take: "takeUserEvent a = Some (e, ?b)" by (simp add: takeUserEvent_def q(1))
  with q(2) assms(3) show "bq_queue (za_userEvents (fst (processUserEventsRound a))) = es"
    "za_events (fst (processUserEventsRound a)) = za_events a"
    "\<not> za_terminating (fst (processUserEventsRound a))"
    by (simp_all add: processUserEventsRound_def handleTaken_def handleEvent_eq)
  show "pipeline_inv mv (fst (processUserEventsRound a))"
    using pipeline_user(1) [OF assms(1) take] take
    by (simp add: processUserEventsRound_def handleTaken_def handleEvent_eq pipeline_inv_def)
qed

lemma processEvents_drains:
  "pipeline_inv [] a \<Longrightarrow> \<not> za_terminating a \<Longrightarrow> length (bq_queue (za_events a)) = n \<Longrightarrow>
     pipeline_inv [] (processEvents n a) \<and> bq_queue (za_events (processEvents n a)) = [] \<and>
     queuedEvents (processEvents n a) = queuedEvents a \<and> \<not> za_terminating (processEvents n a)"
proof (induction n arbitrary: a)
  case (Suc n)
  from Suc.prems(3) obtain e es where q: "bq_queue (za_events a) = e # es" by (cases "bq_queue (za_events a)") auto
  note r = dispatch_round [OF Suc.prems(1) q Suc.prems(2)]
  from Suc.IH [OF r(1,4)] r(2,3) Suc.prems q show ?case by simp
qed simp

lemma processUserEvents_drains:
  "pipeline_inv mv a \<Longrightarrow> \<not> za_terminating a \<Longrightarrow> length (bq_queue (za_userEvents a)) = n \<Longrightarrow>
     pipeline_inv mv (fst (processUserEvents n a)) \<and> bq_queue (za_userEvents (fst (processUserEvents n a))) = [] \<and>
     za_events (fst (processUserEvents n a)) = za_events a"
proof (induction n arbitrary: a)
  case (Suc n)
  from Suc.prems(3) obtain e es where q: "bq_queue (za_userEvents a) = e # es"
    by (cases "bq_queue (za_userEvents a)") auto
  note r = user_round [OF Suc.prems(1) q Suc.prems(2)]
  from Suc.IH [OF r(1,4)] r(2,3) Suc.prems q show ?case by (simp add: case_prod_beta)
qed simp

text \<open>
  No event is left behind: in any reachable state of an adapter that is not being destroyed and
  whose first dispatcher is between two rounds, as many rounds of the two dispatchers as there are
  events in their queues handle every event that ZooKeeper has reported, in order.
\<close>

theorem events_all_handled:
  assumes "events_step\<^sup>*\<^sup>* (events_init config listener establish inits waits zoo) s"
    and "er_moving s = None" and "\<not> za_terminating (er_adapter s)"
    and "a = processEvents (length (bq_queue (za_events (er_adapter s)))) (er_adapter s)"
    and "b = fst (processUserEvents (length (bq_queue (za_userEvents a))) a)"
  shows "handledEvents b = queuedEvents (er_adapter s)"
proof -
  have "pipeline_inv [] (er_adapter s)"
    using eventsI.reachable_inv [OF refl assms(1)] assms(2) by (simp add: run_inv_def moving_def)
  from processEvents_drains [OF this assms(3) refl]
  have a: "pipeline_inv [] a" "bq_queue (za_events a) = []" "queuedEvents a = queuedEvents (er_adapter s)"
    "\<not> za_terminating a" by (simp_all add: assms(4))
  have b: "pipeline_inv [] b" "bq_queue (za_userEvents b) = []" "za_events b = za_events a"
    using processUserEvents_drains [OF a(1,4) refl] by (simp_all add: assms(5))
  from b a(2) have "bq_puts (za_events a) = map snd (bq_taken (za_userEvents b))"
    unfolding pipeline_inv_def bq_inv_def by (metis append_Nil2)
  with a(3) show ?thesis by (simp add: handledEvents_def queuedEvents_def)
qed

theorem events_all_handled_witness:
  "handledEvents (fst (processUserEvents 1 (processEvents 1 (er_adapter events_taken)))) =
     [watcherEvent (- 1) 3 [], watcherEvent 4 3 ''/b'']"
proof -
  have eval: "\<not> za_terminating (er_adapter events_taken)" "er_moving events_taken = None"
    "length (bq_queue (za_events (er_adapter events_taken))) = 1"
    "queuedEvents (er_adapter events_taken) = [watcherEvent (- 1) 3 [], watcherEvent 4 3 ''/b'']"
    "length (bq_queue (za_userEvents (processEvents 1 (er_adapter events_taken)))) = 1"
    by (simp_all add: events_two_eval Let_def queuedEvents_def)
  from events_all_handled [OF events_taken_steps [unfolded events_start_def] eval(2,1) refl refl] show ?thesis
    by (simp only: eval)
qed

subsection \<open>The tables stay maps\<close>




lemma smap_put_ne [simp]: "smap_put k v m \<noteq> []"
  by (cases "(k, v, m)" rule: smap_put.cases) auto










subsection \<open>Contexts are used once\<close>




























end
