(* ===== verification/Zk_Nodes.thy ===== *)
theory Zk_Nodes
  imports Zk_Events
begin

unbundle bit_operations_syntax

section \<open>Node operations of the ZooKeeper adapter: \<open>src/infra/zk/zkadapter.cc\<close>\<close>

text \<open>
  Every operation validates the path, verifies the connection and calls ZooKeeper, with retries.
  The synchronous C client is not part of the repository: it is the record \<open>zoo_api\<close>, an argument,
  whose functions change the state of ZooKeeper and give a return code and their outputs.
  \<open>zoo_ok\<close> states the documented behaviour of persistent nodes in a tree, \<open>mem_zoo\<close> is an instance.
  The recursion of \<open>createNode\<close> ends because an ancestor's path is shorter. How deep \<open>deleteNode\<close>
  recurses depends on ZooKeeper: its first argument bounds the depth, and the call has not returned
  (\<open>ZPending\<close>) where it is too small.
\<close>

subsection \<open>The C client and calls with retries\<close>

text \<open>
  \<open>zoo_create\<close> is given the length of the buffer for the created path. The last two fields are not
  calls: which nodes are ephemeral, and which paths ZooKeeper accepts.
\<close>

record ('z, 'st) zoo_api =
  zoo_create :: "string \<Rightarrow> string \<Rightarrow> int \<Rightarrow> nat \<Rightarrow> 'z \<Rightarrow> 'z \<times> int \<times> string"
  zoo_delete :: "string \<Rightarrow> int \<Rightarrow> 'z \<Rightarrow> 'z \<times> int \<times> unit"
  zoo_exists :: "string \<Rightarrow> bool \<Rightarrow> 'z \<Rightarrow> 'z \<times> int \<times> 'st"
  zoo_get_children :: "string \<Rightarrow> bool \<Rightarrow> 'z \<Rightarrow> 'z \<times> int \<times> string list"
  zoo_get :: "string \<Rightarrow> bool \<Rightarrow> int \<Rightarrow> 'z \<Rightarrow> 'z \<times> int \<times> string \<times> int \<times> 'st"
  zoo_set :: "string \<Rightarrow> string \<Rightarrow> int \<Rightarrow> 'z \<Rightarrow> 'z \<times> int \<times> unit"
  zoo_ephemeral :: "'z \<Rightarrow> string \<Rightarrow> bool"
  zoo_valid :: "string \<Rightarrow> bool"

definition zooCall ::
  "('z \<Rightarrow> 'z \<times> int \<times> 'd) \<Rightarrow> ('l, 'c, 'z) ZooKeeperAdapter \<Rightarrow>
    ('l, 'c, 'z) ZooKeeperAdapter \<times> (int \<times> 'd) zresult" where
  "zooCall call a = (case call (za_zoo a) of (z, rc, d) \<Rightarrow> (a\<lparr>za_zoo := z\<rparr>, ZOk (rc, d)))"

text \<open>
  A read that may leave a watch: with a context, the call and the registration of the context, for
  the codes that allow it, are one critical section.
\<close>

definition watchCall ::
  "('z \<Rightarrow> 'z \<times> int \<times> 'd) \<Rightarrow> int list \<Rightarrow> WatchableMethod \<Rightarrow> string \<Rightarrow> 'l::linorder option \<Rightarrow> 'c option \<Rightarrow>
    ('l, 'c, 'z) ZooKeeperAdapter \<Rightarrow> ('l, 'c, 'z) ZooKeeperAdapter \<times> (int \<times> 'd) zresult" where
  "watchCall call codes method path listener context a =
     (case call (za_zoo a) of
        (z, rc, d) \<Rightarrow>
          let a1 = a\<lparr>za_zoo := z\<rparr>
          in ((case context of
                 None \<Rightarrow> a1
               | Some c \<Rightarrow> if rc \<in> set codes then registerContext method path listener c a1 else a1),
              ZOk (rc, d)))"

definition attempts ::
  "(('l, 'c, 'z) ZooKeeperAdapter \<Rightarrow> ('l, 'c, 'z) ZooKeeperAdapter \<times> (int \<times> 'd) zresult) \<Rightarrow>
    ('l, 'c, 'z) ZooKeeperAdapter \<Rightarrow> ('l, 'c, 'z) ZooKeeperAdapter \<times> (int \<times> 'd) zresult" where
  "attempts call a = retryLoop (zbind verifyConnection (\<lambda>_. call)) (RetryHandler_new (za_zkConfig a)) a"

text \<open>Validation, attempts, and what to do with the return code.\<close>

definition nodeOp ::
  "string \<Rightarrow> (('l, 'c, 'z) ZooKeeperAdapter \<Rightarrow> ('l, 'c, 'z) ZooKeeperAdapter \<times> (int \<times> 'd) zresult) \<Rightarrow>
    ('l, 'c, 'z) ZooKeeperAdapter \<Rightarrow> ('l, 'c, 'z) ZooKeeperAdapter \<times> (int \<times> 'd) zresult" where
  "nodeOp path call a =
     (case validatePath path of Some e \<Rightarrow> (a, ZThrow e) | None \<Rightarrow> attempts call a)"

subsection \<open>How often ZooKeeper is asked\<close>

text \<open>A call of the C client together with a count of such calls.\<close>

definition ticked :: "('z \<Rightarrow> 'z \<times> int \<times> 'd) \<Rightarrow> nat \<times> 'z \<Rightarrow> (nat \<times> 'z) \<times> int \<times> 'd" where
  "ticked f nz = (case f (snd nz) of (z, rc, d) \<Rightarrow> ((fst nz + 1, z), rc, d))"

definition one_request ::
  "(('l, 'c, nat \<times> 'z) ZooKeeperAdapter \<Rightarrow> ('l, 'c, nat \<times> 'z) ZooKeeperAdapter \<times> (int \<times> 'd) zresult) \<Rightarrow> bool" where
  "one_request call \<longleftrightarrow> (\<forall>a. \<exists>b rc d. call a = (b, ZOk (rc, d)) \<and> fst (za_zoo b) = fst (za_zoo a) + 1)"

lemma one_request_zooCall: "one_request (zooCall (ticked f))"
  by (auto simp: one_request_def zooCall_def ticked_def split: prod.split)

lemma one_request_watchCall: "one_request (watchCall (ticked f) codes m p l c)"
  by (auto simp: one_request_def watchCall_def ticked_def registerContext_def Let_def split: prod.split option.split)

lemma retryLoop_requests:
  assumes "one_request call"
  shows "retryLoop (zbind verifyConnection (\<lambda>_. call)) n a = (b, r) \<Longrightarrow>
    fst (za_zoo a) \<le> fst (za_zoo b) \<and> fst (za_zoo b) \<le> fst (za_zoo a) + nat n + 1 \<and>
    (\<forall>rc d. r = ZOk (rc, d) \<longrightarrow> fst (za_zoo a) < fst (za_zoo b) \<and>
       (rc \<noteq> ZOK \<and> retryOnError rc \<longrightarrow> fst (za_zoo b) = fst (za_zoo a) + nat n + 1))"
proof (induction "nat n" arbitrary: n a rule: less_induct)
  case less
  let ?call = "zbind verifyConnection (\<lambda>_. call)"
  have once: "fst (za_zoo c) = fst (za_zoo a) + (if \<exists>x. q = ZOk x then 1 else 0)" if c: "?call a = (c, q)" for c q
  proof -
    obtain a1 u where v: "verifyConnection a = (a1, u)" by fastforce
    from same_zoo_verifyConnection [OF this] have z: "za_zoo a1 = za_zoo a" by (simp add: same_zoo_def)
    obtain b1 rc d where "call a1 = (b1, ZOk (rc, d))" "fst (za_zoo b1) = fst (za_zoo a1) + 1"
      using assms unfolding one_request_def by blast
    with c v z show ?thesis by (cases u) (auto simp: zbind_def)
  qed
  from less.prems show ?case
  proof (cases rule: retryLoop_cases)
    case (retry s1 rc d)
    have "nat (n - 1) < nat n" "nat n = Suc (nat (n - 1))" using retry(4) by simp_all
    then show ?thesis using less.hyps [OF _ retry(5)] once [OF retry(1)] by auto
  next
    case (final rc d)
    from once [OF final(1)] final(2,3) show ?thesis by auto
  next
    case (throw e)
    from once [OF throw(1)] throw(2) show ?thesis by auto
  next
    case pending
    from once [OF pending(1)] pending(2) show ?thesis by auto
  qed
qed

text \<open>
  C32. A request is sent to ZooKeeper at most three times, once only if automatic reconnection is
  off. Every operation of the adapter sends its requests through \<open>nodeOp\<close> with a call of the C client
  or such a call that registers a context (an operation on several nodes does so for each): the number
  of calls of the C client that this makes is at most three; none if the path is not valid; at least
  one if a return code is the result; and exactly three (or one) if that code is a connection loss or a
  time-out, so that it gives up only after the last attempt.
\<close>

theorem requests_bounded:
  assumes "nodeOp path call a = (b, r)"
    and "call = zooCall (ticked f) \<or> call = watchCall (ticked f) codes m p l c"
    and "most = (if zcf_autoReconnect (za_zkConfig a) then 3 else 1)"
  shows "fst (za_zoo a) \<le> fst (za_zoo b) \<and> fst (za_zoo b) \<le> fst (za_zoo a) + most \<and>
    (validatePath path \<noteq> None \<longrightarrow> fst (za_zoo b) = fst (za_zoo a)) \<and>
    (\<forall>rc d. r = ZOk (rc, d) \<longrightarrow> fst (za_zoo a) < fst (za_zoo b) \<and>
      (rc \<in> {ZCONNECTIONLOSS, ZOPERATIONTIMEOUT} \<longrightarrow> fst (za_zoo b) = fst (za_zoo a) + most))"
proof (cases "validatePath path")
  case None
  have "one_request call" using assms(2) one_request_zooCall one_request_watchCall by blast
  from retryLoop_requests [OF this, of "RetryHandler_new (za_zkConfig a)" a b r] None assms(1,3) show ?thesis
    by (auto simp: nodeOp_def attempts_def RetryHandler_new_def retryOnError_def zk_codes)
next
  case (Some e)
  with assms(1) show ?thesis by (auto simp: nodeOp_def)
qed

definition lossy_sample :: "(nat, unit, nat \<times> nat) ZooKeeperAdapter" where
  "lossy_sample = (fst (ZooKeeperAdapter_new (ZooKeeperConfig_new ''h'' 30) None True [True] [] (0, 7)))
     \<lparr>za_state := AS_CONNECTED\<rparr>"

theorem requests_bounded_witness:
  "\<exists>b. nodeOp ''/a'' (zooCall (ticked (\<lambda>z. (z, ZCONNECTIONLOSS, ())))) lossy_sample = (b, ZOk (ZCONNECTIONLOSS, ())) \<and>
     fst (za_zoo b) = 3"
proof -
  let ?call = "zooCall (ticked (\<lambda>z. (z, ZCONNECTIONLOSS, ())))"
  have up: "zbind verifyConnection (\<lambda>_. ?call) a = (a\<lparr>za_zoo := (fst (za_zoo a) + 1, snd (za_zoo a))\<rparr>, ZOk (ZCONNECTIONLOSS, ()))"
    if "za_state a = AS_CONNECTED" for a :: "(nat, unit, nat \<times> nat) ZooKeeperAdapter"
    using that by (simp add: zbind_def zooCall_def ticked_def verifyConnection_def verifyLocked_def zaLock_def zaUnlock_def)
  have cfg: "za_zoo lossy_sample = (0, 7)" "za_state lossy_sample = AS_CONNECTED"
    "zcf_autoReconnect (za_zkConfig lossy_sample)"
    by (simp_all add: lossy_sample_def ZooKeeperAdapter_new_def ZooKeeperConfig_new_def zaReconnect_def
        zaDisconnect_def connection_defs Let_def)
  have loss: "ZCONNECTIONLOSS \<noteq> ZOK" "retryOnError ZCONNECTIONLOSS" by (simp_all add: zk_codes retryOnError_def)
  have again: "retryLoop (zbind verifyConnection (\<lambda>_. ?call)) n a =
      (if n > 0 then retryLoop (zbind verifyConnection (\<lambda>_. ?call)) (n - 1) (a\<lparr>za_zoo := (fst (za_zoo a) + 1, snd (za_zoo a))\<rparr>)
       else (a\<lparr>za_zoo := (fst (za_zoo a) + 1, snd (za_zoo a))\<rparr>, ZOk (ZCONNECTIONLOSS, ())))"
    if "za_state a = AS_CONNECTED" for n and a :: "(nat, unit, nat \<times> nat) ZooKeeperAdapter"
    using retryLoop_again [where call = "zbind verifyConnection (\<lambda>_. ?call)", OF up [OF that] loss]
      retryLoop_result(1) [where call = "zbind verifyConnection (\<lambda>_. ?call)", OF up [OF that]] by simp
  have "\<exists>b. nodeOp ''/a'' ?call lossy_sample = (b, ZOk (ZCONNECTIONLOSS, ()))"
    using cfg by (simp add: nodeOp_def validatePath_def attempts_def RetryHandler_new_def again)
  then obtain b where b: "nodeOp ''/a'' ?call lossy_sample = (b, ZOk (ZCONNECTIONLOSS, ()))" ..
  from requests_bounded [OF b disjI1 [OF refl] refl] cfg have "fst (za_zoo b) = 3" by simp
  with b show ?thesis by blast
qed

subsection \<open>Reading\<close>

definition nodeExists ::
  "('z, 'st) zoo_api \<Rightarrow> string \<Rightarrow> 'l::linorder option \<Rightarrow> 'c option \<Rightarrow> ('l, 'c, 'z) ZooKeeperAdapter \<Rightarrow>
    ('l, 'c, 'z) ZooKeeperAdapter \<times> (bool \<times> 'st) zresult" where
  "nodeExists Z path listener context =
     zbind (nodeOp path (watchCall (zoo_exists Z path (listener \<noteq> None)) [ZOK, ZNONODE] NODE_EXISTS
              path listener context))
       (\<lambda>(rc, st). if rc \<noteq> ZOK
          then if rc = ZNONODE then zreturn (False, st)
               else zthrow (zkExceptionRC (''Unable to check existence of node '' @ path) rc)
          else zreturn (True, st))"

definition absPath :: "string \<Rightarrow> string \<Rightarrow> string" where
  "absPath path child = (if path \<noteq> ''/'' then path @ ''/'' else path) @ child"

text \<open>The children are appended to the caller's list, which is then sorted.\<close>

definition getNodeChildren ::
  "('z, 'st) zoo_api \<Rightarrow> string list \<Rightarrow> string \<Rightarrow> 'l::linorder option \<Rightarrow> 'c option \<Rightarrow>
    ('l, 'c, 'z) ZooKeeperAdapter \<Rightarrow> ('l, 'c, 'z) ZooKeeperAdapter \<times> string list zresult" where
  "getNodeChildren Z nodeList path listener context =
     zbind (nodeOp path (watchCall (zoo_get_children Z path (listener \<noteq> None)) [ZOK] GET_NODE_CHILDREN
              path listener context))
       (\<lambda>(rc, children). if rc \<noteq> ZOK
          then zthrow (zkExceptionRC (''Unable to get children of node '' @ path) rc)
          else zreturn (sort (nodeList @ map (absPath path) children)))"

definition MAX_DATA_LENGTH :: int where "MAX_DATA_LENGTH = 128 * 1024"

text \<open>The buffer and the length that ZooKeeper filled in, -1 for a node without data.\<close>

definition getNodeData ::
  "('z, 'st) zoo_api \<Rightarrow> string \<Rightarrow> 'l::linorder option \<Rightarrow> 'c option \<Rightarrow> ('l, 'c, 'z) ZooKeeperAdapter \<Rightarrow>
    ('l, 'c, 'z) ZooKeeperAdapter \<times> (string \<times> 'st) zresult" where
  "getNodeData Z path listener context =
     zbind (nodeOp path (watchCall (zoo_get Z path (listener \<noteq> None) (MAX_DATA_LENGTH - 1)) [ZOK]
              GET_NODE_DATA path listener context))
       (\<lambda>(rc, buffer, len, st). if rc \<noteq> ZOK
          then zthrow (zkExceptionRC (''Unable to get data of node '' @ path) rc)
          else zreturn (take (nat (if len = -1 then 0 else len)) buffer, st))"

definition setNodeData ::
  "('z, 'st) zoo_api \<Rightarrow> string \<Rightarrow> string \<Rightarrow> int \<Rightarrow> ('l, 'c, 'z) ZooKeeperAdapter \<Rightarrow>
    ('l, 'c, 'z) ZooKeeperAdapter \<times> unit zresult" where
  "setNodeData Z path val version =
     zbind (nodeOp path (zooCall (zoo_set Z path val version)))
       (\<lambda>(rc, _). if rc \<noteq> ZOK
          then zthrow (zkExceptionRC (''Unable to set data for node '' @ path) rc)
          else zreturn ())"

subsection \<open>Creating\<close>

text \<open>\<open>path.find( "/", pos )\<close>\<close>

definition find_slash :: "string \<Rightarrow> nat \<Rightarrow> nat option" where
  "find_slash path pos = find (\<lambda>i. path ! i = CHR ''/'') [pos..<length path]"

lemma find_slash_bounds: "find_slash path pos = Some q \<Longrightarrow> pos \<le> q \<and> q < length path \<and> path ! q = CHR ''/''"
  by (auto simp: find_slash_def find_Some_iff)

text \<open>The length of \<open>realPath\<close>, the buffer on the stack for the path that ZooKeeper created.\<close>

definition MAX_PATH_LENGTH :: nat where "MAX_PATH_LENGTH = 1024"

text \<open>
  The result is None where the code returns false, and the path that was created where it returns
  true. \<open>createFrom\<close> is the loop over the ancestors.
\<close>

function createNode ::
  "('z, 'st) zoo_api \<Rightarrow> string \<Rightarrow> string \<Rightarrow> int \<Rightarrow> bool \<Rightarrow> ('l, 'c, 'z) ZooKeeperAdapter \<Rightarrow>
    ('l, 'c, 'z) ZooKeeperAdapter \<times> string option zresult"
and createFrom ::
  "('z, 'st) zoo_api \<Rightarrow> nat \<Rightarrow> string \<Rightarrow> string \<Rightarrow> int \<Rightarrow> int \<Rightarrow> ('l, 'c, 'z) ZooKeeperAdapter \<Rightarrow>
    ('l, 'c, 'z) ZooKeeperAdapter \<times> string option zresult" where
  "createNode Z path val flags createAncestors a =
     (case nodeOp path (zooCall (zoo_create Z path val flags MAX_PATH_LENGTH)) a of
        (a1, ZThrow e) \<Rightarrow> (a1, ZThrow e)
      | (a1, ZPending) \<Rightarrow> (a1, ZPending)
      | (a1, ZOk (rc, realPath)) \<Rightarrow>
          if rc \<noteq> ZOK
          then if rc = ZNODEEXISTS then (a1, ZOk None)
               else if rc = ZNONODE \<and> createAncestors then createFrom Z 1 path val flags rc a1
               else (a1, ZThrow (zkExceptionRC (''Unable to create node '' @ path) rc))
          else (a1, ZOk (Some realPath)))"
| "createFrom Z pos path val flags rc a =
     (case find_slash path pos of
        Some q \<Rightarrow>
          (case createNode Z (take q path) [] 0 True a of
             (a1, ZThrow e) \<Rightarrow> (a1, ZThrow (zkExceptionRC (''Unable to create node '' @ path) rc))
           | (a1, ZPending) \<Rightarrow> (a1, ZPending)
           | (a1, ZOk _) \<Rightarrow> createFrom Z (q + 1) path val flags rc a1)
      | None \<Rightarrow> createNode Z path val flags False a)"
  by pat_completeness auto

termination
  by (relation "measures
      [\<lambda>x. case x of Inl (Z, path, v, f, c, a) \<Rightarrow> length path | Inr (Z, pos, path, v, f, rc, a) \<Rightarrow> length path,
       \<lambda>x. case x of Inl (Z, path, v, f, c, a) \<Rightarrow> if c then length path + 2 else 0
          | Inr (Z, pos, path, v, f, rc, a) \<Rightarrow> length path - pos + 1]")
    (auto dest: find_slash_bounds)

declare createNode.simps [simp del] createFrom.simps [simp del]

text \<open>\<open>strtol( s, &ptr, 10 )\<close>: the value and what \<open>ptr\<close> points at; out of range values are clamped.\<close>

definition is_space :: "char \<Rightarrow> bool" where
  "is_space c \<longleftrightarrow> c \<in> {CHR '' '', CHR 0x09, CHR 0x0A, CHR 0x0B, CHR 0x0C, CHR 0x0D}"

definition clampLong :: "int \<Rightarrow> int" where
  "clampLong i = max (- (2 ^ 63)) (min (2 ^ 63 - 1) i)"

definition strtol10 :: "string \<Rightarrow> int \<times> string" where
  "strtol10 s =
     (let t = dropWhile is_space s;
          neg = (t \<noteq> [] \<and> hd t = CHR ''-'');
          u = (if t \<noteq> [] \<and> (hd t = CHR ''-'' \<or> hd t = CHR ''+'') then tl t else t);
          digits = takeWhile is_digit u
      in if digits = [] then (0, s)
         else (clampLong (if neg then - int (dec_value digits) else int (dec_value digits)),
               dropWhile is_digit u))"

definition createSequence ::
  "('z, 'st) zoo_api \<Rightarrow> string \<Rightarrow> string \<Rightarrow> int \<Rightarrow> bool \<Rightarrow> ('l, 'c, 'z) ZooKeeperAdapter \<Rightarrow>
    ('l, 'c, 'z) ZooKeeperAdapter \<times> int zresult" where
  "createSequence Z path val flags createAncestors =
     zbind (createNode Z path val (flags OR ZOO_SEQUENCE) createAncestors)
       (\<lambda>result. case result of
          None \<Rightarrow> zreturn (-1)
        | Some createdPath \<Rightarrow>
            if take (length path) createdPath \<noteq> path
            then zthrow (zkException (''Expecting returned path '' @ [CHR 0x27] @ createdPath @ [CHR 0x27] @
                   '' to start with '' @ [CHR 0x27] @ path @ [CHR 0x27]))
            else
              let seqSuffix = drop (length path) createdPath;
                  (seq, rest) = strtol10 seqSuffix
              in if rest \<noteq> [] then zthrow (zkException (''Expecting a number but got '' @ seqSuffix))
                 else zreturn seq)"

subsection \<open>Deleting\<close>

function deleteNode ::
  "nat \<Rightarrow> ('z, 'st) zoo_api \<Rightarrow> string \<Rightarrow> bool \<Rightarrow> int \<Rightarrow> ('l::linorder, 'c, 'z) ZooKeeperAdapter \<Rightarrow>
    ('l, 'c, 'z) ZooKeeperAdapter \<times> bool zresult"
and deleteAll ::
  "nat \<Rightarrow> ('z, 'st) zoo_api \<Rightarrow> string list \<Rightarrow> ('l::linorder, 'c, 'z) ZooKeeperAdapter \<Rightarrow>
    ('l, 'c, 'z) ZooKeeperAdapter \<times> unit zresult" where
  "deleteNode depth Z path recursive version a =
     (case nodeOp path (zooCall (zoo_delete Z path version)) a of
        (a1, ZThrow e) \<Rightarrow> (a1, ZThrow e)
      | (a1, ZPending) \<Rightarrow> (a1, ZPending)
      | (a1, ZOk (rc, _)) \<Rightarrow>
          if rc \<noteq> ZOK
          then if rc = ZNONODE then (a1, ZOk False)
               else if rc = ZNOTEMPTY \<and> recursive
               then (case depth of
                       0 \<Rightarrow> (a1, ZPending)
                     | Suc d \<Rightarrow>
                         (case getNodeChildren Z [] path None None a1 of
                            (a2, ZThrow e) \<Rightarrow> (a2, ZThrow e)
                          | (a2, ZPending) \<Rightarrow> (a2, ZPending)
                          | (a2, ZOk nodeList) \<Rightarrow>
                              (case deleteAll d Z nodeList a2 of
                                 (a3, ZThrow e) \<Rightarrow> (a3, ZThrow e)
                               | (a3, ZPending) \<Rightarrow> (a3, ZPending)
                               | (a3, ZOk _) \<Rightarrow> deleteNode d Z path False (-1) a3)))
               else (a1, ZThrow (zkExceptionRC (''Unable to delete node '' @ path) rc))
          else (a1, ZOk True))"
| "deleteAll depth Z [] a = (a, ZOk ())"
| "deleteAll depth Z (path # paths) a =
     (case deleteNode depth Z path True (-1) a of
        (a1, ZThrow e) \<Rightarrow> (a1, ZThrow e)
      | (a1, ZPending) \<Rightarrow> (a1, ZPending)
      | (a1, ZOk _) \<Rightarrow> deleteAll depth Z paths a1)"
  by pat_completeness auto

termination
  by (relation "measures
      [\<lambda>x. case x of Inl (d, Z, path, r, v, a) \<Rightarrow> d | Inr (d, Z, paths, a) \<Rightarrow> d,
       \<lambda>x. case x of Inl (d, Z, path, r, v, a) \<Rightarrow> 0 | Inr (d, Z, paths, a) \<Rightarrow> length paths + 1]") auto

declare deleteNode.simps [simp del]

subsection \<open>ZooKeeper as a tree of persistent nodes\<close>

text \<open>\<open>N\<close> gives the value and the version of each node of a state.\<close>

type_synonym zoo_nodes = "string \<Rightarrow> (string \<times> int) option"

definition node_path :: "string \<Rightarrow> bool" where
  "node_path p \<longleftrightarrow> validatePath p = None \<and> p \<noteq> ''/''"

definition childNames :: "zoo_nodes \<Rightarrow> string \<Rightarrow> string set" where
  "childNames n p = {c. node_name c \<and> n (p @ CHR ''/'' # c) \<noteq> None}"

text \<open>
  Creating a persistent node. The path that the client writes into the buffer is cut to fit with its
  terminating zero.
\<close>

definition zoo_hosts :: "('z, 'st) zoo_api \<Rightarrow> ('z \<Rightarrow> zoo_nodes) \<Rightarrow> 'z \<Rightarrow> string \<Rightarrow> bool" where
  "zoo_hosts Z N z p \<longleftrightarrow> p = [] \<or> (N z p \<noteq> None \<and> \<not> zoo_ephemeral Z z p)"

definition zoo_create_ok :: "('z, 'st) zoo_api \<Rightarrow> ('z \<Rightarrow> zoo_nodes) \<Rightarrow> bool" where
  "zoo_create_ok Z N \<longleftrightarrow> (\<forall>p v len z. zk_path p \<longrightarrow> zk_small p v \<longrightarrow>
     (N z p \<noteq> None \<longrightarrow> (\<exists>z' d. zoo_create Z p v 0 len z = (z', ZNODEEXISTS, d) \<and>
        N z' = N z \<and> zoo_ephemeral Z z' = zoo_ephemeral Z z)) \<and>
     (N z p = None \<longrightarrow> parent_path p \<noteq> [] \<longrightarrow> N z (parent_path p) = None \<longrightarrow>
        (\<exists>z' d. zoo_create Z p v 0 len z = (z', ZNONODE, d) \<and>
           N z' = N z \<and> zoo_ephemeral Z z' = zoo_ephemeral Z z)) \<and>
     (N z p = None \<longrightarrow> zoo_hosts Z N z (parent_path p) \<longrightarrow>
        (\<exists>z'. zoo_create Z p v 0 len z = (z', ZOK, take (len - 1) p) \<and>
           N z' = (N z)(p \<mapsto> (v, 0)) \<and> zoo_ephemeral Z z' = zoo_ephemeral Z z)))"

definition zoo_delete_ok :: "('z, 'st) zoo_api \<Rightarrow> ('z \<Rightarrow> zoo_nodes) \<Rightarrow> bool" where
  "zoo_delete_ok Z N \<longleftrightarrow> (\<forall>p z. node_path p \<longrightarrow> zoo_valid Z p \<longrightarrow>
     (\<exists>z'. zoo_delete Z p (-1) z =
        (z', if N z p = None then ZNONODE else if childNames (N z) p \<noteq> {} then ZNOTEMPTY else ZOK, ()) \<and>
      N z' = (if childNames (N z) p \<noteq> {} then N z else (N z)(p := None))))"

definition zoo_children_ok :: "('z, 'st) zoo_api \<Rightarrow> ('z \<Rightarrow> zoo_nodes) \<Rightarrow> bool" where
  "zoo_children_ok Z N \<longleftrightarrow> (\<forall>p z. node_path p \<longrightarrow> N z p \<noteq> None \<longrightarrow>
     (\<exists>z' cs. zoo_get_children Z p False z = (z', ZOK, cs) \<and> N z' = N z \<and> set cs = childNames (N z) p))"

text \<open>The paths of \<open>Coordination_Client\<close> are accepted, and so are those of nodes that are there.\<close>

definition zoo_paths_ok :: "('z, 'st) zoo_api \<Rightarrow> ('z \<Rightarrow> zoo_nodes) \<Rightarrow> bool" where
  "zoo_paths_ok Z N \<longleftrightarrow> (\<forall>p. zk_path p \<longrightarrow> zoo_valid Z p) \<and> (\<forall>z p. N z p \<noteq> None \<longrightarrow> zoo_valid Z p)"

definition zoo_ok :: "('z, 'st) zoo_api \<Rightarrow> ('z \<Rightarrow> zoo_nodes) \<Rightarrow> bool" where
  "zoo_ok Z N \<longleftrightarrow> zoo_create_ok Z N \<and> zoo_delete_ok Z N \<and> zoo_children_ok Z N \<and> zoo_paths_ok Z N"

subsection \<open>Calls of a connected adapter\<close>

lemma verifyConnection_connected: "za_state a = AS_CONNECTED \<Longrightarrow> verifyConnection a = (a, ZOk ())"
  by (simp add: verifyConnection_def verifyLocked_def zaLock_def zaUnlock_def)

lemma nodeOp_connected:
  assumes "za_state a = AS_CONNECTED" and "validatePath path = None" and "call a = (a1, ZOk (rc, d))"
    and "\<not> retryOnError rc"
  shows "nodeOp path call a = (a1, ZOk (rc, d))"
  using assms verifyConnection_connected [OF assms(1)]
  by (simp add: nodeOp_def attempts_def zbind_def retryLoop_result)

lemma not_retried [simp]:
  "\<not> retryOnError ZOK" "\<not> retryOnError ZNONODE" "\<not> retryOnError ZNODEEXISTS" "\<not> retryOnError ZNOTEMPTY"
  by (simp_all add: retryOnError_def zk_codes)

lemma zk_codes_distinct [simp]:
  "ZNONODE \<noteq> ZOK" "ZNODEEXISTS \<noteq> ZOK" "ZNOTEMPTY \<noteq> ZOK" "ZNODEEXISTS \<noteq> ZNONODE" "ZNONODE \<noteq> ZNODEEXISTS"
  "ZNOTEMPTY \<noteq> ZNONODE" "ZNONODE \<noteq> ZNOTEMPTY"
  by (simp_all add: zk_codes)

text \<open>Nothing reaches ZooKeeper with an invalid path or without a connection.\<close>

lemma nodeOp_refused:
  "validatePath path = Some e \<Longrightarrow> nodeOp path call a = (a, ZThrow e)"
  "validatePath path = None \<Longrightarrow> verifyConnection a = (b, ZThrow e) \<Longrightarrow> nodeOp path call a = (b, ZThrow e)"
  by (simp_all add: nodeOp_def attempts_def retryLoop_result zbind_def)

subsection \<open>Creating a node with its ancestors\<close>

lemma hasDoubleSlash_iff:
  "hasDoubleSlash xs \<longleftrightarrow> (\<exists>i. Suc i < length xs \<and> xs ! i = CHR ''/'' \<and> xs ! Suc i = CHR ''/'')"
proof (induction xs rule: hasDoubleSlash.induct)
  case (1 a b cs)
  show ?case
  proof
    assume "hasDoubleSlash (a # b # cs)"
    then consider "a = CHR ''/''" "b = CHR ''/''" | "hasDoubleSlash (b # cs)" by auto
    then show "\<exists>i. Suc i < length (a # b # cs) \<and> (a # b # cs) ! i = CHR ''/'' \<and> (a # b # cs) ! Suc i = CHR ''/''"
    proof cases
      case 1
      then show ?thesis by (intro exI [of _ 0]) simp
    next
      case 2
      with 1 obtain i where "Suc i < length (b # cs)" "(b # cs) ! i = CHR ''/''" "(b # cs) ! Suc i = CHR ''/''" by blast
      then show ?thesis by (intro exI [of _ "Suc i"]) simp
    qed
  next
    assume "\<exists>i. Suc i < length (a # b # cs) \<and> (a # b # cs) ! i = CHR ''/'' \<and> (a # b # cs) ! Suc i = CHR ''/''"
    then obtain i where i: "Suc i < length (a # b # cs)" "(a # b # cs) ! i = CHR ''/''"
      "(a # b # cs) ! Suc i = CHR ''/''" by blast
    show "hasDoubleSlash (a # b # cs)"
    proof (cases i)
      case 0
      with i show ?thesis by simp
    next
      case (Suc j)
      with i have "Suc j < length (b # cs)" "(b # cs) ! j = CHR ''/''" "(b # cs) ! Suc j = CHR ''/''" by simp_all
      with 1 show ?thesis by auto
    qed
  qed
qed auto

lemma node_path_iff:
  "node_path p \<longleftrightarrow> length p > 1 \<and> p ! 0 = CHR ''/'' \<and> p ! (length p - 1) \<noteq> CHR ''/'' \<and> \<not> hasDoubleSlash p"
  by (cases p) (auto simp: node_path_def validatePath_def hd_conv_nth last_conv_nth)

lemma node_path_take:
  assumes "node_path path" and "path ! q = CHR ''/''" and "1 \<le> q" and "q < length path"
  shows "node_path (take q path)"
proof -
  have no: "\<not> (path ! i = CHR ''/'' \<and> path ! Suc i = CHR ''/'')" if "Suc i < length path" for i
    using assms(1) that by (auto simp: node_path_iff hasDoubleSlash_iff)
  have last: "path ! (q - 1) \<noteq> CHR ''/''" using no [of "q - 1"] assms(2-4) by auto
  have "q \<noteq> 1" using last assms(1) by (auto simp: node_path_iff)
  moreover have "\<not> hasDoubleSlash (take q path)" using no assms(4) by (auto simp: hasDoubleSlash_iff)
  ultimately show ?thesis using assms last by (auto simp: node_path_iff)
qed

lemma hasDoubleSlash_split: "hasDoubleSlash xs \<Longrightarrow> \<exists>ys zs. xs = ys @ CHR ''/'' # CHR ''/'' # zs"
proof (induction xs rule: hasDoubleSlash.induct)
  case (1 a b cs)
  then consider "a = CHR ''/''" "b = CHR ''/''" | "hasDoubleSlash (b # cs)" by auto
  then show ?case
  proof cases
    case 1
    then show ?thesis by (intro exI [of _ "[]"] exI [of _ cs]) simp
  next
    case 2
    with 1 obtain ys zs where "b # cs = ys @ CHR ''/'' # CHR ''/'' # zs" by blast
    then show ?thesis by (metis append_Cons)
  qed
qed simp_all

lemma zk_path_node_path:
  assumes "zk_path p"
  shows "node_path p"
proof -
  obtain cs where p: "p = CHR ''/'' # cs" and cs: "[] \<notin> set (segments cs)"
    using assms by (auto simp: zk_path_def zk_name_def list_all_iff split: list.splits)
  have "cs \<noteq> []" using cs by auto
  moreover have "last cs \<noteq> CHR ''/''"
  proof
    assume "last cs = CHR ''/''"
    then have "cs = butlast cs @ CHR ''/'' # []" using \<open>cs \<noteq> []\<close> by (metis append_butlast_last_id)
    then have "segments cs = segments (butlast cs) @ segments []" by (metis segments_append)
    with cs show False by simp
  qed
  moreover have "\<not> hasDoubleSlash p"
  proof
    assume "hasDoubleSlash p"
    then obtain ys zs where ys: "p = ys @ CHR ''/'' # CHR ''/'' # zs" using hasDoubleSlash_split by blast
    show False
    proof (cases ys)
      case Nil
      with p ys have "cs = CHR ''/'' # zs" by simp
      with cs show False by simp
    next
      case (Cons y ys')
      with p ys have "cs = ys' @ CHR ''/'' # CHR ''/'' # zs" by simp
      with cs show False by (simp add: segments_append)
    qed
  qed
  ultimately show ?thesis by (simp add: node_path_iff p last_conv_nth)
qed

lemma find_slash_step:
  "pos < length path \<Longrightarrow>
     find_slash path pos = (if path ! pos = CHR ''/'' then Some pos else find_slash path (Suc pos))"
  by (simp add: find_slash_def upt_rec [of pos])

text \<open>The ancestors that \<open>createFrom\<close> visits are those of \<open>Coordination_Client\<close>'s \<open>pathsFrom\<close>.\<close>

lemma pathsFrom_find_slash:
  assumes "pos \<le> length path"
  shows "pathsFrom (take pos path) (drop pos path) =
    (case find_slash path pos of
       None \<Rightarrow> [path]
     | Some q \<Rightarrow> take q path # pathsFrom (take (q + 1) path) (drop (q + 1) path))"
  using assms
proof (induction "length path - pos" arbitrary: pos)
  case 0
  then show ?case by (simp add: find_slash_def)
next
  case (Suc n)
  then have pos: "pos < length path" by simp
  then have "drop pos path = path ! pos # drop (Suc pos) path" by (simp add: Cons_nth_drop_Suc)
  moreover have "take pos path @ [path ! pos] = take (Suc pos) path" using pos by (simp add: take_Suc_conv_app_nth)
  ultimately have "pathsFrom (take pos path) (drop pos path) =
      (if path ! pos = CHR ''/'' then take pos path # pathsFrom (take (Suc pos) path) (drop (Suc pos) path)
       else pathsFrom (take (Suc pos) path) (drop (Suc pos) path))"
    by (metis pathsFrom.simps(2))
  with Suc.hyps(1) [of "Suc pos"] Suc.hyps(2) pos show ?case by (simp add: find_slash_step)
qed

lemma zoo_createD:
  assumes "zoo_ok Z N" and "zk_path p" and "zk_small p v"
  shows "N z p \<noteq> None \<Longrightarrow> \<exists>z' d. zoo_create Z p v 0 len z = (z', ZNODEEXISTS, d) \<and>
      N z' = N z \<and> zoo_ephemeral Z z' = zoo_ephemeral Z z"
    and "N z p = None \<Longrightarrow> parent_path p \<noteq> [] \<Longrightarrow> N z (parent_path p) = None \<Longrightarrow>
      \<exists>z' d. zoo_create Z p v 0 len z = (z', ZNONODE, d) \<and> N z' = N z \<and> zoo_ephemeral Z z' = zoo_ephemeral Z z"
    and "N z p = None \<Longrightarrow> zoo_hosts Z N z (parent_path p) \<Longrightarrow>
      \<exists>z'. zoo_create Z p v 0 len z = (z', ZOK, take (len - 1) p) \<and>
        N z' = (N z)(p \<mapsto> (v, 0)) \<and> zoo_ephemeral Z z' = zoo_ephemeral Z z"
  using assms unfolding zoo_ok_def zoo_create_ok_def by blast+

text \<open>What \<open>createNode\<close> returns for a path that was created: what fits into the buffer.\<close>

definition realPath :: "string \<Rightarrow> string" where
  "realPath p = take (MAX_PATH_LENGTH - 1) p"

lemma createNode_parent:
  assumes "zoo_ok Z N" and "za_state a = AS_CONNECTED" and "zk_path p" and "zk_small p v"
    and "zoo_hosts Z N (za_zoo a) (parent_path p) \<or> N (za_zoo a) p \<noteq> None"
  shows "\<exists>z. createNode Z p v 0 anc a =
      (a\<lparr>za_zoo := z\<rparr>, ZOk (if N (za_zoo a) p = None then Some (realPath p) else None)) \<and>
    N z = with_node v p (N (za_zoo a)) \<and> zoo_ephemeral Z z = zoo_ephemeral Z (za_zoo a)"
proof -
  let ?n = "N (za_zoo a)"
  obtain z d where z: "zoo_create Z p v 0 MAX_PATH_LENGTH (za_zoo a) =
      (z, if ?n p \<noteq> None then ZNODEEXISTS else ZOK, d)" "?n p = None \<Longrightarrow> d = realPath p"
      "N z = with_node v p ?n" "zoo_ephemeral Z z = zoo_ephemeral Z (za_zoo a)"
    using zoo_createD(1,3) [OF assms(1,3,4), of "za_zoo a" MAX_PATH_LENGTH] assms(5)
    by (cases "?n p") (fastforce simp: with_node_def realPath_def)+
  have "nodeOp p (zooCall (zoo_create Z p v 0 MAX_PATH_LENGTH)) a =
      (a\<lparr>za_zoo := z\<rparr>, ZOk (if ?n p \<noteq> None then ZNODEEXISTS else ZOK, d))"
    by (rule nodeOp_connected [OF assms(2)])
      (use zk_path_node_path [OF assms(3)] z(1) in \<open>simp_all add: node_path_def zooCall_def\<close>)
  then have "createNode Z p v 0 anc a = (a\<lparr>za_zoo := z\<rparr>, ZOk (if ?n p = None then Some d else None))"
    by (subst createNode.simps) simp
  moreover have "(if ?n p = None then Some d else None) = (if ?n p = None then Some (realPath p) else None)"
    using z(2) by simp
  ultimately show ?thesis using z(3,4) by (intro exI [of _ z]) (simp only: simp_thms)
qed

lemma createNode_orphan:
  assumes "zoo_ok Z N" and "za_state a = AS_CONNECTED" and "zk_path p" and "zk_small p v"
    and "N (za_zoo a) p = None" and "parent_path p \<noteq> []" and "N (za_zoo a) (parent_path p) = None"
  shows "\<exists>z. createNode Z p v 0 True a = createFrom Z 1 p v 0 ZNONODE (a\<lparr>za_zoo := z\<rparr>) \<and>
    N z = N (za_zoo a) \<and> zoo_ephemeral Z z = zoo_ephemeral Z (za_zoo a)"
proof -
  obtain z d where z: "zoo_create Z p v 0 MAX_PATH_LENGTH (za_zoo a) = (z, ZNONODE, d)" "N z = N (za_zoo a)"
    "zoo_ephemeral Z z = zoo_ephemeral Z (za_zoo a)"
    using zoo_createD(2) [OF assms(1,3-7)] by blast
  have "nodeOp p (zooCall (zoo_create Z p v 0 MAX_PATH_LENGTH)) a = (a\<lparr>za_zoo := z\<rparr>, ZOk (ZNONODE, d))"
    by (rule nodeOp_connected [OF assms(2)])
      (use zk_path_node_path [OF assms(3)] z(1) in \<open>simp_all add: node_path_def zooCall_def\<close>)
  then have "createNode Z p v 0 True a = createFrom Z 1 p v 0 ZNONODE (a\<lparr>za_zoo := z\<rparr>)"
    by (subst createNode.simps) simp
  with z(2,3) show ?thesis by blast
qed

lemma zk_path_take:
  assumes "zk_path path" and "path ! k = CHR ''/''" and "1 \<le> k" and "k < length path"
  shows "zk_path (take k path)"
proof (rule zk_path_prefix)
  show "zk_path (take k path @ CHR ''/'' # drop (Suc k) path)"
    using assms(1,2,4) by (simp add: id_take_nth_drop [symmetric] flip: assms(2))
qed (use assms(3,4) in auto)

lemma createFrom_ok:
  assumes "zoo_ok Z N" and "zk_path path" and "zk_small path v" and "za_state a = AS_CONNECTED" and "1 \<le> pos"
    and "pos \<le> length path" and "ps = pathsFrom (take pos path) (drop pos path)" and "linked q ps"
    and "zoo_hosts Z N (za_zoo a) q" and "N (za_zoo a) path = None" and "path \<notin> set (butlast ps)"
    and "\<forall>p \<in> set (butlast ps). \<not> zoo_ephemeral Z (za_zoo a) p"
  shows "\<exists>z. createFrom Z pos path v 0 rc a = (a\<lparr>za_zoo := z\<rparr>, ZOk (Some (realPath path))) \<and>
    N z = (fold (with_node []) (butlast ps) (N (za_zoo a)))(path \<mapsto> (v, 0))"
  using assms(4-)
proof (induction "length path - pos" arbitrary: pos a q ps rule: less_induct)
  case less
  show ?case
  proof (cases "find_slash path pos")
    case None
    then have ps: "ps = [path]" using pathsFrom_find_slash [OF less.prems(3)] less.prems(4) by simp
    then have "zoo_hosts Z N (za_zoo a) (parent_path path) \<or> N (za_zoo a) path \<noteq> None"
      using less.prems(5,6) by simp
    from createNode_parent [OF assms(1) less.prems(1) assms(2,3) this] None less.prems(7) ps show ?thesis
      by (auto simp: createFrom.simps [of Z pos] with_node_def)
  next
    case (Some k)
    let ?p = "take k path" and ?qs = "pathsFrom (take (k + 1) path) (drop (k + 1) path)"
    have k: "pos \<le> k" "k < length path" "path ! k = CHR ''/''" using find_slash_bounds [OF Some] by auto
    have ps: "ps = ?p # ?qs" using pathsFrom_find_slash [OF less.prems(3)] less.prems(4) Some by simp
    have p: "zk_path ?p" using zk_path_take [OF assms(2) k(3)] k less.prems(2) by simp
    have small: "zk_small ?p []" using assms(3) k(2) by (simp add: zk_small_def)
    have "zoo_hosts Z N (za_zoo a) (parent_path ?p) \<or> N (za_zoo a) ?p \<noteq> None"
      using less.prems(5,6) ps by simp
    from createNode_parent [OF assms(1) less.prems(1) p small this] obtain z where
      z: "createNode Z ?p [] 0 True a = (a\<lparr>za_zoo := z\<rparr>, ZOk (if N (za_zoo a) ?p = None then Some (realPath ?p) else None))"
        "N z = with_node [] ?p (N (za_zoo a))" "zoo_ephemeral Z z = zoo_ephemeral Z (za_zoo a)" by blast
    have step: "createFrom Z pos path v 0 rc a = createFrom Z (k + 1) path v 0 rc (a\<lparr>za_zoo := z\<rparr>)"
      using Some z(1) by (simp add: createFrom.simps [of Z pos])
    have ne: "path \<noteq> ?p" using k(2) by (metis length_take min_less_iff_conj nat_less_le)
    have "\<exists>z'. createFrom Z (k + 1) path v 0 rc (a\<lparr>za_zoo := z\<rparr>) =
          (a\<lparr>za_zoo := z\<rparr>\<lparr>za_zoo := z'\<rparr>, ZOk (Some (realPath path))) \<and>
        N z' = (fold (with_node []) (butlast ?qs) (N (za_zoo (a\<lparr>za_zoo := z\<rparr>))))(path \<mapsto> (v, 0))"
    proof (rule less.hyps [where q = ?p])
      show "length path - (k + 1) < length path - pos" using k by simp
      show "linked ?p ?qs" using less.prems(5) ps by simp
      show "zoo_hosts Z N (za_zoo (a\<lparr>za_zoo := z\<rparr>)) ?p"
        using less.prems(9) by (simp add: zoo_hosts_def z(2,3) ps with_node_apply)
      show "N (za_zoo (a\<lparr>za_zoo := z\<rparr>)) path = None" using z(2) less.prems(7) ne by (simp add: with_node_apply)
      show "path \<notin> set (butlast ?qs)" using less.prems(8) by (simp add: ps)
      show "\<forall>p \<in> set (butlast ?qs). \<not> zoo_ephemeral Z (za_zoo (a\<lparr>za_zoo := z\<rparr>)) p"
        using less.prems(9) by (simp add: ps z(3))
    qed (use k less.prems(1) in simp_all)
    with step z(2) show ?thesis by (simp add: ps)
  qed
qed

text \<open>The tree of ZooKeeper: with a node, its parent is there.\<close>

definition tree_nodes :: "zoo_nodes \<Rightarrow> bool" where
  "tree_nodes n \<longleftrightarrow> (\<forall>p. n p \<noteq> None \<longrightarrow> parent_path p = [] \<or> n (parent_path p) \<noteq> None)"

lemma linked_append: "linked q (xs @ ys) \<longleftrightarrow> linked q xs \<and> linked (if xs = [] then q else last xs) ys"
  by (induction xs arbitrary: q) auto

lemma linked_present:
  assumes "tree_nodes n" and "linked q xs" and "xs \<noteq> []" and "n (last xs) \<noteq> None" and "[] \<notin> set xs"
  shows "\<forall>x \<in> set xs. n x \<noteq> None"
  using assms(2-5)
proof (induction xs rule: rev_induct)
  case (snoc x xs)
  show ?case
  proof (cases "xs = []")
    case False
    have "last xs \<noteq> []" using snoc.prems(4) last_in_set [OF False] by (metis UnI1 set_append)
    moreover have "parent_path x = last xs" using snoc.prems(1) False by (simp add: linked_append)
    ultimately have "n (last xs) \<noteq> None"
      using snoc.prems(3) assms(1) unfolding tree_nodes_def by (metis last_snoc)
    with snoc False show ?thesis by (auto simp: linked_append)
  qed (use snoc.prems in simp)
qed simp

lemma ancestorPaths_facts:
  assumes "node_path p"
  shows "linked [] (ancestorPaths p)" and "ancestorPaths p = butlast (ancestorPaths p) @ [p]"
    and "p \<notin> set (butlast (ancestorPaths p))" and "[] \<notin> set (ancestorPaths p)"
proof -
  have p1: "length p > 1" "p ! 0 = CHR ''/''" using assms by (auto simp: node_path_iff)
  then have "parent_path (take 1 p) = []" by (cases p) (auto simp: parent_path_def)
  then show "linked [] (ancestorPaths p)"
    using linked_pathsFrom [of "take 1 p" "drop 1 p"] unfolding ancestorPaths_def by metis
  have "ancestorPaths p \<noteq> []" by (simp add: ancestorPaths_def)
  then show snoc: "ancestorPaths p = butlast (ancestorPaths p) @ [p]"
    by (metis append_butlast_last_id last_ancestorPaths)
  have "distinct (ancestorPaths p)" unfolding ancestorPaths_def by (rule distinct_pathsFrom)
  then have "distinct (butlast (ancestorPaths p) @ [p])" by (subst (asm) snoc)
  then show "p \<notin> set (butlast (ancestorPaths p))" by simp
  show "[] \<notin> set (ancestorPaths p)"
    using pathsFrom_length [of "[]" "take 1 p" "drop 1 p"] p1 by (auto simp: ancestorPaths_def)
qed

lemma parent_in_ancestors:
  assumes "node_path p"
  shows "parent_path p = [] \<or> parent_path p \<in> set (butlast (ancestorPaths p))"
proof (cases "butlast (ancestorPaths p) = []")
  case True
  with ancestorPaths_facts(1,2) [OF assms] show ?thesis by (metis append_Nil linked.simps(2))
next
  case False
  have "linked [] (butlast (ancestorPaths p) @ [p])" using ancestorPaths_facts(1,2) [OF assms] by simp
  then have "parent_path p = last (butlast (ancestorPaths p))" using False by (simp add: linked_append)
  with last_in_set [OF False] show ?thesis by simp
qed

lemma present_ancestors:
  assumes "tree_nodes n" and "node_path p" and "parent_path p = [] \<or> n (parent_path p) \<noteq> None"
  shows "\<forall>q \<in> set (butlast (ancestorPaths p)). n q \<noteq> None"
proof (cases "butlast (ancestorPaths p) = []")
  case False
  let ?up = "butlast (ancestorPaths p)"
  note anc = ancestorPaths_facts [OF assms(2)]
  have "linked [] (?up @ [p])" using anc(1,2) by simp
  then have l: "linked [] ?up" "parent_path p = last ?up" using False by (simp_all add: linked_append)
  have ne: "[] \<notin> set ?up" using anc(4) by (meson in_set_butlastD)
  then have "last ?up \<noteq> []" using last_in_set [OF False] by metis
  then show ?thesis using linked_present [OF assms(1) l(1) False] ne l(2) assms(3) by auto
qed simp

text \<open>
  C34. \<open>createNode\<close> of a persistent node (\<open>flags\<close> 0, the default) with \<open>createAncestors\<close>, on a connected
  adapter and a healthy ZooKeeper that nobody else changes meanwhile, for a path that ZooKeeper
  accepts and none of whose ancestors is ephemeral: it reports false and changes nothing if the node
  is there; otherwise it creates the node with the given value and every missing ancestor with an empty
  value, leaves all other nodes as they were, and returns the path, cut to its first 1023 characters,
  which is what fits into the buffer of the code.
\<close>

theorem createNode_creates_ancestors:
  assumes "zoo_ok Z N" and "za_state a = AS_CONNECTED" and "zk_path p" and "zk_small p v"
    and "tree_nodes (N (za_zoo a))"
    and "list_all (\<lambda>q. \<not> zoo_ephemeral Z (za_zoo a) q) (butlast (ancestorPaths p))"
  shows "\<exists>z. createNode Z p v 0 True a =
      (a\<lparr>za_zoo := z\<rparr>, ZOk (if N (za_zoo a) p = None then Some (take 1023 p) else None)) \<and>
    (\<forall>q. N z q =
      (if N (za_zoo a) q \<noteq> None \<or> N (za_zoo a) p \<noteq> None then N (za_zoo a) q
       else if q = p then Some (v, 0)
       else if q \<in> set (butlast (ancestorPaths p)) then Some ([], 0) else None))"
proof -
  let ?n = "N (za_zoo a)" and ?up = "butlast (ancestorPaths p)"
  have path: "node_path p" by (rule zk_path_node_path [OF assms(3)])
  note anc = ancestorPaths_facts [OF path]
  have real: "realPath p = take 1023 p" by (simp add: realPath_def MAX_PATH_LENGTH_def)
  show ?thesis
  proof (cases "parent_path p = [] \<or> ?n (parent_path p) \<noteq> None \<or> ?n p \<noteq> None")
    case True
    have up: "\<forall>q \<in> set ?up. ?n q \<noteq> None" if "?n p = None"
      by (rule present_ancestors [OF assms(5) path]) (use True that in blast)
    have "zoo_hosts Z N (za_zoo a) (parent_path p) \<or> ?n p \<noteq> None"
      using True parent_in_ancestors [OF path] assms(6) by (auto simp: zoo_hosts_def list_all_iff)
    from createNode_parent [OF assms(1-4) this, of True] obtain z where
      z: "createNode Z p v 0 True a = (a\<lparr>za_zoo := z\<rparr>, ZOk (if ?n p = None then Some (realPath p) else None))"
        "N z = with_node v p ?n" by blast
    have "N z q = (if ?n q \<noteq> None \<or> ?n p \<noteq> None then ?n q
        else if q = p then Some (v, 0) else if q \<in> set ?up then Some ([], 0) else None)" for q
      using up unfolding z(2) by (cases "?n p"; cases "?n q") (auto simp: with_node_apply)
    with z(1) show ?thesis unfolding real by (intro exI [of _ z] conjI allI)
  next
    case False
    then have no: "?n p = None" by blast
    from createNode_orphan [OF assms(1-4)] False obtain z where
      z: "createNode Z p v 0 True a = createFrom Z 1 p v 0 ZNONODE (a\<lparr>za_zoo := z\<rparr>)" "N z = ?n"
        "zoo_ephemeral Z z = zoo_ephemeral Z (za_zoo a)" by blast
    have "\<exists>z'. createFrom Z 1 p v 0 ZNONODE (a\<lparr>za_zoo := z\<rparr>) =
          (a\<lparr>za_zoo := z\<rparr>\<lparr>za_zoo := z'\<rparr>, ZOk (Some (realPath p))) \<and>
        N z' = (fold (with_node []) ?up (N (za_zoo (a\<lparr>za_zoo := z\<rparr>))))(p \<mapsto> (v, 0))"
      by (rule createFrom_ok [OF assms(1,3,4), where q = "[]"])
        (use assms(2,6) path anc(1,3) no z(2,3) in \<open>auto simp: ancestorPaths_def node_path_iff zoo_hosts_def list_all_iff\<close>)
    then obtain z' where z': "createNode Z p v 0 True a = (a\<lparr>za_zoo := z'\<rparr>, ZOk (Some (realPath p)))"
      "N z' = (fold (with_node []) ?up ?n)(p \<mapsto> (v, 0))"
      using z by auto
    have "N z' q = (if ?n q \<noteq> None \<or> ?n p \<noteq> None then ?n q
        else if q = p then Some (v, 0) else if q \<in> set ?up then Some ([], 0) else None)" for q
      using no by (cases "?n q") (auto simp: z'(2) fold_with_node_apply)
    moreover have "(if ?n p = None then Some (take 1023 p) else None) = Some (realPath p)" by (simp add: no real)
    ultimately show ?thesis using z'(1) by (intro exI [of _ z'] conjI allI) (simp_all only:)
  qed
qed

text \<open>A ZooKeeper of persistent nodes in memory.\<close>

type_synonym mem_nodes = "(string \<times> string \<times> int) list"

definition childList :: "mem_nodes \<Rightarrow> string \<Rightarrow> string list" where
  "childList t p =
     filter node_name (map (\<lambda>e. drop (length p + 1) (fst e))
       (filter (\<lambda>e. take (length p + 1) (fst e) = p @ ''/'') t))"

definition mem_zoo :: "(mem_nodes, unit) zoo_api" where
  "mem_zoo =
     \<lparr>zoo_create = (\<lambda>p v flags len t.
        if map_of t p \<noteq> None then (t, ZNODEEXISTS, [])
        else if parent_path p \<noteq> [] \<and> map_of t (parent_path p) = None then (t, ZNONODE, [])
        else ((p, v, 0) # t, ZOK, take (len - 1) p)),
      zoo_delete = (\<lambda>p version t.
        if map_of t p = None then (t, ZNONODE, ())
        else if childList t p \<noteq> [] then (t, ZNOTEMPTY, ())
        else (AList.delete p t, ZOK, ())),
      zoo_exists = (\<lambda>p watch t. (t, if map_of t p = None then ZNONODE else ZOK, ())),
      zoo_get_children = (\<lambda>p watch t. (t, ZOK, childList t p)),
      zoo_get = (\<lambda>p watch len t. case map_of t p of
          None \<Rightarrow> (t, ZNONODE, [], 0, ()) | Some (v, _) \<Rightarrow> (t, ZOK, v, int (length v), ())),
      zoo_set = (\<lambda>p v version t. case map_of t p of
          None \<Rightarrow> (t, ZNONODE, ()) | Some (_, n) \<Rightarrow> (AList.update p (v, n + 1) t, ZOK, ())),
      zoo_ephemeral = (\<lambda>t p. False), zoo_valid = (\<lambda>p. True)\<rparr>"

lemma child_key:
  "take (length p + 1) k = p @ ''/'' \<and> drop (length p + 1) k = c \<longleftrightarrow> k = p @ CHR ''/'' # c"
proof
  assume "take (length p + 1) k = p @ ''/'' \<and> drop (length p + 1) k = c"
  then have "k = (p @ ''/'') @ c" using append_take_drop_id [of "length p + 1" k] by simp
  then show "k = p @ CHR ''/'' # c" by simp
qed simp

lemma set_childList: "set (childList t p) = childNames (map_of t) p"
proof -
  have "c \<in> set (childList t p) \<longleftrightarrow> node_name c \<and> (\<exists>e \<in> set t. take (length p + 1) (fst e) = p @ ''/'' \<and>
      drop (length p + 1) (fst e) = c)" for c
    by (auto simp: childList_def)
  then have "c \<in> set (childList t p) \<longleftrightarrow> node_name c \<and> p @ CHR ''/'' # c \<in> fst ` set t" for c
    unfolding child_key by (auto simp: image_iff) (metis fst_conv)+
  then show ?thesis by (auto simp: childNames_def map_of_eq_None_iff)
qed

lemma mem_zoo_ok: "zoo_ok mem_zoo map_of"
proof -
  have none: "childNames (map_of t) p = {} \<longleftrightarrow> childList t p = []" for t p
    by (simp add: set_childList [symmetric])
  have "zoo_create_ok mem_zoo map_of"
    unfolding zoo_create_ok_def by (auto simp: mem_zoo_def zoo_hosts_def)
  moreover have "zoo_delete_ok mem_zoo map_of"
    unfolding zoo_delete_ok_def by (auto simp: mem_zoo_def none delete_conv' fun_upd_idem)
  moreover have "zoo_children_ok mem_zoo map_of"
    unfolding zoo_children_ok_def by (simp add: mem_zoo_def set_childList)
  moreover have "zoo_paths_ok mem_zoo map_of"
    by (simp add: zoo_paths_ok_def mem_zoo_def)
  ultimately show ?thesis by (simp add: zoo_ok_def)
qed

definition connected_to :: "'z \<Rightarrow> (nat, unit, 'z) ZooKeeperAdapter" where
  "connected_to zoo = (fst (ZooKeeperAdapter_new (ZooKeeperConfig_new ''h'' 30) None True [True] [] zoo))
     \<lparr>za_state := AS_CONNECTED\<rparr>"

lemma connected_to_fields [simp]:
  "za_state (connected_to zoo) = AS_CONNECTED" "za_zoo (connected_to zoo) = zoo"
  by (simp_all add: connected_to_def ZooKeeperAdapter_new_def zaReconnect_def zaDisconnect_def
      connection_defs Let_def)

theorem createNode_creates_ancestors_witness:
  "\<exists>z. createNode mem_zoo ''/a/b/c'' ''v'' 0 True (connected_to [(''/a'', ''old'', 3)]) =
      ((connected_to [(''/a'', ''old'', 3)])\<lparr>za_zoo := z\<rparr>, ZOk (Some ''/a/b/c'')) \<and>
    map_of z ''/a'' = Some (''old'', 3) \<and> map_of z ''/a/b'' = Some ([], 0) \<and>
    map_of z ''/a/b/c'' = Some (''v'', 0) \<and> map_of z ''/x'' = None"
proof -
  have "tree_nodes (map_of [(''/a'', ''old'', 3)])" by (simp add: tree_nodes_def parent_path_def)
  moreover have "zk_path ''/a/b/c''" "zk_small ''/a/b/c'' ''v''" by (simp_all add: zk_path_def zk_name_def zk_small_def)
  moreover have "list_all (\<lambda>q. \<not> zoo_ephemeral mem_zoo (za_zoo (connected_to [(''/a'', ''old'', 3)])) q)
      (butlast (ancestorPaths ''/a/b/c''))" by (simp add: mem_zoo_def list_all_iff)
  ultimately obtain z where z: "createNode mem_zoo ''/a/b/c'' ''v'' 0 True (connected_to [(''/a'', ''old'', 3)]) =
      ((connected_to [(''/a'', ''old'', 3)])\<lparr>za_zoo := z\<rparr>, ZOk (Some ''/a/b/c''))"
    and q: "\<And>q. map_of z q = (if map_of [(''/a'', ''old'', 3)] q \<noteq> None then map_of [(''/a'', ''old'', 3)] q
      else if q = ''/a/b/c'' then Some (''v'', 0)
      else if q \<in> set (butlast (ancestorPaths ''/a/b/c'')) then Some ([], 0) else None)"
    using createNode_creates_ancestors [OF mem_zoo_ok, of "connected_to [(''/a'', ''old'', 3)]" "''/a/b/c''" "''v''"]
    by auto
  show ?thesis using z by (intro exI [of _ z]) (simp add: q ancestorPaths_def)
qed

subsection \<open>Deleting a node with everything below it\<close>

definition below :: "string \<Rightarrow> string list \<Rightarrow> string" where
  "below p names = p @ concat (map (\<lambda>c. CHR ''/'' # c) names)"

definition subtree :: "string \<Rightarrow> string set" where
  "subtree p = {q. \<exists>names. (\<forall>c \<in> set names. node_name c) \<and> q = below p names}"

definition without :: "zoo_nodes \<Rightarrow> string set \<Rightarrow> zoo_nodes" where
  "without n S = (\<lambda>q. if q \<in> S then None else n q)"

text \<open>Below \<open>p\<close> every node has its parent, and no node is more than \<open>d\<close> levels down.\<close>

definition closed_below :: "zoo_nodes \<Rightarrow> string \<Rightarrow> bool" where
  "closed_below n p \<longleftrightarrow> (\<forall>names c. (\<forall>x \<in> set (names @ [c]). node_name x) \<longrightarrow>
     n (below p (names @ [c])) \<noteq> None \<longrightarrow> n (below p names) \<noteq> None)"

definition height_le :: "zoo_nodes \<Rightarrow> string \<Rightarrow> nat \<Rightarrow> bool" where
  "height_le n p d \<longleftrightarrow> (\<forall>names. (\<forall>c \<in> set names. node_name c) \<longrightarrow> n (below p names) \<noteq> None \<longrightarrow> length names \<le> d)"

lemma below_simps [simp]:
  "below p [] = p" "below (below p xs) ys = below p (xs @ ys)"
  by (simp_all add: below_def)

lemma subtree_refl [simp]: "p \<in> subtree p"
  by (auto simp: subtree_def intro: exI [of _ "[]"])

lemma subtree_below: "(\<forall>c \<in> set names. node_name c) \<Longrightarrow> below p names \<in> subtree p"
  by (auto simp: subtree_def)

lemma subtree_child: "node_name c \<Longrightarrow> subtree (below p [c]) \<subseteq> subtree p"
proof
  fix q assume "node_name c" "q \<in> subtree (below p [c])"
  then obtain names where "\<forall>x \<in> set (c # names). node_name x" "q = below p (c # names)"
    by (auto simp: subtree_def)
  then show "q \<in> subtree p" using subtree_below by blast
qed

lemma not_in_child_subtree: "p \<notin> subtree (below p [c])"
  by (auto simp: subtree_def below_def)

lemma closed_without:
  assumes "closed_below n p"
  shows "closed_below (without n (\<Union> (subtree ` R))) p"
  unfolding closed_below_def
proof (intro allI impI)
  fix names c
  assume names: "\<forall>x \<in> set (names @ [c]). node_name x"
    and there: "without n (\<Union> (subtree ` R)) (below p (names @ [c])) \<noteq> None"
  then have "n (below p names) \<noteq> None" "below p (names @ [c]) \<notin> \<Union> (subtree ` R)"
    using assms unfolding closed_below_def without_def by (metis, metis)
  moreover have "below p (names @ [c]) \<in> subtree r" if "below p names \<in> subtree r" for r
  proof -
    from that obtain ns where ns: "\<forall>x \<in> set ns. node_name x" "below p names = below r ns" by (auto simp: subtree_def)
    have "below p (names @ [c]) = below (below p names) [c]" by simp
    also have "\<dots> = below r (ns @ [c])" by (simp only: ns(2) below_simps)
    finally show ?thesis using ns(1) names subtree_below [of "ns @ [c]" r] by simp
  qed
  ultimately show "without n (\<Union> (subtree ` R)) (below p names) \<noteq> None" by (auto simp: without_def)
qed

lemma height_without: "height_le n p d \<Longrightarrow> height_le (without n S) p d"
  by (auto simp: height_le_def without_def split: if_splits)

lemma closed_child:
  assumes "closed_below n p" and "node_name c"
  shows "closed_below n (below p [c])"
  unfolding closed_below_def
proof (intro allI impI)
  fix names x
  assume "\<forall>y \<in> set (names @ [x]). node_name y" and "n (below (below p [c]) (names @ [x])) \<noteq> None"
  then have "\<forall>y \<in> set ((c # names) @ [x]). node_name y" "n (below p ((c # names) @ [x])) \<noteq> None"
    using assms(2) by auto
  with assms(1) have "n (below p (c # names)) \<noteq> None" unfolding closed_below_def by blast
  then show "n (below (below p [c]) names) \<noteq> None" by simp
qed

lemma height_child:
  assumes "height_le n p (Suc d)" and "node_name c"
  shows "height_le n (below p [c]) d"
  unfolding height_le_def
proof (intro allI impI)
  fix names
  assume "\<forall>x \<in> set names. node_name x" and "n (below (below p [c]) names) \<noteq> None"
  then have "\<forall>x \<in> set (c # names). node_name x" "n (below p (c # names)) \<noteq> None" using assms(2) by simp_all
  with assms(1) have "length (c # names) \<le> Suc d" unfolding height_le_def by blast
  then show "length names \<le> d" by simp
qed

text \<open>Nothing is below a node that is not there.\<close>

lemma closed_missing:
  assumes "closed_below n p" and "n (below p names) = None" and "\<forall>x \<in> set (names @ rest). node_name x"
  shows "n (below p (names @ rest)) = None"
  using assms(3)
proof (induction rest rule: rev_induct)
  case Nil
  with assms(2) show ?case by simp
next
  case (snoc c rest)
  then have "n (below p (names @ rest)) = None" by simp
  with assms(1) snoc.prems show ?case
    unfolding closed_below_def by (metis append.assoc)
qed

lemma childNames_iff: "node_name c \<Longrightarrow> c \<in> childNames n p \<longleftrightarrow> n (below p [c]) \<noteq> None"
  by (auto simp: childNames_def below_def)

lemma without_empty_subtree:
  assumes "closed_below n p" and "childNames n p = {}"
  shows "without n (subtree p) = n(p := None)"
proof
  fix q
  have no: "n (below p names) = None" if "names \<noteq> []" "\<forall>x \<in> set names. node_name x" for names
  proof -
    from that obtain c rest where names: "names = [c] @ rest" by (cases names) auto
    have "node_name c" using that(2) names by simp
    from childNames_iff [OF this, of n p] assms(2) have "n (below p [c]) = None" by blast
    then have "n (below p ([c] @ rest)) = None"
      by (rule closed_missing [OF assms(1)]) (use that(2) names in simp)
    then show ?thesis unfolding names .
  qed
  show "without n (subtree p) q = (n(p := None)) q"
  proof (cases "q \<in> subtree p \<and> q \<noteq> p")
    case True
    then obtain names where names: "\<forall>c \<in> set names. node_name c" "q = below p names" by (auto simp: subtree_def)
    with True have "names \<noteq> []" by auto
    from no [OF this names(1)] True names(2) show ?thesis by (simp add: without_def)
  qed (auto simp: without_def)
qed

lemma node_path_child: "node_path p \<Longrightarrow> node_name c \<Longrightarrow> node_path (below p [c])"
proof -
  assume "node_path p" "node_name c"
  then obtain names where n1: "\<forall>x \<in> set names. node_name x" "p = path_of names"
    by (auto simp: node_path_def validatePath_names)
  moreover from this have "names \<noteq> []" using \<open>node_path p\<close> by (auto simp: node_path_def path_of_def)
  ultimately have n: "\<forall>x \<in> set names. node_name x" "p = path_of names" "names \<noteq> []" by simp_all
  then have "below p [c] = path_of (names @ [c])" by (simp add: path_of_def below_def)
  moreover have "path_of (names @ [c]) \<noteq> ''/''" using n(3) by (cases names) (auto simp: path_of_def)
  ultimately show ?thesis
    using n(1) \<open>node_name c\<close> unfolding node_path_def validatePath_names
    by (metis Un_iff empty_iff empty_set set_ConsD set_append)
qed

lemma without_without: "without (without n A) B = without n (A \<union> B)"
  by (auto simp: without_def)

lemma absPath_child: "node_path p \<Longrightarrow> absPath p c = below p [c]"
  by (auto simp: absPath_def below_def node_path_def)

text \<open>A path below the root that the adapter and ZooKeeper accept.\<close>

definition zoo_node :: "('z, 'st) zoo_api \<Rightarrow> string \<Rightarrow> bool" where
  "zoo_node Z p \<longleftrightarrow> node_path p \<and> zoo_valid Z p"

lemma zoo_node_child:
  assumes "zoo_ok Z N" and "zoo_node Z p" and "c \<in> childNames (N z) p"
  shows "zoo_node Z (below p [c])"
proof -
  have "node_name c" "N z (below p [c]) \<noteq> None" using assms(3) by (simp_all add: childNames_def below_def)
  moreover have "\<forall>z q. N z q \<noteq> None \<longrightarrow> zoo_valid Z q" using assms(1) by (simp add: zoo_ok_def zoo_paths_ok_def)
  ultimately show ?thesis using assms(2) node_path_child unfolding zoo_node_def by blast
qed

lemma zk_path_zoo_node: "zoo_ok Z N \<Longrightarrow> zk_path p \<Longrightarrow> zoo_node Z p"
  by (simp add: zoo_node_def zk_path_node_path zoo_ok_def zoo_paths_ok_def)

text \<open>The requests of one level, on a connected adapter and a ZooKeeper that keeps its contract.\<close>

lemma delete_request:
  assumes "zoo_ok Z N" and "za_state a = AS_CONNECTED" and "zoo_node Z p"
  obtains z where "nodeOp p (zooCall (zoo_delete Z p (-1))) a =
      (a\<lparr>za_zoo := z\<rparr>, ZOk (if N (za_zoo a) p = None then ZNONODE
        else if childNames (N (za_zoo a)) p \<noteq> {} then ZNOTEMPTY else ZOK, ()))"
    and "N z = (if childNames (N (za_zoo a)) p \<noteq> {} then N (za_zoo a) else (N (za_zoo a))(p := None))"
proof -
  obtain z where z: "zoo_delete Z p (-1) (za_zoo a) = (z, if N (za_zoo a) p = None then ZNONODE
        else if childNames (N (za_zoo a)) p \<noteq> {} then ZNOTEMPTY else ZOK, ())"
      "N z = (if childNames (N (za_zoo a)) p \<noteq> {} then N (za_zoo a) else (N (za_zoo a))(p := None))"
    using assms(1,3) unfolding zoo_ok_def zoo_delete_ok_def zoo_node_def by blast
  have "nodeOp p (zooCall (zoo_delete Z p (-1))) a =
      (a\<lparr>za_zoo := z\<rparr>, ZOk (if N (za_zoo a) p = None then ZNONODE
        else if childNames (N (za_zoo a)) p \<noteq> {} then ZNOTEMPTY else ZOK, ()))"
    by (rule nodeOp_connected [OF assms(2)])
      (use assms(3) in \<open>simp_all add: zoo_node_def node_path_def zooCall_def z(1)\<close>)
  from that [OF this z(2)] show thesis .
qed

lemma children_request:
  fixes a :: "('l::linorder, 'c, 'z) ZooKeeperAdapter"
  assumes "zoo_ok Z N" and "za_state a = AS_CONNECTED" and "zoo_node Z p" and "N (za_zoo a) p \<noteq> None"
  obtains z ps where "getNodeChildren Z [] p None None a = (a\<lparr>za_zoo := z\<rparr>, ZOk ps)"
    and "N z = N (za_zoo a)" and "set ps = (\<lambda>c. below p [c]) ` childNames (N (za_zoo a)) p" and "sorted ps"
proof -
  obtain z cs where z: "zoo_get_children Z p False (za_zoo a) = (z, ZOK, cs)" "N z = N (za_zoo a)"
      "set cs = childNames (N (za_zoo a)) p"
    using assms(1,3,4) unfolding zoo_ok_def zoo_children_ok_def zoo_node_def by blast
  have "nodeOp p (watchCall (zoo_get_children Z p False) [ZOK] GET_NODE_CHILDREN p None None) a =
      (a\<lparr>za_zoo := z\<rparr>, ZOk (ZOK, cs))"
    by (rule nodeOp_connected [OF assms(2)])
      (use assms(3) in \<open>simp_all add: zoo_node_def node_path_def watchCall_def z(1)\<close>)
  then have "getNodeChildren Z [] p None None a = (a\<lparr>za_zoo := z\<rparr>, ZOk (sort (map (absPath p) cs)))"
    by (simp add: getNodeChildren_def zbind_def zreturn_def)
  moreover have "absPath p = (\<lambda>c. below p [c])" by (rule ext) (rule absPath_child [OF conjunct1 [OF assms(3) [unfolded zoo_node_def]]])
  then have "set (sort (map (absPath p) cs)) = (\<lambda>c. below p [c]) ` childNames (N (za_zoo a)) p"
    by (simp only: set_sort set_map z(3))
  ultimately show thesis by (rule that [OF _ z(2) _ sorted_sort])
qed

lemma deleteAll_ok:
  fixes a :: "('l::linorder, 'c, 'z) ZooKeeperAdapter"
  assumes "\<And>q (b :: ('l, 'c, 'z) ZooKeeperAdapter). za_state b = AS_CONNECTED \<Longrightarrow> zoo_node Z q \<Longrightarrow> closed_below (N (za_zoo b)) q \<Longrightarrow>
      height_le (N (za_zoo b)) q d \<Longrightarrow>
      \<exists>z r. deleteNode d Z q True (-1) b = (b\<lparr>za_zoo := z\<rparr>, ZOk r) \<and> N z = without (N (za_zoo b)) (subtree q)"
    and "za_state a = AS_CONNECTED"
    and "\<forall>q \<in> set ps. zoo_node Z q \<and> closed_below (N (za_zoo a)) q \<and> height_le (N (za_zoo a)) q d"
  shows "\<exists>z. deleteAll d Z ps a = (a\<lparr>za_zoo := z\<rparr>, ZOk ()) \<and>
    N z = without (N (za_zoo a)) (\<Union> (subtree ` set ps))"
  using assms(2,3)
proof (induction ps arbitrary: a)
  case Nil
  show ?case by (rule exI [of _ "za_zoo a"]) (simp add: without_def)
next
  case (Cons q ps)
  have "zoo_node Z q" "closed_below (N (za_zoo a)) q" "height_le (N (za_zoo a)) q d" using Cons.prems(2) by simp_all
  from assms(1) [OF Cons.prems(1) this] obtain z r where
    z: "deleteNode d Z q True (-1) a = (a\<lparr>za_zoo := z\<rparr>, ZOk r)" "N z = without (N (za_zoo a)) (subtree q)"
    by blast
  have "closed_below (N z) x \<and> height_le (N z) x d" if "x \<in> set ps" for x
    using Cons.prems(2) that closed_without [of _ x "{q}"] z(2) by (simp add: height_without)
  with Cons.IH [of "a\<lparr>za_zoo := z\<rparr>"] Cons.prems obtain z' where
    "deleteAll d Z ps (a\<lparr>za_zoo := z\<rparr>) = (a\<lparr>za_zoo := z\<rparr>\<lparr>za_zoo := z'\<rparr>, ZOk ())"
    "N z' = without (N z) (\<Union> (subtree ` set ps))" by auto
  with z show ?case by (auto simp: without_without)
qed

lemma deleteNode_leaf:
  assumes "zoo_ok Z N" and "za_state a = AS_CONNECTED" and "zoo_node Z p" and "closed_below (N (za_zoo a)) p"
    and "childNames (N (za_zoo a)) p = {}"
  shows "\<exists>z. deleteNode d Z p r (-1) a = (a\<lparr>za_zoo := z\<rparr>, ZOk (N (za_zoo a) p \<noteq> None)) \<and>
    N z = without (N (za_zoo a)) (subtree p)"
proof -
  obtain z where "nodeOp p (zooCall (zoo_delete Z p (-1))) a =
      (a\<lparr>za_zoo := z\<rparr>, ZOk (if N (za_zoo a) p = None then ZNONODE
        else if childNames (N (za_zoo a)) p \<noteq> {} then ZNOTEMPTY else ZOK, ()))"
    "N z = (if childNames (N (za_zoo a)) p \<noteq> {} then N (za_zoo a) else (N (za_zoo a))(p := None))"
    by (rule delete_request [OF assms(1-3)])
  then have z: "nodeOp p (zooCall (zoo_delete Z p (-1))) a =
      (a\<lparr>za_zoo := z\<rparr>, ZOk (if N (za_zoo a) p = None then ZNONODE else ZOK, ()))"
    "N z = (N (za_zoo a))(p := None)"
    using assms(5) by simp_all
  then have "deleteNode d Z p r (-1) a = (a\<lparr>za_zoo := z\<rparr>, ZOk (N (za_zoo a) p \<noteq> None))"
    by (subst deleteNode.simps) simp
  with z(2) without_empty_subtree [OF assms(4,5)] show ?thesis by auto
qed

lemma childNames_there:
  assumes "closed_below n p" and "c \<in> childNames n p"
  shows "n p \<noteq> None"
proof
  assume "n p = None"
  moreover have "node_name c" using assms(2) by (simp add: childNames_def)
  ultimately have "n (below p ([] @ [c])) = None" by (intro closed_missing [OF assms(1)]) simp_all
  then show False using childNames_iff [OF \<open>node_name c\<close>] assms(2) by simp
qed

lemma height_leaf: "height_le n p 0 \<Longrightarrow> childNames n p = {}"
proof -
  assume h: "height_le n p 0"
  have "c \<notin> childNames n p" for c
  proof
    assume c: "c \<in> childNames n p"
    then have "node_name c" by (simp add: childNames_def)
    with c have "\<forall>x \<in> set [c]. node_name x" "n (below p [c]) \<noteq> None" using childNames_iff by auto
    with h have "length [c] \<le> 0" unfolding height_le_def by blast
    then show False by simp
  qed
  then show ?thesis by blast
qed

lemma deleteNode_parent:
  fixes a :: "('l::linorder, 'c, 'z) ZooKeeperAdapter"
  assumes "zoo_ok Z N" and "za_state a = AS_CONNECTED" and "zoo_node Z p" and "closed_below (N (za_zoo a)) p"
    and "childNames (N (za_zoo a)) p \<noteq> {}"
  obtains z ps where "deleteNode (Suc d) Z p True (-1) a =
      (case deleteAll d Z ps (a\<lparr>za_zoo := z\<rparr>) of
         (a3, ZThrow e) \<Rightarrow> (a3, ZThrow e)
       | (a3, ZPending) \<Rightarrow> (a3, ZPending)
       | (a3, ZOk _) \<Rightarrow> deleteNode d Z p False (-1) a3)"
    and "N z = N (za_zoo a)" and "set ps = (\<lambda>c. below p [c]) ` childNames (N (za_zoo a)) p"
proof -
  have there: "N (za_zoo a) p \<noteq> None" using childNames_there [OF assms(4)] assms(5) by blast
  obtain z1 where "nodeOp p (zooCall (zoo_delete Z p (-1))) a =
      (a\<lparr>za_zoo := z1\<rparr>, ZOk (if N (za_zoo a) p = None then ZNONODE
        else if childNames (N (za_zoo a)) p \<noteq> {} then ZNOTEMPTY else ZOK, ()))"
    "N z1 = (if childNames (N (za_zoo a)) p \<noteq> {} then N (za_zoo a) else (N (za_zoo a))(p := None))"
    by (rule delete_request [OF assms(1-3)])
  then have z1: "nodeOp p (zooCall (zoo_delete Z p (-1))) a = (a\<lparr>za_zoo := z1\<rparr>, ZOk (ZNOTEMPTY, ()))"
    "N z1 = N (za_zoo a)"
    using there assms(5) by simp_all
  have "za_state (a\<lparr>za_zoo := z1\<rparr>) = AS_CONNECTED" "N (za_zoo (a\<lparr>za_zoo := z1\<rparr>)) p \<noteq> None"
    using assms(2) there z1(2) by simp_all
  then obtain z2 ps where z2:
    "getNodeChildren Z [] p None None (a\<lparr>za_zoo := z1\<rparr>) = (a\<lparr>za_zoo := z1\<rparr>\<lparr>za_zoo := z2\<rparr>, ZOk ps)"
    "N z2 = N (za_zoo (a\<lparr>za_zoo := z1\<rparr>))"
    "set ps = (\<lambda>c. below p [c]) ` childNames (N (za_zoo (a\<lparr>za_zoo := z1\<rparr>))) p"
    by (rule children_request [OF assms(1) _ assms(3)])
  show thesis
  proof (rule that)
    show "deleteNode (Suc d) Z p True (-1) a =
      (case deleteAll d Z ps (a\<lparr>za_zoo := z2\<rparr>) of
         (a3, ZThrow e) \<Rightarrow> (a3, ZThrow e)
       | (a3, ZPending) \<Rightarrow> (a3, ZPending)
       | (a3, ZOk _) \<Rightarrow> deleteNode d Z p False (-1) a3)"
      using z2(1) by (subst deleteNode.simps) (simp add: z1(1))
  qed (use z1(2) z2(2,3) in simp_all)
qed

text \<open>Without the subtrees of the children, the node is a leaf.\<close>

lemma without_kids:
  assumes "closed_below n p"
  shows "closed_below (without n (\<Union> (subtree ` (\<lambda>c. below p [c]) ` childNames n p))) p"
    and "childNames (without n (\<Union> (subtree ` (\<lambda>c. below p [c]) ` childNames n p))) p = {}"
    and "without n (\<Union> (subtree ` (\<lambda>c. below p [c]) ` childNames n p)) p = n p"
    and "without (without n (\<Union> (subtree ` (\<lambda>c. below p [c]) ` childNames n p))) (subtree p) =
      without n (subtree p)"
proof -
  let ?gone = "\<Union> (subtree ` (\<lambda>c. below p [c]) ` childNames n p)"
  have kid: "below p [c] \<in> ?gone" "subtree (below p [c]) \<subseteq> subtree p" if "c \<in> childNames n p" for c
    using that subtree_refl subtree_child by (auto simp: childNames_def)
  show "closed_below (without n ?gone) p" by (rule closed_without [OF assms])
  have "c \<notin> childNames (without n ?gone) p" for c
  proof
    assume c: "c \<in> childNames (without n ?gone) p"
    then have "node_name c" by (simp add: childNames_def)
    with c have "without n ?gone (below p [c]) \<noteq> None" using childNames_iff by blast
    then have "n (below p [c]) \<noteq> None" "below p [c] \<notin> ?gone" unfolding without_def by metis+
    with kid(1) \<open>node_name c\<close> show False using childNames_iff by blast
  qed
  then show "childNames (without n ?gone) p = {}" by blast
  show "without n ?gone p = n p" using not_in_child_subtree by (auto simp: without_def)
  have "?gone \<subseteq> subtree p" using kid(2) by blast
  then show "without (without n ?gone) (subtree p) = without n (subtree p)"
    by (simp add: without_without Un_absorb1)
qed

lemma deleteNode_subtree:
  fixes a :: "('l::linorder, 'c, 'z) ZooKeeperAdapter"
  assumes "zoo_ok Z N" and "za_state a = AS_CONNECTED" and "zoo_node Z p" and "closed_below (N (za_zoo a)) p"
    and "height_le (N (za_zoo a)) p d"
  shows "\<exists>z. deleteNode d Z p True (-1) a = (a\<lparr>za_zoo := z\<rparr>, ZOk (N (za_zoo a) p \<noteq> None)) \<and>
    N z = without (N (za_zoo a)) (subtree p)"
  using assms(2-5)
proof (induction d arbitrary: a p)
  case 0
  from deleteNode_leaf [OF assms(1) 0(1-3) height_leaf [OF 0(4)]] show ?case .
next
  case (Suc d)
  let ?n = "N (za_zoo a)" and ?kids = "childNames (N (za_zoo a)) p"
  show ?case
  proof (cases "?kids = {}")
    case True
    from deleteNode_leaf [OF assms(1) Suc.prems(1-3) this] show ?thesis .
  next
    case False
    obtain z1 ps where z1: "deleteNode (Suc d) Z p True (-1) a =
        (case deleteAll d Z ps (a\<lparr>za_zoo := z1\<rparr>) of
           (a3, ZThrow e) \<Rightarrow> (a3, ZThrow e)
         | (a3, ZPending) \<Rightarrow> (a3, ZPending)
         | (a3, ZOk _) \<Rightarrow> deleteNode d Z p False (-1) a3)"
      "N z1 = ?n" "set ps = (\<lambda>c. below p [c]) ` ?kids"
      by (rule deleteNode_parent [OF assms(1) Suc.prems(1-3) False])
    let ?gone = "\<Union> (subtree ` set ps)"
    have "zoo_node Z (below p [c])" if "c \<in> ?kids" for c by (rule zoo_node_child [OF assms(1) Suc.prems(2) that])
    moreover have "closed_below ?n (below p [c]) \<and> height_le ?n (below p [c]) d" if "c \<in> ?kids" for c
      using that Suc.prems(3,4) by (auto simp: childNames_def intro: closed_child height_child)
    ultimately have kids: "\<forall>q \<in> set ps. zoo_node Z q \<and> closed_below ?n q \<and> height_le ?n q d"
      using z1(3) by auto
    have "\<exists>z. deleteAll d Z ps (a\<lparr>za_zoo := z1\<rparr>) = (a\<lparr>za_zoo := z1\<rparr>\<lparr>za_zoo := z\<rparr>, ZOk ()) \<and>
        N z = without (N (za_zoo (a\<lparr>za_zoo := z1\<rparr>))) ?gone"
    proof (rule deleteAll_ok)
      fix q :: string and b :: "('l, 'c, 'z) ZooKeeperAdapter"
      assume "za_state b = AS_CONNECTED" "zoo_node Z q" "closed_below (N (za_zoo b)) q"
        "height_le (N (za_zoo b)) q d"
      from Suc.IH [OF this] show "\<exists>z r. deleteNode d Z q True (-1) b = (b\<lparr>za_zoo := z\<rparr>, ZOk r) \<and>
          N z = without (N (za_zoo b)) (subtree q)" by blast
    qed (use kids Suc.prems(1) z1(2) in simp_all)
    then obtain z2 where z2: "deleteAll d Z ps (a\<lparr>za_zoo := z1\<rparr>) = (a\<lparr>za_zoo := z2\<rparr>, ZOk ())"
      "N z2 = without ?n ?gone"
      using z1(2) by auto
    note bare = without_kids [OF Suc.prems(3), folded z1(3) z2(2)]
    have "\<exists>z. deleteNode d Z p False (-1) (a\<lparr>za_zoo := z2\<rparr>) = (a\<lparr>za_zoo := z2\<rparr>\<lparr>za_zoo := z\<rparr>,
        ZOk (N (za_zoo (a\<lparr>za_zoo := z2\<rparr>)) p \<noteq> None)) \<and> N z = without (N (za_zoo (a\<lparr>za_zoo := z2\<rparr>))) (subtree p)"
      by (rule deleteNode_leaf [OF assms(1)]) (use Suc.prems(1,2) bare in simp_all)
    with z1(1) z2(1) bare(3,4) show ?thesis by auto
  qed
qed

text \<open>
  C35. \<open>deleteNode\<close> with \<open>recursive\<close>, on a connected adapter and a healthy ZooKeeper that nobody else
  changes meanwhile, for a path that ZooKeeper accepts, other than the root, with nodes at most \<open>d\<close>
  levels below it and no gaps between them: within \<open>d\<close> nested calls it returns whether the node was
  there, and exactly the node and everything below it are gone.
\<close>

theorem deleteNode_removes_subtree:
  fixes a :: "('l::linorder, 'c, 'z) ZooKeeperAdapter"
  assumes "zoo_ok Z N" and "za_state a = AS_CONNECTED" and "zk_path p" and "closed_below (N (za_zoo a)) p"
    and "height_le (N (za_zoo a)) p d"
  shows "\<exists>z. deleteNode d Z p True (-1) a = (a\<lparr>za_zoo := z\<rparr>, ZOk (N (za_zoo a) p \<noteq> None)) \<and>
    N z = without (N (za_zoo a)) (subtree p)"
  by (rule deleteNode_subtree [OF assms(1,2) zk_path_zoo_node [OF assms(1,3)] assms(4,5)])

theorem deleteNode_removes_subtree_witness:
  "\<exists>z. deleteNode 1 mem_zoo ''/a'' True (-1)
      (connected_to [(''/a'', ''x'', 0), (''/b'', ''y'', 1), (''/a/c'', ''v'', 2)] :: (nat, unit, mem_nodes) ZooKeeperAdapter) =
      ((connected_to [(''/a'', ''x'', 0), (''/b'', ''y'', 1), (''/a/c'', ''v'', 2)])\<lparr>za_zoo := z\<rparr>, ZOk True) \<and>
    map_of z ''/a'' = None \<and> map_of z ''/a/c'' = None"
proof -
  let ?t = "[(''/a'', ''x'', 0), (''/b'', ''y'', 1), (''/a/c'', ''v'', 2)] :: mem_nodes"
  have some: "map_of ?t q \<noteq> None \<longleftrightarrow> q \<in> {''/a'', ''/b'', ''/a/c''}" for q by auto
  have step: "below ''/a'' names \<in> {''/a'', ''/b'', ''/a/c''} \<longleftrightarrow> names = [] \<or> names = [''c'']"
    if "\<forall>x \<in> set names. node_name x" for names
  proof (cases names rule: list.exhaust)
    case (Cons x xs)
    with that show ?thesis by (cases xs) (auto simp: below_def node_name_def append_eq_Cons_conv)
  qed (simp add: below_def)
  have "closed_below (map_of ?t) ''/a''" unfolding closed_below_def some
  proof (intro allI impI)
    fix names c
    assume n: "\<forall>x \<in> set (names @ [c]). node_name x" and "below ''/a'' (names @ [c]) \<in> {''/a'', ''/b'', ''/a/c''}"
    then have "names = []" using step [OF n] by simp
    then show "below ''/a'' names \<in> {''/a'', ''/b'', ''/a/c''}" by simp
  qed
  moreover have "height_le (map_of ?t) ''/a'' 1" unfolding height_le_def some using step by auto
  moreover have "zk_path ''/a''" by (simp add: zk_path_def zk_name_def)
  ultimately obtain z where
    "deleteNode 1 mem_zoo ''/a'' True (-1) (connected_to ?t) = ((connected_to ?t)\<lparr>za_zoo := z\<rparr>, ZOk True)"
    "map_of z = without (map_of ?t) (subtree ''/a'')"
    using deleteNode_removes_subtree [OF mem_zoo_ok, of "connected_to ?t" "''/a''" 1] by auto
  moreover have "''/a/c'' \<in> subtree ''/a''"
    using subtree_below [of "[''c'']" "''/a''"] by (simp add: below_def node_name_def)
  ultimately show ?thesis by (intro exI [of _ z]) (simp add: without_def)
qed

subsection \<open>Sequence nodes\<close>

text \<open>The zero padded counter that ZooKeeper appends, of at least \<open>w\<close> characters.\<close>

definition padded :: "nat \<Rightarrow> int \<Rightarrow> string" where
  "padded w i =
     (let digits = dec_of_nat (nat \<bar>i\<bar>); sign = (if i < 0 then ''-'' else [])
      in sign @ replicate (w - length sign - length digits) (CHR ''0'') @ digits)"

lemma dec_value_zeros: "dec_value (replicate k (CHR ''0'') @ s) = dec_value s"
  by (induction k) (simp_all add: dec_value_def)

lemma strtol10_padded:
  assumes "- (2 ^ 63) \<le> i" and "i < 2 ^ 63"
  shows "strtol10 (padded w i) = (i, [])"
proof -
  have digits: "takeWhile is_digit xs = xs" "dropWhile is_digit xs = []" if "list_all is_digit xs" for xs
    using that by (simp_all add: takeWhile_eq_all_conv list_all_iff)
  define body where "body = replicate (w - length (if i < 0 then ''-'' else []) - length (dec_of_nat (nat \<bar>i\<bar>)))
      (CHR ''0'') @ dec_of_nat (nat \<bar>i\<bar>)"
  have body: "list_all is_digit body" "body \<noteq> []" "dec_value body = nat \<bar>i\<bar>"
    using dec_of_nat_digits [of "nat \<bar>i\<bar>"]
    by (auto simp: body_def dec_value_zeros dec_value_dec_of_nat list_all_iff is_digit_def)
  then obtain c cs where c: "body = c # cs" "is_digit c" by (cases body) auto
  then have "\<not> is_space c" "c \<noteq> CHR ''-''" "c \<noteq> CHR ''+''" by (auto simp: is_digit_def is_space_def)
  moreover have "\<not> is_space (CHR ''-'')" by (simp add: is_space_def)
  moreover have "padded w i = (if i < 0 then CHR ''-'' # body else body)"
    by (simp add: padded_def body_def Let_def)
  moreover have "clampLong i = i" using assms by (simp add: clampLong_def)
  ultimately show ?thesis
    using body digits [of cs] c by (cases "i < 0") (simp_all add: strtol10_def Let_def del: takeWhile_eq_all_conv)
qed

lemma dec_value_append: "dec_value (xs @ ys) = dec_value xs * 10 ^ length ys + dec_value ys"
proof (induction ys rule: rev_induct)
  case (snoc y ys)
  have step: "dec_value (zs @ [c]) = 10 * dec_value zs + (of_char c - 48)" for zs c
    by (simp add: dec_value_def)
  have "dec_value (xs @ ys @ [y]) = 10 * dec_value (xs @ ys) + (of_char y - 48)"
    using step [of "xs @ ys"] by simp
  with snoc step [of ys] show ?case by (simp add: algebra_simps)
qed (simp add: dec_value_def)

lemma dec_value_less: "list_all is_digit xs \<Longrightarrow> dec_value xs < 10 ^ length xs"
proof (induction xs rule: rev_induct)
  case (snoc x xs)
  then have "of_char x - 48 < (10 :: nat)" "dec_value xs < 10 ^ length xs" by (auto simp: is_digit_def)
  then show ?case by (simp add: dec_value_append) (simp add: dec_value_def)
qed (simp add: dec_value_def)

text \<open>Cutting digits off divides.\<close>

lemma dec_value_take:
  assumes "list_all is_digit xs"
  shows "dec_value (take n xs) = dec_value xs div 10 ^ (length xs - n)"
proof -
  have "list_all is_digit (drop n xs)" using assms by (auto simp: list_all_iff dest: in_set_dropD)
  then have "dec_value (drop n xs) < 10 ^ (length xs - n)" using dec_value_less [of "drop n xs"] by simp
  moreover have "dec_value xs = dec_value (take n xs) * 10 ^ (length xs - n) + dec_value (drop n xs)"
    using dec_value_append [of "take n xs" "drop n xs"] by simp
  ultimately show ?thesis by simp
qed

lemma length_dec_of_nat: "n < 10 ^ k \<Longrightarrow> 0 < k \<Longrightarrow> length (dec_of_nat n) \<le> k"
proof (induction n arbitrary: k rule: dec_of_nat.induct)
  case (1 n)
  show ?case
  proof (cases "n < 10")
    case False
    then have "k > 1" using 1(2,3) by (cases "k = 1") auto
    then obtain j where k: "k = Suc j" "0 < j" by (cases k) auto
    then have "n div 10 < 10 ^ j" using 1(2) by (simp add: less_mult_imp_div_less mult.commute)
    with 1(1) [OF False _ k(2)] k False show ?thesis by (simp add: dec_of_nat.simps [of n])
  qed (use 1(3) in \<open>simp add: dec_of_nat.simps [of n]\<close>)
qed

text \<open>The counter as ZooKeeper appends it: ten digits.\<close>

lemma padded_digits:
  assumes "0 \<le> i" and "i < 10 ^ 10"
  shows "list_all is_digit (padded 10 i)" and "length (padded 10 i) = 10" and "dec_value (padded 10 i) = nat i"
proof -
  have "length (dec_of_nat (nat i)) \<le> 10" using assms by (intro length_dec_of_nat) simp_all
  then show "length (padded 10 i) = 10" using assms(1) by (simp add: padded_def Let_def)
  show "list_all is_digit (padded 10 i)"
    using assms(1) dec_of_nat_digits [of "nat i"] by (auto simp: padded_def Let_def list_all_iff is_digit_def)
  show "dec_value (padded 10 i) = nat i"
    using assms(1) by (simp add: padded_def Let_def dec_value_zeros dec_value_dec_of_nat)
qed

lemma strtol10_digits:
  assumes "list_all is_digit xs" and "dec_value xs < 2 ^ 63"
  shows "strtol10 xs = (int (dec_value xs), [])"
proof (cases xs)
  case Nil
  then show ?thesis by (simp add: strtol10_def Let_def dec_value_def)
next
  case (Cons c cs)
  then have "is_digit c" using assms(1) by simp
  then have "\<not> is_space c" "c \<noteq> CHR ''-''" "c \<noteq> CHR ''+''" by (auto simp: is_digit_def is_space_def)
  moreover have "takeWhile is_digit xs = xs" "dropWhile is_digit xs = []"
    using assms(1) by (simp_all add: takeWhile_eq_all_conv list_all_iff)
  moreover have "clampLong (int (dec_value xs)) = int (dec_value xs)" using assms(2) by (simp add: clampLong_def)
  ultimately show ?thesis using Cons by (simp add: strtol10_def Let_def del: takeWhile_eq_all_conv)
qed

text \<open>
  C39. \<open>createSequence\<close> returns the counter only if the created path fits into the buffer of
  \<open>createNode\<close>. On a connected adapter, when ZooKeeper creates the node with the counter \<open>i\<close> in ten
  digits after the path, and writes what fits into the buffer: for a path of up to 1013 characters
  the counter is returned; for each character more, up to 1023, the counter loses its last digit, so
  that different nodes are given the same number; and for longer paths the call throws although the
  node has been created.
\<close>

theorem createSequence_result:
  assumes "za_state a = AS_CONNECTED" and "validatePath path = None" and "0 \<le> i" and "i < 2 ^ 31"
    and "zoo_create Z path val (flags OR ZOO_SEQUENCE) 1024 (za_zoo a) = (z, ZOK, take 1023 (path @ padded 10 i))"
  shows "\<exists>e. createSequence Z path val flags anc a = (a\<lparr>za_zoo := z\<rparr>,
    if length path \<le> 1013 then ZOk i
    else if length path \<le> 1023 then ZOk (i div 10 ^ (length path - 1013))
    else ZThrow e)"
proof -
  have i: "i < 10 ^ 10" using assms(4) by simp
  note digits = padded_digits [OF assms(3) i]
  have "nodeOp path (zooCall (zoo_create Z path val (flags OR ZOO_SEQUENCE) MAX_PATH_LENGTH)) a =
      (a\<lparr>za_zoo := z\<rparr>, ZOk (ZOK, take 1023 (path @ padded 10 i)))"
    by (rule nodeOp_connected [OF assms(1,2)]) (simp_all add: zooCall_def assms(5) MAX_PATH_LENGTH_def)
  then have node: "createNode Z path val (flags OR ZOO_SEQUENCE) anc a =
      (a\<lparr>za_zoo := z\<rparr>, ZOk (Some (take 1023 (path @ padded 10 i))))"
    by (subst createNode.simps) simp
  show ?thesis
  proof (cases "length path \<le> 1023")
    case True
    let ?seen = "take (1023 - length path) (padded 10 i)"
    have d: "list_all is_digit ?seen" using digits(1) by (auto simp: list_all_iff dest: in_set_takeD)
    have v: "dec_value ?seen = nat i div 10 ^ (10 - (1023 - length path))"
      using dec_value_take [OF digits(1)] by (simp add: digits(2,3))
    have "dec_value ?seen \<le> nat i" unfolding v by (rule div_le_dividend)
    then have "dec_value ?seen < 2 ^ 63" using assms(3,4) by (auto intro: order_le_less_trans)
    with d v have st: "strtol10 ?seen = (int (nat i div 10 ^ (10 - (1023 - length path))), [])"
      by (simp add: strtol10_digits)
    have "10 - (1023 - length path) = length path - 1013" using True by simp
    then have "int (nat i div 10 ^ (10 - (1023 - length path))) = i div 10 ^ (length path - 1013)"
      using assms(3) by (simp add: zdiv_int)
    with node st True show ?thesis
      by (intro exI) (simp add: createSequence_def zbind_def zreturn_def)
  next
    case False
    then have "take (length path) (take 1023 (path @ padded 10 i)) \<noteq> path"
      by (metis length_take min_less_iff_disj nat_less_le not_le take_take)
    with node False show ?thesis
      by (intro exI) (simp add: createSequence_def zbind_def zthrow_def)
  qed
qed

text \<open>A name of 1016 characters: six of the ten digits fit.\<close>

theorem createSequence_result_witness:
  "createSequence (mem_zoo\<lparr>zoo_create := (\<lambda>p v flags len t. (t, ZOK, take (len - 1) (p @ padded 10 1234567)))\<rparr>)
      (''/'' @ replicate 1016 (CHR ''a'')) ''v'' 1 True (connected_to [] :: (nat, unit, mem_nodes) ZooKeeperAdapter) =
    ((connected_to [])\<lparr>za_zoo := []\<rparr>, ZOk 123)"
proof -
  let ?p = "''/'' @ replicate 1016 (CHR ''a'')" and ?a = "connected_to [] :: (nat, unit, mem_nodes) ZooKeeperAdapter"
  have "path_of [replicate 1016 (CHR ''a'')] = ?p" "node_name (replicate 1016 (CHR ''a''))"
    by (simp_all add: path_of_def node_name_def)
  then have "validatePath ?p = None" unfolding validatePath_names by (metis empty_iff insert_iff list.set)
  from createSequence_result [OF _ this, of ?a 1234567
      "mem_zoo\<lparr>zoo_create := (\<lambda>p v flags len t. (t, ZOK, take (len - 1) (p @ padded 10 1234567)))\<rparr>" "''v''" 1 "[]" True]
  show ?thesis by simp
qed

end
