(* ===== verification/Zk_Threads.thy ===== *)
theory Zk_Threads
  imports Zk_Timer
begin

section \<open>Mutexes, threads and the timer's worker: \<open>src/infra/zk/mutex.h\<close>, \<open>thread.h\<close>, \<open>event.h\<close>\<close>

text \<open>
  \<open>Mutex\<close> is a recursive pthread mutex: the thread that holds it may take it again, and others get
  it when every \<open>Lock\<close> has had its \<open>Unlock\<close>; \<open>Unlock\<close> by another thread fails, and the wrapper
  ignores the error. A blocked caller is None. \<open>Signal\<close> wakes a thread that waits at that moment
  and is lost when nobody waits; a waiting thread may also wake up by time-out or for no reason.
  The last part is the timer with its worker thread, its clients and its destructor as separate
  threads; a critical section of \<open>m_lock\<close> is one step, and the waits divide the worker's.
\<close>

subsection \<open>Mutexes\<close>

type_synonym thread_id = nat

record Mutex =
  mx_holder :: "(thread_id \<times> nat) option"   \<comment> \<open>the holder and how often it has locked\<close>

definition Mutex_new :: Mutex where
  "Mutex_new = \<lparr>mx_holder = None\<rparr>"

definition EBUSY :: int where "EBUSY = 16"

definition mutexLock :: "thread_id \<Rightarrow> Mutex \<Rightarrow> Mutex option" where
  "mutexLock t m =
     (case mx_holder m of
        None \<Rightarrow> Some (m\<lparr>mx_holder := Some (t, 1)\<rparr>)
      | Some (u, n) \<Rightarrow> if u = t then Some (m\<lparr>mx_holder := Some (t, n + 1)\<rparr>) else None)"

definition mutexTryLock :: "thread_id \<Rightarrow> Mutex \<Rightarrow> Mutex \<times> int" where
  "mutexTryLock t m = (case mutexLock t m of None \<Rightarrow> (m, EBUSY) | Some m1 \<Rightarrow> (m1, 0))"

definition mutexUnlock :: "thread_id \<Rightarrow> Mutex \<Rightarrow> Mutex" where
  "mutexUnlock t m =
     (case mx_holder m of
        None \<Rightarrow> m
      | Some (u, n) \<Rightarrow>
          if u \<noteq> t then m
          else if n \<le> 1 then m\<lparr>mx_holder := None\<rparr>
          else m\<lparr>mx_holder := Some (t, n - 1)\<rparr>)"

definition mutexAcquire :: "thread_id \<Rightarrow> Mutex \<Rightarrow> Mutex option" where
  "mutexAcquire = mutexLock"

definition mutexRelease :: "thread_id \<Rightarrow> Mutex \<Rightarrow> Mutex" where
  "mutexRelease = mutexUnlock"

text \<open>
  \<open>AutoLock\<close> and \<open>AutoUnlockTemp\<close> around a body: the destructors run whether the body returns or
  throws. A body gives the mutex it leaves and its result, or None if it blocks.
\<close>

type_synonym 'a locked = "Mutex \<Rightarrow> (Mutex \<times> (exn + 'a)) option"

definition withAutoLock :: "thread_id \<Rightarrow> 'a locked \<Rightarrow> 'a locked" where
  "withAutoLock t body m =
     Option.bind (mutexLock t m) (\<lambda>m1. map_option (\<lambda>(m2, r). (mutexUnlock t m2, r)) (body m1))"

definition withAutoUnlockTemp :: "thread_id \<Rightarrow> 'a locked \<Rightarrow> 'a locked" where
  "withAutoUnlockTemp t body m =
     Option.bind (body (mutexUnlock t m)) (\<lambda>(m1, r). map_option (\<lambda>m2. (m2, r)) (mutexLock t m1))"

text \<open>The thread may take the mutex; another thread may.\<close>

definition may_take :: "thread_id \<Rightarrow> Mutex \<Rightarrow> bool" where
  "may_take t m \<longleftrightarrow> mutexLock t m \<noteq> None"

definition mutex_ok :: "Mutex \<Rightarrow> bool" where
  "mutex_ok m \<longleftrightarrow> (case mx_holder m of None \<Rightarrow> True | Some (t, n) \<Rightarrow> 0 < n)"

lemma unlock_lock: "mutex_ok m \<Longrightarrow> mutexLock t m = Some m1 \<Longrightarrow> mutexUnlock t m1 = m"
  by (cases m) (auto simp: mutexLock_def mutexUnlock_def mutex_ok_def split: option.splits if_splits)

lemma lock_unlock:
  "mutex_ok m \<Longrightarrow> mx_holder m = Some (t, n) \<Longrightarrow> mutexLock t (mutexUnlock t m) = Some m"
  by (cases m) (auto simp: mutexLock_def mutexUnlock_def mutex_ok_def)

lemma lock_ok: "mutex_ok m \<Longrightarrow> mutexLock t m = Some m1 \<Longrightarrow> mutex_ok m1 \<and> (\<exists>n. mx_holder m1 = Some (t, n))"
  by (auto simp: mutexLock_def mutex_ok_def split: option.splits if_splits)

lemma unlock_ok: "mutex_ok m \<Longrightarrow> mutex_ok (mutexUnlock t m)"
  by (auto simp: mutexUnlock_def mutex_ok_def split: option.splits)

text \<open>A body is neutral if it leaves the mutex as it found it whenever it may take it.\<close>

definition neutral :: "thread_id \<Rightarrow> 'a locked \<Rightarrow> bool" where
  "neutral t body \<longleftrightarrow> (\<forall>m. mutex_ok m \<and> may_take t m \<longrightarrow> (\<exists>r. body m = Some (m, r)))"

lemma neutral_autoLock: "neutral t body \<Longrightarrow> neutral t (withAutoLock t body)"
  unfolding neutral_def
proof (intro allI impI)
  fix m
  assume body: "\<forall>m. mutex_ok m \<and> may_take t m \<longrightarrow> (\<exists>r. body m = Some (m, r))" and m: "mutex_ok m \<and> may_take t m"
  then obtain m1 where m1: "mutexLock t m = Some m1" by (auto simp: may_take_def)
  then have "mutex_ok m1 \<and> may_take t m1"
    using lock_ok [of m t m1] m by (auto simp: may_take_def mutexLock_def)
  with body obtain r where "body m1 = Some (m1, r)" by blast
  then show "\<exists>r. withAutoLock t body m = Some (m, r)"
    using m1 unlock_lock [of m t m1] m by (simp add: withAutoLock_def)
qed

lemma neutral_autoUnlockTemp:
  assumes "neutral t body"
  shows "neutral t (withAutoLock t (withAutoUnlockTemp t body))"
  unfolding neutral_def
proof (intro allI impI)
  fix m
  assume m: "mutex_ok m \<and> may_take t m"
  then obtain m1 where m1: "mutexLock t m = Some m1" by (auto simp: may_take_def)
  then have un: "mutexUnlock t m1 = m" using m by (simp add: unlock_lock)
  with m assms obtain r where "body (mutexUnlock t m1) = Some (m, r)" by (auto simp: neutral_def)
  then show "\<exists>r. withAutoLock t (withAutoUnlockTemp t body) m = Some (m, r)"
    using m1 un by (simp add: withAutoLock_def withAutoUnlockTemp_def)
qed

text \<open>
  An \<open>AutoUnlockTemp\<close> lets other threads in only if its \<open>AutoLock\<close> is the outermost one: within
  a second lock of the same thread the mutex stays held, and a body that waits for another thread
  to take it waits for ever.
\<close>

theorem unlock_temp_frees_outermost_only:
  assumes "mutex_ok m" and "mx_holder m = Some (t, n)" and "u \<noteq> t"
  shows "may_take u (mutexUnlock t m) \<longleftrightarrow> n = 1"
  using assms by (auto simp: may_take_def mutexUnlock_def mutexLock_def mutex_ok_def)

lemma unlock_temp_frees_outermost_only_witness:
  "may_take 1 (mutexUnlock 0 \<lparr>mx_holder = Some (0, 1)\<rparr>) \<and> \<not> may_take 1 (mutexUnlock 0 \<lparr>mx_holder = Some (0, 2)\<rparr>)"
  using unlock_temp_frees_outermost_only [of "\<lparr>mx_holder = Some (0, 1)\<rparr>" 0 1 1]
    unlock_temp_frees_outermost_only [of "\<lparr>mx_holder = Some (0, 2)\<rparr>" 0 2 1]
  by (simp add: mutex_ok_def)

subsection \<open>Threads\<close>

text \<open>
  \<open>pthread_create\<close> answers a handle or an error number. \<open>LOG_FATAL\<close> is empty, so the code goes on
  after a failure. The handle starts as zeros, None here; joining it is undefined.
\<close>

record 'c CXXThread =
  th_handle :: "nat option"
  th_ctx :: "'c option"
  th_func :: bool

definition CXXThread_new :: "'c CXXThread" where
  "CXXThread_new = \<lparr>th_handle = None, th_ctx = None, th_func = False\<rparr>"

definition threadCreate :: "int + nat \<Rightarrow> 'c CXXThread \<Rightarrow> 'c CXXThread" where
  "threadCreate started th =
     (case started of
        Inl err \<Rightarrow> th\<lparr>th_func := True\<rparr>
      | Inr h \<Rightarrow> th\<lparr>th_handle := Some h, th_func := True\<rparr>)"

definition cxxThreadCreate :: "'c \<Rightarrow> int + nat \<Rightarrow> 'c CXXThread \<Rightarrow> 'c CXXThread outcome" where
  "cxxThreadCreate obj started th =
     (if th_ctx th \<noteq> None then Abort else Ok (threadCreate started (th\<lparr>th_ctx := Some obj\<rparr>)))"

text \<open>The thread whose end is waited for, if any.\<close>

definition threadJoin :: "'c CXXThread \<Rightarrow> nat option outcome" where
  "threadJoin th =
     (if \<not> th_func th then Ok None
      else case th_handle th of None \<Rightarrow> Abort | Some h \<Rightarrow> Ok (Some h))"

text \<open>
  A thread can be started once and joined at any time: without a start the join returns at once,
  and after a successful start it waits for exactly that thread. A start that failed is recorded as
  one that succeeded: the join then uses a handle that was never set.
\<close>

theorem thread_start_and_join:
  "threadJoin CXXThread_new = Ok None"
  "cxxThreadCreate obj (Inr h) CXXThread_new = Ok th \<Longrightarrow> threadJoin th = Ok (Some h)"
  "cxxThreadCreate obj started CXXThread_new = Ok th \<Longrightarrow> cxxThreadCreate obj' started' th = Abort"
  "cxxThreadCreate obj (Inl err) CXXThread_new = Ok th \<Longrightarrow> threadJoin th = Abort"
  by (auto simp: threadJoin_def cxxThreadCreate_def threadCreate_def CXXThread_new_def split: sum.splits)

subsection \<open>The timer's threads\<close>

text \<open>
  Where the worker is: before the test of \<open>m_terminating\<close>; past it and before the lock; in the wait
  of 100 ms for an event, or in the wait for the alarm at the given time, each with whether it has
  been signalled; or at its end. The destructor has set the flag, sent its signal, or joined.
\<close>

datatype worker_at = Testing | Entering | AwaitingEvent bool | AwaitingAlarm int bool | Exited
datatype destructor_at = NotCalled | FlagSet | Joining | Joined

record 'd timer_threads =
  tt_timer :: "'d Timer"
  tt_worker :: worker_at
  tt_destructor :: destructor_at
  tt_fired :: "'d TimerEvent list"

definition Timer_started :: "'d timer_threads" where
  "Timer_started = \<lparr>tt_timer = Timer_new, tt_worker = Testing, tt_destructor = NotCalled, tt_fired = []\<rparr>"

text \<open>\<open>Lock::notify\<close>, seen by the worker.\<close>

fun notify :: "worker_at \<Rightarrow> worker_at" where
  "notify (AwaitingEvent s) = AwaitingEvent True"
| "notify (AwaitingAlarm a s) = AwaitingAlarm a True"
| "notify w = w"

text \<open>The critical section of \<open>scheduleAt\<close>: the alarm enters the queue, and the worker is notified.\<close>

definition scheduleAt_locked :: "int \<Rightarrow> 'd \<Rightarrow> 'd timer_threads \<Rightarrow> 'd timer_threads" where
  "scheduleAt_locked absTime d s =
     s\<lparr>tt_timer := snd (scheduleAt absTime d (tt_timer s)), tt_worker := notify (tt_worker s)\<rparr>"

text \<open>The worker from the retrieval of the head to the unlock or the second wait.\<close>

definition retrieve :: "int \<Rightarrow> 'd timer_threads \<Rightarrow> 'd timer_threads" where
  "retrieve now s =
     (case sendAlarmsRound now (tt_timer s) of
        (Some e, tm) \<Rightarrow> s\<lparr>tt_timer := tm, tt_worker := Testing, tt_fired := tt_fired s @ [e]\<rparr>
      | (None, tm) \<Rightarrow>
          (case tm_queue tm of
             [] \<Rightarrow> s\<lparr>tt_worker := Testing\<rparr>
           | e # q \<Rightarrow> s\<lparr>tt_worker := AwaitingAlarm (te_alarmTime e) False\<rparr>))"

text \<open>One step of the worker; \<open>now\<close> is the clock, and a waiting worker wakes up.\<close>

fun worker_step :: "int \<Rightarrow> 'd timer_threads \<Rightarrow> worker_at \<Rightarrow> 'd timer_threads" where
  "worker_step now s Testing =
     s\<lparr>tt_worker := if tm_terminating (tt_timer s) then Exited else Entering\<rparr>"
| "worker_step now s Entering =
     (if tm_queue (tt_timer s) = [] then s\<lparr>tt_worker := AwaitingEvent False\<rparr> else retrieve now s)"
| "worker_step now s (AwaitingEvent sig) = retrieve now s"
| "worker_step now s (AwaitingAlarm a sig) = s\<lparr>tt_worker := Testing\<rparr>"
| "worker_step now s Exited = s"

fun destructor_step :: "'d timer_threads \<Rightarrow> destructor_at \<Rightarrow> 'd timer_threads" where
  "destructor_step s NotCalled =
     s\<lparr>tt_timer := (tt_timer s)\<lparr>tm_terminating := True\<rparr>, tt_destructor := FlagSet\<rparr>"
| "destructor_step s FlagSet = s\<lparr>tt_worker := notify (tt_worker s), tt_destructor := Joining\<rparr>"
| "destructor_step s Joining = (if tt_worker s = Exited then s\<lparr>tt_destructor := Joined\<rparr> else s)"
| "destructor_step s Joined = s"

inductive threads_step :: "'d timer_threads \<Rightarrow> 'd timer_threads \<Rightarrow> bool" where
  Client_schedules: "tt_destructor s = NotCalled \<Longrightarrow> threads_step s (scheduleAt_locked absTime d s)"
| Client_cancels: "tt_destructor s = NotCalled \<Longrightarrow> threads_step s (s\<lparr>tt_timer := snd (cancelAlarm i (tt_timer s))\<rparr>)"
| Worker: "threads_step s (worker_step now s (tt_worker s))"
| Destructor: "threads_step s (destructor_step s (tt_destructor s))"

inductive_cases threads_stepE: "threads_step s t"

subsection \<open>What a wait is for\<close>

definition waits_ok :: "'d timer_threads \<Rightarrow> bool" where
  "waits_ok s \<longleftrightarrow> sorted (map te_alarmTime (tm_queue (tt_timer s))) \<and>
     (case tt_worker s of
        AwaitingEvent False \<Rightarrow> tm_queue (tt_timer s) = []
      | AwaitingAlarm a False \<Rightarrow> list_all (\<lambda>e. a \<le> te_alarmTime e) (tm_queue (tt_timer s))
      | _ \<Rightarrow> True)"

lemma waits_okI:
  assumes "sorted (map te_alarmTime (tm_queue (tt_timer s)))"
    and "tt_worker s \<in> {Testing, Entering, Exited, AwaitingEvent True} \<union> (\<lambda>a. AwaitingAlarm a True) ` UNIV"
  shows "waits_ok s"
  using assms by (auto simp: waits_ok_def)

lemma notified: "notify w \<in> {Testing, Entering, Exited, AwaitingEvent True} \<union> (\<lambda>a. AwaitingAlarm a True) ` UNIV"
  by (cases w) auto

lemma retrieve_waits: "waits_ok s \<Longrightarrow> waits_ok (retrieve now s)"
  by (cases "tm_queue (tt_timer s)")
    (auto simp: retrieve_def sendAlarmsRound_def waits_ok_def list_all_iff)

lemma worker_waits: "waits_ok s \<Longrightarrow> waits_ok (worker_step now s (tt_worker s))"
  by (cases "tt_worker s") (auto simp: retrieve_waits, auto simp: waits_ok_def)

lemma cancel_waits: "waits_ok s \<Longrightarrow> waits_ok (s\<lparr>tt_timer := snd (cancelAlarm i (tt_timer s))\<rparr>)"
  using sorted_eraseFirst [of "tm_queue (tt_timer s)" i] set_eraseFirst [of i "tm_queue (tt_timer s)"]
  by (auto simp: waits_ok_def cancelAlarm_def list_all_iff split: prod.splits worker_at.splits bool.splits)

lemma schedule_waits:
  assumes "waits_ok s"
  shows "waits_ok (scheduleAt_locked absTime d s)"
  using sorted_insert_at_bound [of "tm_queue (tt_timer s)" "\<lparr>te_id = tm_currentEventID (tt_timer s),
      te_alarmTime = absTime, te_userData = d\<rparr>"] assms notified [of "tt_worker s"]
  by (intro waits_okI) (simp_all add: waits_ok_def scheduleAt_locked_def scheduleAt_def Let_def)

lemma destructor_waits: "waits_ok s \<Longrightarrow> waits_ok (destructor_step s (tt_destructor s))"
  by (cases "tt_destructor s"; cases "tt_worker s") (auto simp: waits_ok_def split: bool.splits)

interpretation threadsI: inv_system "\<lambda>s. s = Timer_started" threads_step waits_ok
proof unfold_locales
  show "waits_ok s" if "s = Timer_started" for s :: "'a timer_threads"
    using that by (simp add: waits_ok_def Timer_started_def Timer_new_def)
  show "waits_ok t" if "waits_ok s" "threads_step s t" for s t :: "'a timer_threads"
    using that(2,1) by cases (simp_all add: schedule_waits cancel_waits worker_waits destructor_waits)
qed

text \<open>
  C37. The worker of a timer never sleeps through an alarm. In every state the clients, the worker
  and the destructor can reach, in any order of their steps: if the worker waits for an alarm and
  has not been signalled, no alarm of the queue is earlier than the one it waits for, also after
  later calls of \<open>scheduleAt\<close> and \<open>cancelAlarm\<close>; and if it waits for an event and has not been
  signalled, there is none.
\<close>

theorem timer_worker_never_oversleeps:
  assumes "threads_step\<^sup>*\<^sup>* Timer_started s"
  shows "(tt_worker s = AwaitingAlarm a False \<longrightarrow> list_all (\<lambda>e. a \<le> te_alarmTime e) (tm_queue (tt_timer s))) \<and>
    (tt_worker s = AwaitingEvent False \<longrightarrow> tm_queue (tt_timer s) = [])"
  using threadsI.reachable_inv [OF refl assms] by (auto simp: waits_ok_def)

text \<open>
  The destructor, on the other hand, can miss the worker: it sets \<open>m_terminating\<close> and signals without
  the lock, so both can fall between the worker's test of the flag and its wait. The signal is
  then lost, and the join lasts until the next alarm is due, however far that is.
\<close>

definition one_alarm :: "int \<Rightarrow> 'd \<Rightarrow> bool \<Rightarrow> worker_at \<Rightarrow> destructor_at \<Rightarrow> 'd timer_threads" where
  "one_alarm absTime d terminating w dst =
     \<lparr>tt_timer = \<lparr>tm_currentEventID = 1,
        tm_queue = [\<lparr>te_id = 0, te_alarmTime = absTime, te_userData = d\<rparr>], tm_terminating = terminating\<rparr>,
      tt_worker = w, tt_destructor = dst, tt_fired = []\<rparr>"

lemma one_alarm_steps:
  "threads_step Timer_started (one_alarm a d False Testing NotCalled)"
  "threads_step (one_alarm a d False Testing NotCalled) (one_alarm a d False Entering NotCalled)"
  "threads_step (one_alarm a d False Entering NotCalled) (one_alarm a d True Entering FlagSet)"
  "threads_step (one_alarm a d True Entering FlagSet) (one_alarm a d True Entering Joining)"
  "threads_step (one_alarm a d True Entering Joining) (one_alarm a d True (AwaitingAlarm a False) Joining)"
  using threads_step.Client_schedules [of Timer_started a d]
    threads_step.Worker [of "one_alarm a d False Testing NotCalled" 0]
    threads_step.Destructor [of "one_alarm a d False Entering NotCalled"]
    threads_step.Destructor [of "one_alarm a d True Entering FlagSet"]
    threads_step.Worker [of "one_alarm a d True Entering Joining" "a - 1"]
  by (simp_all add: one_alarm_def Timer_started_def Timer_new_def scheduleAt_locked_def scheduleAt_def lower_bound_def
      narrow32_def retrieve_def sendAlarmsRound_def)

theorem timer_destructor_misses_worker:
  "\<exists>s. threads_step\<^sup>*\<^sup>* Timer_started s \<and> tt_destructor s = Joining \<and> tm_terminating (tt_timer s) \<and>
     tt_worker s = AwaitingAlarm absTime False \<and> map te_userData (tm_queue (tt_timer s)) = [d]"
proof (intro exI conjI)
  show "threads_step\<^sup>*\<^sup>* Timer_started (one_alarm absTime d True (AwaitingAlarm absTime False) Joining)"
    using one_alarm_steps [of absTime d] by (meson converse_rtranclp_into_rtranclp r_into_rtranclp)
qed (simp_all add: one_alarm_def)

lemma timer_worker_never_oversleeps_witness:
  "tt_worker (one_alarm 5 () True (AwaitingAlarm 5 False) Joining) = AwaitingAlarm 5 False \<and>
   list_all (\<lambda>e. 5 \<le> te_alarmTime e) (tm_queue (tt_timer (one_alarm 5 () True (AwaitingAlarm 5 False) Joining)))"
proof -
  have "threads_step\<^sup>*\<^sup>* Timer_started (one_alarm 5 () True (AwaitingAlarm 5 False) Joining)"
    using one_alarm_steps [of 5 "()"] by (meson converse_rtranclp_into_rtranclp r_into_rtranclp)
  from timer_worker_never_oversleeps [OF this, of 5] show ?thesis by (simp add: one_alarm_def)
qed

text \<open>From there on nothing but the end of that wait changes anything.\<close>

lemma joining_waits_for_alarm:
  assumes "tt_destructor s = Joining" and "tt_worker s = AwaitingAlarm a sig" and "threads_step s t"
  shows "t = s \<or> t = s\<lparr>tt_worker := Testing\<rparr>"
  using assms(3,1,2) by cases auto

end
