(* ===== verification/Spec2Isabelle.thy ===== *)
theory Spec2Isabelle
  imports
    Datom_Prelude Datom_Types Config_Tree
    Journal Volume_Meta_Db
    PB_Member PB_Election PB_Leader PB_Write
    Message_Dispatch Volume_Replica Volume_Leader Volume_Sync Replica_Machine
    Config_Manager Config_Service
    Coordination_Client Connection_Cache Kafka_Client Service_Core Properties_Cache
    Resource_Mgr Volume_Server
    Config_Api Client_Lifecycle
    Group_Cluster Cluster_Runs Cluster_Invariant Cluster_Safety Cluster_Writes
    Cluster_Leaders Cluster_Decline Cluster_Election Cluster_Progress
    Zk_Queue Zk_Timer Zk_Adapter Zk_Events Zk_Nodes Zk_Threads
begin

text \<open>
  \<^bold>\<open>Datom: a replicated volume store\<close>

  Datom keeps the metadata of volumes on groups of servers. A configuration service
  (\<open>src/configservice\<close>) groups volume servers into rings of three and places every volume on a
  ring; both tables live in ZooKeeper. Every member of a volume's ring runs a replica of the
  volume (\<open>src/volumeserver\<close>); the replicas elect a leader through an ephemeral ZooKeeper lock,
  and the leader applies every metadata write to its journal and database and sends it to the
  other members (\<open>src/infra/PBMember\<close>, a primary-backup group). Servers talk to each other with
  typed messages in \<open>KVBuffer\<close>s over cached connections; changes of the configuration are announced
  on Kafka topics.

  \<^bold>\<open>Theories and what they model\<close> (paths below \<open>src/\<close>)

  \<^item> \<open>Datom_Prelude\<close>: statuses and exceptions; \<open>outcome\<close>, the result of code that may throw or end
    the process (a failed \<open>CHECK\<close>, undefined behaviour); ordered maps; the locales \<open>table\<close> (what a
    lookup gives after an insert) and \<open>inv_system\<close> (an invariant of a transition system).
  \<^item> \<open>Datom_Types\<close>: the thrift types of \<open>idls/*.thrift\<close>, \<open>KVBuffer\<close> and its accessors
    (\<open>infra/gen-ext\<close>); \<open>folly_ops\<close> stands for the number conversions and splits of folly.
  \<^item> \<open>Config_Tree\<close>: the paths of the configuration tree (\<open>idls/configtree.thrift\<close>).
  \<^item> \<open>Journal\<close> (\<open>infra/Journal.cpp\<close>), \<open>Volume_Meta_Db\<close> (\<open>volumeserver/VolumeMetaDb.cpp\<close>): a replica's
    log and its database of chunks; RocksDB is the record \<open>rocksdb\<close> with the hypothesis \<open>rocksdb_ok\<close>.
  \<^item> \<open>PB_Member\<close>, \<open>PB_Election\<close>, \<open>PB_Leader\<close>, \<open>PB_Write\<close> (\<open>infra/PBMember.h\<close>, \<open>.cpp\<close>, \<open>.tcc\<close>): the record
    \<open>PBMember\<close> and its event handlers. A handler is a function from the state and the event to the
    new state and the calls it starts (\<open>pb_effect\<close>); each continuation of a future chain is a
    function of its own, applied when the answer arrives. \<open>PB_Member\<close> has the watch events and the
    race to be elector, \<open>PB_Election\<close> the election on both sides, \<open>PB_Leader\<close> the leader's view of
    its peers, \<open>PB_Write\<close> a group write and the answers of the peers.
  \<^item> \<open>Message_Dispatch\<close> (\<open>infra/Service.cpp\<close>, \<open>infra/MessageUtils.tcc\<close>): the table of handlers by
    message type and the wrapping of requests and answers.
  \<^item> \<open>Volume_Replica\<close>, \<open>Volume_Leader\<close>, \<open>Volume_Sync\<close> (\<open>volumeserver/VolumeServer.cpp\<close>, \<open>.tcc\<close>): the
    record \<open>VolumeReplica\<close> extends \<open>PBMember\<close> with journal and database; a metadata write on a
    member, the leader's writes, and the protocol by which a follower catches up.
  \<^item> \<open>Replica_Machine\<close>: one replica in its environment, as an inductive step relation over the
    handlers of all the theories above, with the calls in flight; answers in any order.
  \<^item> \<open>Group_Cluster\<close>: the members of one group running together. The record \<open>cluster\<close> has every
    member's process, the calls on their way to ZooKeeper, the answers on their way back, the
    messages and writes between members, and ZooKeeper's ephemeral nodes. An \<open>action\<close> lets one thing
    happen; \<open>cluster_do\<close> runs the definition of the code that handles it, \<open>cluster_run\<close> a list of
    actions. ZooKeeper and the network are modelled by their documented behaviour, stated in that
    theory: calls of a session are executed in order, messages may be lost or overtake each other,
    sessions end after their processes or, if the flag \<open>e_expiry\<close> is set, at any time. The messages
    are those that the code sends: nobody sends a \<open>GroupInfoUpdateMsg\<close>, so the handlers behind it
    never run in a group (\<open>no_handler_syncs\<close>); they are part of \<open>Replica_Machine\<close>.
  \<^item> \<open>Cluster_Runs\<close>: a group of three, with complete codecs, and runs of it. \<open>Cluster_Invariant\<close> and
    \<open>Cluster_Safety\<close>: who may hold, take or remove the lock, as budgets of tokens per session, up to
    the uniqueness of the leader. \<open>Cluster_Writes\<close>: what is known of a write while its answers
    arrive. \<open>Cluster_Leaders\<close>: what every leader knows of its peers. \<open>Cluster_Decline\<close>: how a leader
    changes over time. \<open>Cluster_Election\<close>: from a free lock to a leader, action by action
    (\<open>campaign\<close>). \<open>Cluster_Progress\<close>: from a functional leader to an acknowledged write
    (\<open>replicate_write\<close>).
  \<^item> \<open>Config_Manager\<close>, \<open>Config_Service\<close> (\<open>configservice/ConfigService.cpp\<close>): rings and volumes of a
    data sphere, with concurrent requests as an inductive step relation (\<open>config_step\<close>), and the
    service over them. \<open>Config_Api\<close>: the API handler, request by request, and that the blocking
    service is a refinement of the interleaved manager.
  \<^item> \<open>Coordination_Client\<close> (\<open>infra/ZooKafkaClient.cpp\<close>): the operations over ZooKeeper (the record
    \<open>zookeeper\<close>, hypothesis \<open>zk_ok\<close>: ZooKeeper creates a node if its path is well formed (\<open>zk_path\<close>), it
    fits (\<open>zk_small\<close>) and its parent can have children, and refuses malformed paths); \<open>Kafka_Client\<close> (\<open>infra/KafkaClient.cpp\<close>): topics;
    \<open>Connection_Cache\<close> (\<open>infra/ConnectionCache.cpp\<close>); \<open>Service_Core\<close> (\<open>infra/Service.cpp\<close>): the base
    class of the servers, over the interface \<open>CoordinationClient\<close>; \<open>Properties_Cache\<close>.
    \<open>Client_Lifecycle\<close>: how the two clients start, what they own and release, and their callbacks.
  \<^item> \<open>Resource_Mgr\<close> (\<open>infra/PBResourceMgr.tcc\<close>): which replicas a server runs; \<open>Volume_Server\<close>: the
    server's start-up and the routing of each message to its replica.
  \<^item> \<open>Zk_Queue\<close>, \<open>Zk_Timer\<close>, \<open>Zk_Adapter\<close>, \<open>Zk_Events\<close>, \<open>Zk_Nodes\<close>, \<open>Zk_Threads\<close> (\<open>infra/zk\<close>): the second ZooKeeper
    client of the repository, a library beside the servers: its blocking queue
    (\<open>blockingqueue.h\<close>), listeners and timer (\<open>event.h\<close>), the adapter's connection and its retries,
    the dispatch of watch events, and the operations on nodes (\<open>zkadapter.cc\<close>); mutexes and threads
    (\<open>mutex.h\<close>, \<open>thread.h\<close>), and the timer's worker, clients and destructor as threads. The synchronous C
    client is the record \<open>zoo_api\<close> with the hypothesis \<open>zoo_ok\<close>, which includes that a created path is
    cut to the caller's buffer; \<open>zresult\<close> is a call's result, a value, an exception, or that it has
    not returned. \<open>events_step\<close> interleaves watcher, dispatchers, registrations, reconnects and
    destructor; what its record keeps for reference (\<open>er_log\<close>, \<open>er_registered\<close>, \<open>er_replaced\<close>) no step reads.

  \<^bold>\<open>Conventions\<close>

  Classes are records, templates are their only instances, \<open>std::map\<close> is a sorted list
  (\<open>smap\<close>), \<open>std::unordered_map\<close> an association list. Counters the code compares or wraps are
  words: the 32-bit counters of a write and of the quorum test, the 64-bit keys of the database;
  identifiers that only grow by one are integers. A call that leaves the process (ZooKeeper,
  Kafka, RocksDB, thrift) is an argument: its answer, or a record of functions with its documented
  behaviour as a named hypothesis; every such hypothesis has a concrete instance (\<open>mem_db_ok\<close>,
  \<open>mem_zk_serves\<close>, \<open>folly_dec_ok\<close>). \<open>DCHECK\<close>s are not part of a release build and are left out, as
  is logging. Everything a member does runs on its own event base, so its handlers are atomic;
  the mutexes of the other classes guard single table accesses.

  \<^bold>\<open>Interfaces\<close>

  \<^item> \<open>table\<close> is interpreted by the ordered and the unordered maps;
  \<^item> \<open>inv_system\<close> by the leader's term of office (\<open>leaderI\<close>), the configuration manager (\<open>configI\<close>,
    \<open>serialI\<close>), the replica (\<open>replicaI\<close>), the group (\<open>clusterI\<close>, \<open>writesI\<close>, \<open>rolesI\<close>, \<open>declineI\<close>), the
    blocking queue (\<open>bqI\<close>), the timer (\<open>timerI\<close>, \<open>threadsI\<close>) and the dispatch of watch events
    (\<open>eventsI\<close>, \<open>contextsI\<close>);
  \<^item> \<open>action_laws\<close>, one law per action of a group from which the law of every action follows, by
    the lock's invariant (\<open>ok_actions\<close>), by progress (\<open>proceeds_actions\<close>), by the writes
    (\<open>data_actions\<close>), by the leaders (\<open>leads_actions\<close>) and by the order of answers (\<open>order_actions\<close>);
  \<^item> \<open>fifo\<close>, what one thread relies on of a queue, by the blocking queue (\<open>bqF\<close>);
  \<^item> \<open>write_ahead\<close>, the contract between log and store, by the journal and the database (\<open>wa\<close>);
  \<^item> \<open>coordination_client\<close>, what a service relies on, by the ZooKeeper client (\<open>zkc\<close>).

  \<^bold>\<open>What is shown\<close>

  \<^item> Groups: who may be elector; what an election decides; a leader knows exactly the other
    members and accepts writes exactly if a quorum is functional; what every report and every
    answer of a peer changes; the fate of a write for every order of answers.
  \<^item> Groups as a whole, in every reachable state: at most one running member leads, as long as
    sessions outlive their processes; every acknowledged write is in the journals of a quorum of
    processes, and a leader's commit id is acknowledged for one write only; a leader is functional
    exactly with a quorum; the group a leader writes to only shrinks. From a free lock and a quorum
    that agrees a schedule leads to a leader, and one lets a quorum in step with a functional leader
    acknowledge its writes. An acknowledged write can be lost when the leader stops, and two
    leaders are possible when a session ends early: two runs show it.
  \<^item> Data: a metadata write is all or nothing in journal and database; journals have no gaps in
    any reachable state; replicas that accept the same writes hold the same data; a leader's write
    keeps replicas in agreement.
  \<^item> Configuration: rings partition the volume servers, identifiers are unique, volumes are placed
    on complete rings, under every interleaving; names are unique when requests do not overlap, and
    so what clients of the service list is consistent; when they overlap, the check for duplicates
    does not prevent them.
  \<^item> Servers: a start-up succeeds exactly if the service is configured, and what it announces; a
    volume server reads its tables and adds its replicas before it subscribes to changes; messages reach exactly the replica they name; a create with ancestors makes what is missing;
    the clients release what they opened.
  \<^item> The ZooKeeper adapter: which paths are valid; the locking and the states of a connection; that
    waiting ends; how many requests an operation sends; that create and recursive delete change
    exactly the nodes they should, and what long paths do to a sequence number; that events reach
    the listeners in order and none is lost; that a registered context is used once; the queue is first-in first-out; alarms fire once and never early, and
    the timer's worker never waits past one.
  \<^item> Where the code does not do what it means to, the theorem says what it does: the election
    prefers stale members and in a running system cannot tell them apart; commit ids reported
    never advance; the sync protocol transfers nothing or fails; a refused write, or a journal
    from an earlier term, blocks a leader; chunk lookups miss keys whose byte order differs from
    their numeric order; duplicate volume names under concurrency; data spheres lost on restart;
    properties that are never loaded; a watch that a session event uses up; a session event that outlives its session; a timer's
    destructor that misses its worker.

  \<^bold>\<open>Bounds\<close>

  Every loop of the servers is structural or has a termination proof (\<open>waitConnected\<close>, by the
  seconds left). The retry loop of the ZooKeeper client runs over the list of its attempts and is
  None while it has not ended. In the adapter, \<open>retryLoop\<close> ends by the retries left, \<open>createNode\<close> by
  the length of the path, and \<open>waitLoop\<close> by the list of its waits: \<open>verifyConnection_returns\<close> shows
  when that list is enough. How deep \<open>deleteNode\<close> recurses depends on ZooKeeper; its depth bound is
  enough if it is the height of the tree below the node (\<open>deleteNode_removes_subtree\<close>).
  The dispatcher loops run as many rounds as they are given; \<open>events_all_handled\<close> shows how many
  drain the queues. A run of a group is a list of actions, and \<open>campaign\<close> is the list that elects,
  \<open>replicate_write\<close> the list that replicates a write.
  Lists of peers are shorter than \<open>2 ^ 32\<close> where 32-bit counters are compared with
  their lengths; ids of alarms repeat after \<open>2 ^ 32\<close> of them.

  \<^bold>\<open>Not modelled\<close>

  The thrift server (\<open>infra/ServiceServer.cpp\<close>) and generated code, which only call libraries; the
  log macros of \<open>infra/zk\<close>, which are empty; the unused
  drafts (\<open>replica\<close>, \<open>infra/temp\<close>, \<open>RedundantVolumeConfigMgr\<close>, the code under \<open>#if 0\<close>); main programs,
  tests and tools.
\<close>

end
